(* ===== verification/Argmin_Prelude.thy ===== *)
theory Argmin_Prelude
  imports Main "HOL-Library.Word"
begin

text \<open>
  Shared vocabulary of the development: the machine integers of the Rust sources as words, results
  of fallible functions as sums, the checked and saturating integer operations of the Rust standard
  library, and generic facts on folds that update a list in place.
\<close>

unbundle bit_operations_syntax

type_synonym u8 = "8 word"
type_synonym u16 = "16 word"
type_synonym u32 = "32 word"
type_synonym u64 = "64 word"
type_synonym bytes = "u8 list"

text \<open>\<open>Result<T, E>\<close>: \<open>Inl\<close> carries the error, \<open>Inr\<close> the value; the operator \<open>?\<close> of the sources is
  \<open>and_then\<close>.\<close>

type_synonym ('e, 'a) result = "'e + 'a"

fun and_then :: "('e, 'a) result \<Rightarrow> ('a \<Rightarrow> ('e, 'b) result) \<Rightarrow> ('e, 'b) result" where
  "and_then (Inl e) f = Inl e"
| "and_then (Inr x) f = f x"

lemma and_then_Inr_iff [simp]:
  "and_then r f = Inr y \<longleftrightarrow> (\<exists>x. r = Inr x \<and> f x = Inr y)"
  by (cases r) auto

lemma and_then_Inl_iff:
  "and_then r f = Inl e \<longleftrightarrow> r = Inl e \<or> (\<exists>x. r = Inr x \<and> f x = Inl e)"
  by (cases r) auto

text \<open>\<open>Option::ok_or\<close>.\<close>

fun ok_or :: "'a option \<Rightarrow> 'e \<Rightarrow> ('e, 'a) result" where
  "ok_or None e = Inl e"
| "ok_or (Some x) e = Inr x"

lemma ok_or_Inr_iff [simp]: "ok_or x e = Inr y \<longleftrightarrow> x = Some y"
  by (cases x) auto

lemma ok_or_Inl_iff [simp]: "ok_or x e = Inl e' \<longleftrightarrow> x = None \<and> e' = e"
  by (cases x) auto

section \<open>Rust integer operations\<close>

definition checked_add :: "'a::len word \<Rightarrow> 'a word \<Rightarrow> 'a word option" where
  "checked_add x y = (if unat x + unat y < 2 ^ LENGTH('a) then Some (x + y) else None)"

definition checked_sub :: "'a::len word \<Rightarrow> 'a word \<Rightarrow> 'a word option" where
  "checked_sub x y = (if y \<le> x then Some (x - y) else None)"

definition saturating_add :: "'a::len word \<Rightarrow> 'a word \<Rightarrow> 'a word" where
  "saturating_add x y = (if unat x + unat y < 2 ^ LENGTH('a) then x + y else - 1)"

definition saturating_sub :: "'a::len word \<Rightarrow> 'a word \<Rightarrow> 'a word" where
  "saturating_sub x y = (if y \<le> x then x - y else 0)"

definition abs_diff :: "'a::len word \<Rightarrow> 'a word \<Rightarrow> 'a word" where
  "abs_diff x y = (if y \<le> x then x - y else y - x)"

lemma unat_add_no_wrap:
  "unat (x::'a::len word) + unat y < 2 ^ LENGTH('a) \<Longrightarrow> unat (x + y) = unat x + unat y"
  by (simp add: unat_word_ariths)

lemma checked_add_Some_iff:
  "checked_add x y = Some z \<longleftrightarrow> unat z = unat (x::'a::len word) + unat y"
proof
  assume "checked_add x y = Some z"
  then show "unat z = unat x + unat y"
    by (auto simp: checked_add_def unat_add_no_wrap split: if_splits)
next
  assume eq: "unat z = unat x + unat y"
  have "unat z < 2 ^ LENGTH('a)" by simp
  with eq have "unat (x + y) = unat z" by (simp add: unat_add_no_wrap)
  with eq \<open>unat z < 2 ^ LENGTH('a)\<close> show "checked_add x y = Some z"
    by (simp add: checked_add_def word_unat_eq_iff)
qed

lemma checked_add_None_iff:
  "checked_add x y = None \<longleftrightarrow> 2 ^ LENGTH('a) \<le> unat (x::'a::len word) + unat y"
  by (auto simp: checked_add_def)

lemma checked_sub_Some_iff:
  "checked_sub x y = Some z \<longleftrightarrow> y \<le> x \<and> unat z = unat (x::'a::len word) - unat y"
  by (auto simp: checked_sub_def unat_sub word_unat_eq_iff split: if_splits)

lemma unat_saturating_sub:
  "unat (saturating_sub x y) = unat (x::'a::len word) - unat y"
  by (auto simp: saturating_sub_def unat_sub word_le_nat_alt)

lemma unat_saturating_add:
  "unat (saturating_add x y) = min (unat (x::'a::len word) + unat y) (2 ^ LENGTH('a) - 1)"
proof -
  have "unat (- 1 :: 'a word) = 2 ^ LENGTH('a) - 1"
    by (simp add: unsigned_minus_1_eq_mask mask_eq_exp_minus_1)
  then show ?thesis by (auto simp: saturating_add_def unat_add_no_wrap)
qed

lemma unat_abs_diff:
  "unat (abs_diff x y) = (unat (x::'a::len word) - unat y) + (unat y - unat x)"
  by (auto simp: abs_diff_def unat_sub word_le_nat_alt)

section \<open>Integers as bytes\<close>

text \<open>\<open>from_le_bytes\<close>, \<open>to_le_bytes\<close> and their big-endian counterparts.\<close>

fun from_le_bytes :: "bytes \<Rightarrow> 'a::len word" where
  "from_le_bytes [] = 0"
| "from_le_bytes (b # bs) = ucast b OR push_bit 8 (from_le_bytes bs)"

definition to_le_bytes :: "'a::len word \<Rightarrow> bytes" where
  "to_le_bytes x = map (\<lambda>i. ucast (drop_bit (8 * i) x)) [0..<LENGTH('a) div 8]"

definition from_be_bytes :: "bytes \<Rightarrow> 'a::len word" where
  "from_be_bytes bs = from_le_bytes (rev bs)"

definition to_be_bytes :: "'a::len word \<Rightarrow> bytes" where
  "to_be_bytes x = rev (to_le_bytes x)"

lemma length_to_le_bytes [simp]: "length (to_le_bytes (x :: 'a::len word)) = LENGTH('a) div 8"
  by (simp add: to_le_bytes_def)

lemma length_to_be_bytes [simp]: "length (to_be_bytes (x :: 'a::len word)) = LENGTH('a) div 8"
  by (simp add: to_be_bytes_def)

lemma bit_from_le_bytes:
  "bit (from_le_bytes bs :: 'a::len word) n \<longleftrightarrow>
     n < LENGTH('a) \<and> n < 8 * length bs \<and> bit (bs ! (n div 8)) (n mod 8)"
proof (induction bs arbitrary: n)
  case (Cons b bs)
  show ?case
  proof (cases "n < 8")
    case True
    then show ?thesis by (auto simp: bit_simps)
  next
    case False
    then have "\<not> bit b n" by (auto dest: bit_imp_le_length)
    moreover have "n div 8 = Suc ((n - 8) div 8)" "n mod 8 = (n - 8) mod 8"
      using False by (simp_all add: le_div_geq le_mod_geq)
    ultimately show ?thesis using False Cons.IH [of "n - 8"] by (auto simp: bit_simps)
  qed
qed simp

lemma from_le_to_le_bytes [simp]:
  assumes "8 dvd LENGTH('a)"
  shows "from_le_bytes (to_le_bytes x) = (x :: 'a::len word)"
proof (rule bit_eqI)
  fix n
  have "bit (from_le_bytes (to_le_bytes x) :: 'a word) n \<longleftrightarrow> n < LENGTH('a) \<and> bit x (8 * (n div 8) + n mod 8)"
    using assms by (auto simp: bit_from_le_bytes to_le_bytes_def bit_simps less_mult_imp_div_less mult.commute)
  also have "8 * (n div 8) + n mod 8 = n" by simp
  finally show "bit (from_le_bytes (to_le_bytes x) :: 'a word) n = bit x n"
    by (auto dest: bit_imp_le_length)
qed

lemma to_le_from_le_bytes:
  assumes "LENGTH('a) = 8 * length bs"
  shows "to_le_bytes (from_le_bytes bs :: 'a::len word) = bs"
proof (rule nth_equalityI)
  fix i assume "i < length (to_le_bytes (from_le_bytes bs :: 'a word))"
  then have "i < length bs" using assms by simp
  then show "to_le_bytes (from_le_bytes bs :: 'a word) ! i = bs ! i"
    using assms by (intro bit_eqI) (auto simp: to_le_bytes_def bit_from_le_bytes bit_simps dest: bit_imp_le_length)
qed (use assms in simp)

lemma from_be_to_be_bytes [simp]: "8 dvd LENGTH('a) \<Longrightarrow> from_be_bytes (to_be_bytes x) = (x :: 'a::len word)"
  by (simp add: from_be_bytes_def to_be_bytes_def)

lemma to_be_from_be_bytes: "LENGTH('a) = 8 * length bs \<Longrightarrow> to_be_bytes (from_be_bytes bs :: 'a::len word) = bs"
  by (simp add: from_be_bytes_def to_be_bytes_def to_le_from_le_bytes)

section \<open>Decimal numerals\<close>

text \<open>\<open>Display\<close> of an unsigned integer.\<close>

definition digit_char :: "nat \<Rightarrow> char" where
  "digit_char d = char_of (48 + d)"

fun dec_of_nat :: "nat \<Rightarrow> string" where
  "dec_of_nat n = (if n < 10 then [digit_char n] else dec_of_nat (n div 10) @ [digit_char (n mod 10)])"

declare dec_of_nat.simps [simp del]

section \<open>Hexadecimal numerals\<close>

definition hex_char :: "nat \<Rightarrow> char" where
  "hex_char d = char_of (if d < 10 then 48 + d else 87 + d)"

text \<open>\<open>{:x}\<close> of an unsigned integer.\<close>

fun hex_of_nat :: "nat \<Rightarrow> string" where
  "hex_of_nat n = (if n < 16 then [hex_char n] else hex_of_nat (n div 16) @ [hex_char (n mod 16)])"

declare hex_of_nat.simps [simp del]

section \<open>ASCII strings\<close>

text \<open>\<open>to_ascii_lowercase\<close>, \<open>is_ascii_digit\<close> and the matching functions of the Rust library.\<close>

definition ascii_lower :: "char \<Rightarrow> char" where
  "ascii_lower c = (let n = of_char c :: nat in if 65 \<le> n \<and> n \<le> 90 then char_of (n + 32) else c)"

definition to_ascii_lowercase :: "string \<Rightarrow> string" where
  "to_ascii_lowercase s = map ascii_lower s"

section \<open>Loops that write a list in place\<close>

text \<open>
  A loop \<open>for c in cs { xs[p c] = h(c, xs[p c], xs[q c]) }\<close> whose written positions are distinct and
  disjoint from the other positions it reads computes every cell from the initial contents.
\<close>

definition cell_loop :: "('c \<Rightarrow> nat) \<Rightarrow> ('c \<Rightarrow> nat) \<Rightarrow> ('c \<Rightarrow> 'a \<Rightarrow> 'a \<Rightarrow> 'a) \<Rightarrow> 'c list \<Rightarrow> 'a list \<Rightarrow> 'a list" where
  "cell_loop p q h cs xs = fold (\<lambda>c ys. ys[p c := h c (ys ! p c) (ys ! q c)]) cs xs"

lemma length_cell_loop [simp]: "length (cell_loop p q h cs xs) = length xs"
  unfolding cell_loop_def by (induction cs arbitrary: xs) auto

lemma cell_loop_other:
  "i \<notin> p ` set cs \<Longrightarrow> cell_loop p q h cs xs ! i = xs ! i"
  unfolding cell_loop_def by (induction cs arbitrary: xs) auto

lemma cell_loop_at:
  assumes "distinct cs" and "inj_on p (set cs)" and "c \<in> set cs"
    and "\<And>d. d \<in> set cs \<Longrightarrow> p d < length xs"
    and "q c = p c \<or> q c \<notin> p ` set cs"
  shows "cell_loop p q h cs xs ! p c = h c (xs ! p c) (xs ! q c)"
  using assms
proof (induction cs arbitrary: xs)
  case Nil
  then show ?case by simp
next
  case (Cons d cs)
  let ?xs' = "xs[p d := h d (xs ! p d) (xs ! q d)]"
  have step: "cell_loop p q h (d # cs) xs = cell_loop p q h cs ?xs'"
    by (simp add: cell_loop_def)
  show ?case
  proof (cases "c = d")
    case True
    with Cons.prems have "p c \<notin> p ` set cs" by (auto dest: inj_onD)
    then have "cell_loop p q h cs ?xs' ! p c = ?xs' ! p c" by (rule cell_loop_other)
    with True Cons.prems(4) step show ?thesis by simp
  next
    case False
    with Cons.prems have c: "c \<in> set cs" by simp
    have "p c \<noteq> p d" using inj_onD [OF Cons.prems(2), of c d] c False by auto
    moreover from calculation Cons.prems(5) have "q c \<noteq> p d" by auto
    moreover have "cell_loop p q h cs ?xs' ! p c = h c (?xs' ! p c) (?xs' ! q c)"
      using Cons.prems c by (intro Cons.IH) (auto simp: inj_on_def)
    ultimately show ?thesis by (simp add: step)
  qed
qed

lemma fold_pair:
  "fold (\<lambda>c (a, b). (f c a, g c b)) cs (a, b) = (fold f cs a, fold g cs b)"
  by (induction cs arbitrary: a b) auto

lemma row_major_less: "i < n \<Longrightarrow> j < k \<Longrightarrow> i * k + j < n * (k::nat)"
proof -
  assume "i < n" "j < k"
  then have "i * k + j < Suc i * k" by simp
  also have "\<dots> \<le> n * k" using \<open>i < n\<close> by (intro mult_le_mono1) simp
  finally show ?thesis .
qed

lemma row_major_inj:
  "i * k + j = i' * k + j' \<Longrightarrow> j < k \<Longrightarrow> j' < (k::nat) \<Longrightarrow> i = i' \<and> j = j'"
proof -
  assume eq: "i * k + j = i' * k + j'" and "j < k" and "j' < k"
  have "i = (i * k + j) div k" using \<open>j < k\<close> by simp
  also have "\<dots> = i'" using eq \<open>j' < k\<close> by simp
  finally have "i = i'" .
  with eq show ?thesis by simp
qed

lemma row_major_eq_iff:
  "j < k \<Longrightarrow> j' < k \<Longrightarrow> i * k + j = i' * k + j' \<longleftrightarrow> i = i' \<and> j = (j'::nat)"
  using row_major_inj by blast

lemma row_major_eq_iff_le:
  "j < k \<Longrightarrow> j' < k \<Longrightarrow> k * i + j = k * i' + j' \<longleftrightarrow> i = i' \<and> j = (j'::nat)"
  by (simp add: row_major_eq_iff mult.commute [of k])


text \<open>Two nested counting loops that fill the first \<open>n\<close> rows of a row-major grid of width \<open>w\<close>.\<close>

definition grid_loop :: "nat \<Rightarrow> (nat \<Rightarrow> nat \<Rightarrow> 'a) \<Rightarrow> nat \<Rightarrow> 'a list \<Rightarrow> 'a list" where
  "grid_loop w f n xs = fold (\<lambda>a xs. fold (\<lambda>b xs. xs[a * w + b := f a b]) [0..<w] xs) [0..<n] xs"

lemma grid_loop_Suc:
  "grid_loop w f (Suc n) xs =
     cell_loop (\<lambda>b. n * w + b) (\<lambda>b. n * w + b) (\<lambda>b _ _. f n b) [0..<w] (grid_loop w f n xs)"
  by (simp add: grid_loop_def cell_loop_def)

lemma length_grid_loop [simp]: "length (grid_loop w f n xs) = length xs"
  by (induction n) (simp_all add: grid_loop_Suc, simp add: grid_loop_def)

lemma nth_grid_loop:
  "n * w \<le> length xs \<Longrightarrow> a < n \<Longrightarrow> b < w \<Longrightarrow> grid_loop w f n xs ! (a * w + b) = f a b"
proof (induction n)
  case 0
  then show ?case by simp
next
  case (Suc n)
  show ?case
  proof (cases "a = n")
    case True
    show ?thesis
      unfolding grid_loop_Suc True using Suc.prems by (subst cell_loop_at) (auto simp: inj_on_def)
  next
    case False
    with Suc show ?thesis
      unfolding grid_loop_Suc
      by (subst cell_loop_other) (auto simp: row_major_eq_iff simp del: image_add_atLeastLessThan)
  qed
qed

lemma length_concat_uniform: "(\<And>x. x \<in> set xs \<Longrightarrow> length x = n) \<Longrightarrow> length (concat xs) = length xs * n"
  by (induction xs) auto

lemma nth_concat_uniform:
  "(\<And>x. x \<in> set xs \<Longrightarrow> length x = n) \<Longrightarrow> i < length xs \<Longrightarrow> j < n \<Longrightarrow> concat xs ! (i * n + j) = xs ! i ! j"
proof (induction xs arbitrary: i)
  case Nil
  then show ?case by simp
next
  case (Cons x xs)
  then show ?case by (cases i) (auto simp: nth_append add.assoc)
qed

end
