(* ===== verification/EC_Field.thy ===== *)
theory EC_Field
  imports Argmin_Prelude
begin

text \<open>
  Arithmetic of the erasure code (\<^verbatim>\<open>crates/ec/src/gf.rs\<close>): shift-and-xor multiplication modulo the
  polynomial \<open>0x11d\<close>, the compile-time multiplication and inverse tables, and the table look-ups
  every other routine uses. The tables are shown to hold the operations of a field, which is made
  available as the type \<open>gf256\<close> of class \<open>field\<close>.
\<close>

section \<open>Multiplication and the tables\<close>

definition GF_POLY_LOW :: u8 where
  "GF_POLY_LOW = 0x1d"

definition GF_TABLE_SIZE :: nat where
  "GF_TABLE_SIZE = 256 * 256"

text \<open>One turn of the loop doubles \<open>a\<close>, with \<open>carry\<close> the bit shifted out.\<close>

definition xtime :: "u8 \<Rightarrow> u8" where
  "xtime a = (let carry = a AND 0x80; a' = push_bit 1 a
              in if carry \<noteq> 0 then a' XOR GF_POLY_LOW else a')"

function gf_mul_slow_loop :: "u8 \<Rightarrow> u8 \<Rightarrow> u8 \<Rightarrow> u8" where
  "gf_mul_slow_loop a b product =
     (if b \<noteq> 0
      then gf_mul_slow_loop (xtime a) (drop_bit 1 b) (if b AND 1 \<noteq> 0 then product XOR a else product)
      else product)"
  by pat_completeness auto
termination
proof (relation "measure (\<lambda>(a, b, product). unat b)")
  fix a b product :: u8
  assume "b \<noteq> 0"
  then have "0 < unat b" by (simp add: unat_gt_0)
  then show "((xtime a, drop_bit 1 b, if b AND 1 \<noteq> 0 then product XOR a else product), a, b, product)
      \<in> measure (\<lambda>(a, b, product). unat b)"
    by (simp add: drop_bit_Suc unat_div)
qed simp

declare gf_mul_slow_loop.simps [simp del]

definition gf_mul_slow :: "u8 \<Rightarrow> u8 \<Rightarrow> u8" where
  "gf_mul_slow a b = gf_mul_slow_loop a b 0"

definition build_mul_table :: bytes where
  "build_mul_table =
     fold (\<lambda>a table.
             fold (\<lambda>b table. table[a * 256 + b := gf_mul_slow (word_of_nat a) (word_of_nat b)])
               [0..<256] table)
       [0..<256] (replicate GF_TABLE_SIZE 0)"

function inv_candidate :: "bytes \<Rightarrow> nat \<Rightarrow> nat \<Rightarrow> u8 option" where
  "inv_candidate mul_table v candidate =
     (if candidate < 256
      then if mul_table ! (v * 256 + candidate) = 1 then Some (word_of_nat candidate)
           else inv_candidate mul_table v (candidate + 1)
      else None)"
  by pat_completeness auto
termination
  by (relation "measure (\<lambda>(mul_table, v, candidate). 256 - candidate)") auto

declare inv_candidate.simps [simp del]

definition build_inv_table :: "bytes \<Rightarrow> bytes" where
  "build_inv_table mul_table =
     fold (\<lambda>v table. case inv_candidate mul_table v 1 of
                       Some candidate \<Rightarrow> table[v := candidate]
                     | None \<Rightarrow> table)
       [1..<256] (replicate 256 0)"

definition GF_MUL_TABLE :: bytes where
  "GF_MUL_TABLE = build_mul_table"

definition GF_INV_TABLE :: bytes where
  "GF_INV_TABLE = build_inv_table GF_MUL_TABLE"

definition gf_mul :: "u8 \<Rightarrow> u8 \<Rightarrow> u8" where
  "gf_mul a b = GF_MUL_TABLE ! (unat a * 256 + unat b)"

definition gf_inv :: "u8 \<Rightarrow> u8" where
  "gf_inv a = GF_INV_TABLE ! unat a"

definition gf_mul_table :: "u8 \<Rightarrow> bytes" where
  "gf_mul_table coeff = take 256 (drop (unat coeff * 256) GF_MUL_TABLE)"

section \<open>Multiplication as a bilinear map\<close>

primrec gf_mul_bits :: "nat \<Rightarrow> u8 \<Rightarrow> u8 \<Rightarrow> u8" where
  "gf_mul_bits 0 a b = 0"
| "gf_mul_bits (Suc n) a b = (if bit b 0 then a else 0) XOR gf_mul_bits n (xtime a) (drop_bit 1 b)"

lemma and_one_nonzero: "1 AND b = 0 \<longleftrightarrow> \<not> bit (b::u8) 0"
  by (simp add: bit_0 one_and_eq even_iff_mod_2_eq_zero)

lemma xtime_alt: "xtime a = push_bit 1 a XOR (if bit a 7 then GF_POLY_LOW else 0)"
proof -
  have "a AND 0x80 \<noteq> 0 \<longleftrightarrow> bit a 7"
    using and_exp_eq_0_iff_not_bit [of a 7] by simp
  then show ?thesis by (simp add: xtime_def Let_def)
qed

lemma xtime_xor: "xtime (a XOR b) = xtime a XOR xtime b"
  by (auto simp: xtime_alt push_bit_xor bit_xor_iff ac_simps)

lemma xtime_0 [simp]: "xtime 0 = 0"
  by (simp add: xtime_alt)

lemma gf_mul_bits_0 [simp]: "gf_mul_bits n a 0 = 0" "gf_mul_bits n 0 b = 0"
  by (induction n arbitrary: a b) auto

lemma gf_mul_slow_loop_bits:
  "unat b < 2 ^ n \<Longrightarrow> gf_mul_slow_loop a b p = p XOR gf_mul_bits n a b"
proof (induction n arbitrary: a b p)
  case 0
  then have "b = 0" by (simp add: unat_eq_zero)
  then show ?case by (simp add: gf_mul_slow_loop.simps)
next
  case (Suc n)
  then have "unat (drop_bit 1 b) < 2 ^ n"
    by (simp add: drop_bit_Suc unat_div)
  note IH = Suc.IH [OF this]
  show ?case
    by (subst gf_mul_slow_loop.simps) (auto simp: IH and_one_nonzero ac_simps simp del: One_nat_def)
qed

lemma gf_mul_slow_bits: "gf_mul_slow a b = gf_mul_bits 8 a b"
  using gf_mul_slow_loop_bits [of b 8 a 0] unsigned_less [of b] by (simp add: gf_mul_slow_def)

lemma gf_mul_bits_xor_left: "gf_mul_bits n (a XOR a') b = gf_mul_bits n a b XOR gf_mul_bits n a' b"
  by (induction n arbitrary: a a' b) (auto simp: xtime_xor ac_simps)

lemma gf_mul_bits_xor_right: "gf_mul_bits n a (b XOR b') = gf_mul_bits n a b XOR gf_mul_bits n a b'"
  by (induction n arbitrary: a b b') (auto simp: drop_bit_xor bit_xor_iff ac_simps)

text \<open>Every byte is a sum of powers of two, so a bilinear identity need only hold on those.\<close>

lemma byte_xor_induct [case_names zero basis xor]:
  fixes P :: "u8 \<Rightarrow> bool"
  assumes "P 0" and "\<And>i. i < 8 \<Longrightarrow> P (2 ^ i)" and "\<And>x y. P x \<Longrightarrow> P y \<Longrightarrow> P (x XOR y)"
  shows "P b"
proof -
  have "n \<le> 8 \<Longrightarrow> P (take_bit n b)" for n
  proof (induction n)
    case 0
    then show ?case using assms(1) by simp
  next
    case (Suc n)
    have eq: "take_bit (Suc n) b = take_bit n b XOR (if bit b n then 2 ^ n else 0)"
      by (rule bit_word_eqI)
        (auto simp: bit_take_bit_iff bit_xor_iff bit_exp_iff less_Suc_eq)
    from Suc show ?case unfolding eq using assms by (auto split: if_splits)
  qed
  from this [of 8] show ?thesis by (simp add: take_bit_length_eq [where 'a = 8, simplified])
qed



subsection \<open>Bytes as bit lists, for evaluation\<close>

text \<open>
  The identities on the basis, and the existence of inverses, are finite checks. They are evaluated
  on lists of eight truth values, which the simplifier computes with quickly.
\<close>

definition bits_of :: "u8 \<Rightarrow> bool list" where
  "bits_of b = map (bit b) [0..<8]"

fun bits_xtime :: "bool list \<Rightarrow> bool list" where
  "bits_xtime [b0, b1, b2, b3, b4, b5, b6, b7] =
     (if b7 then [True, b0, \<not> b1, \<not> b2, \<not> b3, b4, b5, b6] else [False, b0, b1, b2, b3, b4, b5, b6])"
| "bits_xtime bs = bs"

fun bits_xor :: "bool list \<Rightarrow> bool list \<Rightarrow> bool list" where
  "bits_xor (x # xs) (y # ys) = (if x then \<not> y else y) # bits_xor xs ys"
| "bits_xor xs ys = []"

fun bits_mul :: "bool list \<Rightarrow> bool list \<Rightarrow> bool list" where
  "bits_mul a [] = replicate 8 False"
| "bits_mul a (True # cs) = bits_xor a (bits_mul (bits_xtime a) cs)"
| "bits_mul a (False # cs) = bits_mul (bits_xtime a) cs"

lemma upt_8: "[0..<8] = [0, 1, 2, 3, 4, 5, 6, 7]"
  by (simp add: upt_rec)

lemma bits_of_eq_iff: "bits_of a = bits_of b \<longleftrightarrow> a = b"
  by (auto simp: bits_of_def intro!: bit_word_eqI)

lemma bit_xtime: "i < 8 \<Longrightarrow> bit (xtime a) i \<longleftrightarrow> (1 \<le> i \<and> bit a (i - 1)) \<noteq> (bit a 7 \<and> bit GF_POLY_LOW i)"
  by (simp only: xtime_alt bit_xor_iff bit_push_bit_iff) auto

lemma bits_of_xtime: "bits_of (xtime a) = bits_xtime (bits_of a)"
  by (simp add: bits_of_def upt_8 bit_xtime GF_POLY_LOW_def)

lemma bits_xor_map: "bits_xor (map f xs) (map g xs) = map (\<lambda>i. f i \<noteq> g i) xs"
  by (induction xs) auto

lemma bits_of_xor: "bits_of (a XOR b) = bits_xor (bits_of a) (bits_of b)"
  by (simp add: bits_of_def bits_xor_map bit_xor_iff)

lemma bits_of_0: "bits_of 0 = replicate 8 False"
  by (rule nth_equalityI) (auto simp: bits_of_def)

lemma bits_upt_Suc: "map (bit b) [0..<Suc n] = bit b 0 # map (bit (drop_bit 1 b)) [0..<n]" for b :: u8
  by (simp add: upt_conv_Cons map_Suc_upt [symmetric] bit_drop_bit_eq del: upt_Suc)

lemma bits_of_mul_bits: "bits_of (gf_mul_bits n a b) = bits_mul (bits_of a) (map (bit b) [0..<n])"
proof (induction n arbitrary: a b)
  case 0
  then show ?case by (simp add: bits_of_0)
next
  case (Suc n)
  then show ?case
    by (cases "bit b 0") (simp_all add: bits_upt_Suc bits_of_xor bits_of_xtime del: upt_Suc)
qed

lemma bits_of_mul: "bits_of (gf_mul_bits 8 a b) = bits_mul (bits_of a) (bits_of b)"
  by (simp only: bits_of_mul_bits) (simp only: bits_of_def)

definition bits_basis :: "bool list list" where
  "bits_basis = map (\<lambda>i. map (\<lambda>j. i = j) [0..<8]) [0..<8]"

lemma bits_of_basis: "i < 8 \<Longrightarrow> bits_of (2 ^ i) \<in> set bits_basis"
  by (auto simp: bits_basis_def bits_of_def bit_exp_iff)

lemma bits_basis_commute:
  "list_all (\<lambda>x. list_all (\<lambda>y. bits_mul x y = bits_mul y x) bits_basis) bits_basis"
  by code_simp

lemma bits_basis_assoc:
  "list_all (\<lambda>x. list_all (\<lambda>y. list_all (\<lambda>z.
     bits_mul (bits_mul x y) z = bits_mul x (bits_mul y z)) bits_basis) bits_basis) bits_basis"
  by code_simp

text \<open>Fermat's inverse \<open>a ^ 254\<close>, by repeated squaring.\<close>

definition bits_pow254 :: "bool list \<Rightarrow> bool list" where
  "bits_pow254 a =
     (let a2 = bits_mul a a; a4 = bits_mul a2 a2; a8 = bits_mul a4 a4; a16 = bits_mul a8 a8;
          a32 = bits_mul a16 a16; a64 = bits_mul a32 a32; a128 = bits_mul a64 a64
      in bits_mul a2 (bits_mul a4 (bits_mul a8 (bits_mul a16 (bits_mul a32 (bits_mul a64 a128))))))"

lemma bits_fermat:
  "list_all (\<lambda>x. x = replicate 8 False \<or>
       bits_mul x (bits_pow254 x) = [True, False, False, False, False, False, False, False])
     (List.n_lists 8 [False, True])"
  by code_simp


lemma byte_basis_induct:
  fixes P :: "u8 \<Rightarrow> bool"
  assumes "P 0" and "\<And>x. bits_of x \<in> set bits_basis \<Longrightarrow> P x" and "\<And>x y. P x \<Longrightarrow> P y \<Longrightarrow> P (x XOR y)"
  shows "P b"
  using assms by (induction b rule: byte_xor_induct) (auto intro: bits_of_basis)

lemma gf_mul_bits_commute: "gf_mul_bits 8 a b = gf_mul_bits 8 b a"
proof (induction a rule: byte_basis_induct)
  case (2 x)
  show ?case
  proof (induction b rule: byte_basis_induct)
    case (2 y)
    with \<open>bits_of x \<in> set bits_basis\<close> show ?case
      using bits_basis_commute
      by (simp add: bits_of_eq_iff [symmetric] bits_of_mul list_all_iff)
  qed (simp_all add: gf_mul_bits_xor_left gf_mul_bits_xor_right)
qed (simp_all add: gf_mul_bits_xor_left gf_mul_bits_xor_right)

lemma gf_mul_bits_assoc:
  "gf_mul_bits 8 (gf_mul_bits 8 a b) c = gf_mul_bits 8 a (gf_mul_bits 8 b c)"
proof (induction a rule: byte_basis_induct)
  case (2 x)
  show ?case
  proof (induction b rule: byte_basis_induct)
    case (2 y)
    show ?case
    proof (induction c rule: byte_basis_induct)
      case (2 z)
      with \<open>bits_of x \<in> set bits_basis\<close> \<open>bits_of y \<in> set bits_basis\<close> show ?case
        using bits_basis_assoc
        by (simp add: bits_of_eq_iff [symmetric] bits_of_mul list_all_iff)
    qed (simp_all add: gf_mul_bits_xor_right)
  qed (simp_all add: gf_mul_bits_xor_left gf_mul_bits_xor_right)
qed (simp_all add: gf_mul_bits_xor_left)

lemma gf_mul_bits_1: "gf_mul_bits 8 a 1 = a"
proof -
  have "gf_mul_bits (Suc n) a 1 = a" for n
    by (simp add: bit_1_iff drop_bit_Suc)
  from this [of 7] show ?thesis by simp
qed

lemma bits_of_in_n_lists: "bits_of a \<in> set (List.n_lists 8 [False, True])"
  by (auto simp: set_n_lists bits_of_def)

lemma gf_inverse_exists:
  assumes "a \<noteq> 0"
  shows "\<exists>c. gf_mul_bits 8 a c = 1"
proof -
  let ?m = "gf_mul_bits 8"
  define c where "c = (let a2 = ?m a a; a4 = ?m a2 a2; a8 = ?m a4 a4; a16 = ?m a8 a8;
      a32 = ?m a16 a16; a64 = ?m a32 a32; a128 = ?m a64 a64
    in ?m a2 (?m a4 (?m a8 (?m a16 (?m a32 (?m a64 a128))))))"
  have c: "bits_of c = bits_pow254 (bits_of a)"
    by (simp add: c_def bits_pow254_def Let_def bits_of_mul)
  from assms have "bits_of a \<noteq> replicate 8 False"
    using bits_of_eq_iff [of a 0] by (simp add: bits_of_0)
  with bits_fermat bits_of_in_n_lists [of a]
  have "bits_mul (bits_of a) (bits_of c) = [True, False, False, False, False, False, False, False]"
    by (auto simp: list_all_iff c)
  also have "\<dots> = bits_of 1" by (simp add: bits_of_def upt_8)
  finally show ?thesis by (auto simp: bits_of_mul [symmetric] bits_of_eq_iff)
qed

section \<open>What the tables hold\<close>

lemma GF_MUL_TABLE_grid:
  "GF_MUL_TABLE = grid_loop 256 (\<lambda>a b. gf_mul_slow (word_of_nat a) (word_of_nat b)) 256 (replicate GF_TABLE_SIZE 0)"
  by (simp add: GF_MUL_TABLE_def build_mul_table_def grid_loop_def)

lemma length_GF_MUL_TABLE: "length GF_MUL_TABLE = GF_TABLE_SIZE"
  by (simp add: GF_MUL_TABLE_grid)

lemma nth_GF_MUL_TABLE:
  "a < 256 \<Longrightarrow> b < 256 \<Longrightarrow> GF_MUL_TABLE ! (a * 256 + b) = gf_mul_slow (word_of_nat a) (word_of_nat b)"
  by (simp add: GF_MUL_TABLE_grid nth_grid_loop GF_TABLE_SIZE_def)

lemma byte_less: "unat (a::u8) < 256"
  using unsigned_less [of a] by simp

lemma gf_mul_eq_slow [code]: "gf_mul a b = gf_mul_slow a b"
  by (simp add: gf_mul_def nth_GF_MUL_TABLE byte_less)

lemma gf_mul_bits: "gf_mul a b = gf_mul_bits 8 a b"
  by (simp add: gf_mul_eq_slow gf_mul_slow_bits)

lemma inv_candidate_Some:
  assumes "inv_candidate t v c = Some d" and "v < 256"
  shows "unat d < 256 \<and> c \<le> unat d \<and> t ! (v * 256 + unat d) = 1"
  using assms
proof (induction t v c rule: inv_candidate.induct)
  case (1 t v c)
  then show ?case
    by (subst (asm) (2) inv_candidate.simps)
      (auto simp: unat_of_nat split: if_splits)
qed

lemma inv_candidate_None:
  "inv_candidate t v c = None \<Longrightarrow> c \<le> d \<Longrightarrow> d < 256 \<Longrightarrow> t ! (v * 256 + d) \<noteq> 1"
proof (induction t v c rule: inv_candidate.induct)
  case (1 t v c)
  then show ?case
    by (subst (asm) (2) inv_candidate.simps) (cases "c = d"; auto split: if_splits)
qed

lemma inv_table_rows:
  "n \<le> 256 \<Longrightarrow> length t = 256 \<Longrightarrow>
   length (fold (\<lambda>v table. case inv_candidate mt v 1 of Some c \<Rightarrow> table[v := c] | None \<Rightarrow> table) [1..<n] t) = 256 \<and>
   (\<forall>v < 256. fold (\<lambda>v table. case inv_candidate mt v 1 of Some c \<Rightarrow> table[v := c] | None \<Rightarrow> table) [1..<n] t ! v =
      (if 1 \<le> v \<and> v < n then (case inv_candidate mt v 1 of Some c \<Rightarrow> c | None \<Rightarrow> t ! v) else t ! v))"
proof (induction n)
  case 0
  then show ?case by simp
next
  case (Suc n)
  then show ?case
    by (cases "n = 0") (auto split: option.splits simp: nth_list_update less_Suc_eq)
qed

lemma gf_inv_0 [simp]: "gf_inv 0 = 0"
  using inv_table_rows [of 256 "replicate 256 0" GF_MUL_TABLE, simplified]
  by (simp add: gf_inv_def GF_INV_TABLE_def build_inv_table_def)

lemma length_GF_INV_TABLE: "length GF_INV_TABLE = 256"
  using inv_table_rows [of 256 "replicate 256 0" GF_MUL_TABLE, simplified]
  by (simp add: GF_INV_TABLE_def build_inv_table_def)

lemma gf_mul_gf_inv:
  assumes "a \<noteq> 0"
  shows "gf_mul a (gf_inv a) = 1"
proof -
  from assms have pos: "1 \<le> unat a"
    using unat_gt_0 [of a] by simp
  obtain c where c: "gf_mul a c = 1"
    using gf_inverse_exists [OF assms] by (auto simp: gf_mul_bits)
  then have "c \<noteq> 0" by (auto simp: gf_mul_bits)
  then have "1 \<le> unat c" using unat_gt_0 [of c] by simp
  with c obtain d where d: "inv_candidate GF_MUL_TABLE (unat a) 1 = Some d"
    using inv_candidate_None [of GF_MUL_TABLE "unat a" 1 "unat c"] byte_less [of c]
    by (cases "inv_candidate GF_MUL_TABLE (unat a) 1") (auto simp: gf_mul_def)
  have "gf_inv a = d"
    using inv_table_rows [of 256 "replicate 256 0" GF_MUL_TABLE] pos d byte_less [of a]
    by (simp add: gf_inv_def GF_INV_TABLE_def build_inv_table_def)
  with inv_candidate_Some [OF d byte_less] show ?thesis by (simp add: gf_mul_def)
qed

lemma length_gf_mul_table [simp]: "length (gf_mul_table c) = 256"
  using byte_less [of c] by (simp add: gf_mul_table_def length_GF_MUL_TABLE GF_TABLE_SIZE_def)

lemma nth_gf_mul_table: "i < 256 \<Longrightarrow> gf_mul_table c ! i = gf_mul c (word_of_nat i)"
  using byte_less [of c]
  by (simp add: gf_mul_table_def length_GF_MUL_TABLE GF_TABLE_SIZE_def gf_mul_def unat_of_nat)

section \<open>The field with 256 elements\<close>

lemma gf_mul_commute: "gf_mul a b = gf_mul b a"
  by (simp add: gf_mul_bits gf_mul_bits_commute)

lemma gf_mul_assoc: "gf_mul (gf_mul a b) c = gf_mul a (gf_mul b c)"
  by (simp add: gf_mul_bits gf_mul_bits_assoc)

lemma gf_mul_xor_left: "gf_mul (a XOR b) c = gf_mul a c XOR gf_mul b c"
  by (simp add: gf_mul_bits gf_mul_bits_xor_left)

lemma gf_mul_xor_right: "gf_mul a (b XOR c) = gf_mul a b XOR gf_mul a c"
  by (simp add: gf_mul_bits gf_mul_bits_xor_right)

lemma gf_mul_1 [simp]: "gf_mul a 1 = a" "gf_mul 1 a = a"
  by (simp_all add: gf_mul_bits gf_mul_bits_1 gf_mul_bits_commute [of 1])

lemma gf_mul_0 [simp]: "gf_mul a 0 = 0" "gf_mul 0 a = 0"
  by (simp_all add: gf_mul_bits)

lemma gf_inv_1 [simp]: "gf_inv 1 = 1"
  using gf_mul_gf_inv [of 1] by simp

typedef gf256 = "UNIV :: u8 set"
  morphisms byte_of gf_of ..

setup_lifting type_definition_gf256

instantiation gf256 :: field
begin

lift_definition zero_gf256 :: gf256 is "0" .
lift_definition one_gf256 :: gf256 is "1" .
lift_definition plus_gf256 :: "gf256 \<Rightarrow> gf256 \<Rightarrow> gf256" is "(XOR)" .
lift_definition minus_gf256 :: "gf256 \<Rightarrow> gf256 \<Rightarrow> gf256" is "(XOR)" .
lift_definition uminus_gf256 :: "gf256 \<Rightarrow> gf256" is "\<lambda>a. a" .
lift_definition times_gf256 :: "gf256 \<Rightarrow> gf256 \<Rightarrow> gf256" is gf_mul .
lift_definition inverse_gf256 :: "gf256 \<Rightarrow> gf256" is gf_inv .
lift_definition divide_gf256 :: "gf256 \<Rightarrow> gf256 \<Rightarrow> gf256" is "\<lambda>a b. gf_mul a (gf_inv b)" .

instance
proof
  fix a b c :: gf256
  show "a + b + c = a + (b + c)" by transfer (simp add: ac_simps)
  show "a + b = b + a" by transfer (simp add: ac_simps)
  show "0 + a = a" by transfer simp
  show "- a + a = 0" by transfer simp
  show "a - b = a + - b" by transfer simp
  show "a * b * c = a * (b * c)" by transfer (rule gf_mul_assoc)
  show "a * b = b * a" by transfer (rule gf_mul_commute)
  show "1 * a = a" by transfer simp
  show "(a + b) * c = a * c + b * c" by transfer (rule gf_mul_xor_left)
  show "(0::gf256) \<noteq> 1" by transfer simp
  show "inverse a * a = 1" if "a \<noteq> 0"
    using that by transfer (simp add: gf_mul_commute gf_mul_gf_inv)
  show "a div b = a * inverse b" by transfer simp
  show "inverse (0::gf256) = 0" by transfer simp
qed

end

lemma gf_of_xor: "gf_of (a XOR b) = gf_of a + gf_of b"
  by (simp add: plus_gf256.abs_eq)

lemma gf_of_mul: "gf_of (gf_mul a b) = gf_of a * gf_of b"
  by (simp add: times_gf256.abs_eq)

lemma gf_of_inv: "gf_of (gf_inv a) = inverse (gf_of a)"
  by (simp add: inverse_gf256.abs_eq)

lemma gf_of_0: "gf_of 0 = 0"
  by (simp add: zero_gf256_def)

lemma gf_of_1: "gf_of 1 = 1"
  by (simp add: one_gf256_def)

lemma gf_of_eq_iff [simp]: "gf_of a = gf_of b \<longleftrightarrow> a = b"
  by (simp add: gf_of_inject)

lemma gf_of_eq_0_iff: "gf_of a = 0 \<longleftrightarrow> a = 0"
  using gf_of_eq_iff [of a 0] by (simp add: gf_of_0 del: gf_of_eq_iff)

lemma gf_plus_self: "a + a = (0::gf256)"
  by transfer simp

lemma gf_minus_eq_plus: "a - b = a + (b::gf256)"
  by transfer simp

lemmas gf_of_simps = gf_of_xor gf_of_mul gf_of_inv gf_of_0 gf_of_1 gf_of_eq_0_iff

text \<open>
  C6. The multiplication and inverse tables the codec looks up are those of a field whose addition is
  exclusive or: multiplication is associative and commutative with unit \<open>1\<close>, distributes over XOR,
  and the inverse table holds the inverse of every non-zero byte.
\<close>

theorem gf_tables_form_a_field:
  "gf_mul (gf_mul a b) c = gf_mul a (gf_mul b c) \<and>
   gf_mul a b = gf_mul b a \<and>
   gf_mul a 1 = a \<and>
   gf_mul a (b XOR c) = gf_mul a b XOR gf_mul a c \<and>
   gf_mul a (gf_inv a) = (if a = 0 then 0 else 1)"
  by (intro conjI gf_mul_assoc gf_mul_commute gf_mul_xor_right) (simp_all add: gf_mul_gf_inv)

text \<open>
  The table look-up that the codec performs for a product equals the shift-and-xor loop the table
  was built from, for all 65536 pairs of bytes, and every look-up is inside the table.
\<close>

theorem gf_mul_lookup_eq_slow:
  "gf_mul a b = gf_mul_slow a b \<and> unat a * 256 + unat b < length GF_MUL_TABLE \<and>
   unat a < length GF_INV_TABLE"
  using byte_less [of a] byte_less [of b]
  by (simp add: gf_mul_eq_slow length_GF_MUL_TABLE length_GF_INV_TABLE GF_TABLE_SIZE_def)

end
