(* ===== verification/EC_Matrix.thy ===== *)
theory EC_Matrix
  imports EC_Field
begin

text \<open>
  The bulk routines of \<^verbatim>\<open>crates/ec/src/gf.rs\<close> (scalar backend): the Cauchy generator matrix, the
  per-coefficient multiplication tables, the unrolled slice kernels, the row products that encode and
  recover shards, and the Gauss-Jordan inversion. Matrices are flat byte lists in row-major order, as
  in the sources. The kernels are shown to compute matrix products over \<open>gf256\<close>, and the inversion to
  return a left inverse exactly when the matrix is regular.
\<close>

section \<open>Slices\<close>

text \<open>\<open>dst[start..start + src.len()].copy_from_slice(src)\<close>\<close>

definition copy_into :: "'a list \<Rightarrow> nat \<Rightarrow> 'a list \<Rightarrow> 'a list" where
  "copy_into dst start src = take start dst @ src @ drop (start + length src) dst"

definition slice :: "'a list \<Rightarrow> nat \<Rightarrow> nat \<Rightarrow> 'a list" where
  "slice xs start stop = take (stop - start) (drop start xs)"

section \<open>The generator matrix and the multiplication tables\<close>

text \<open>The loop keeps \<open>offset\<close> as a running index; it starts behind the identity rows.\<close>

definition gen_cauchy1_matrix :: "nat \<Rightarrow> nat \<Rightarrow> nat \<Rightarrow> bytes" where
  "gen_cauchy1_matrix len rows k =
     (let matrix = replicate len 0;
          matrix = fold (\<lambda>row matrix. matrix[row * k + row := 1]) [0..<k] matrix
      in fst (fold (\<lambda>row (matrix, offset).
                fold (\<lambda>col (matrix, offset).
                        (matrix[offset := gf_inv (word_of_nat (row XOR col))], offset + 1))
                  [0..<k] (matrix, offset))
              [k..<rows] (matrix, k * k)))"

definition build_mul_tables :: "bytes \<Rightarrow> bytes" where
  "build_mul_tables coefficients =
     fold (\<lambda>(index, coefficient) tables. copy_into tables (index * 256) (gf_mul_table coefficient))
       (List.enumerate 0 coefficients) (replicate (length coefficients * 256) 0)"

section \<open>Slice kernels, unrolled by eight\<close>

function tail_loop :: "(nat \<Rightarrow> 'a list \<Rightarrow> 'a list) \<Rightarrow> nat \<Rightarrow> nat \<Rightarrow> 'a list \<Rightarrow> 'a list" where
  "tail_loop body index len dest =
     (if index < len then tail_loop body (index + 1) len (body index dest) else dest)"
  by pat_completeness auto
termination
  by (relation "measure (\<lambda>(body, index, len, dest). len - index)") auto

function unrolled_loop :: "(nat \<Rightarrow> 'a list \<Rightarrow> 'a list) \<Rightarrow> nat \<Rightarrow> nat \<Rightarrow> 'a list \<Rightarrow> 'a list" where
  "unrolled_loop body index len dest =
     (if index + 8 \<le> len
      then unrolled_loop body (index + 8) len
             (body (index + 7) (body (index + 6) (body (index + 5) (body (index + 4)
             (body (index + 3) (body (index + 2) (body (index + 1) (body index dest))))))))
      else tail_loop body index len dest)"
  by pat_completeness auto
termination
  by (relation "measure (\<lambda>(body, index, len, dest). len - index)") auto

declare tail_loop.simps [simp del] unrolled_loop.simps [simp del]

definition xor_with_slice :: "bytes \<Rightarrow> bytes \<Rightarrow> bytes" where
  "xor_with_slice dest src =
     unrolled_loop (\<lambda>index dest. dest[index := dest ! index XOR src ! index]) 0 (length dest) dest"

definition xor_with_table :: "bytes \<Rightarrow> bytes \<Rightarrow> bytes \<Rightarrow> bytes" where
  "xor_with_table dest src table =
     unrolled_loop (\<lambda>index dest. dest[index := dest ! index XOR table ! unat (src ! index)])
       0 (length dest) dest"

definition write_with_table :: "bytes \<Rightarrow> bytes \<Rightarrow> bytes \<Rightarrow> bytes" where
  "write_with_table dest src table =
     unrolled_loop (\<lambda>index dest. dest[index := table ! unat (src ! index)]) 0 (length dest) dest"

definition xor_with_coeff :: "bytes \<Rightarrow> bytes \<Rightarrow> u8 \<Rightarrow> bytes" where
  "xor_with_coeff dest src coeff =
     (if coeff = 0 then dest
      else if coeff = 1 then xor_with_slice dest src
      else xor_with_table dest src (gf_mul_table coeff))"

definition write_with_coeff :: "bytes \<Rightarrow> bytes \<Rightarrow> u8 \<Rightarrow> bytes" where
  "write_with_coeff dest src coeff =
     (if coeff = 0 then replicate (length dest) 0
      else if coeff = 1 then src
      else write_with_table dest src (gf_mul_table coeff))"

section \<open>Row products\<close>

definition encode_row :: "nat \<Rightarrow> bytes \<Rightarrow> bytes list \<Rightarrow> nat \<Rightarrow> bytes \<Rightarrow> bytes" where
  "encode_row k tables data row output =
     (case find (\<lambda>col. tables ! ((row * k + col) * 256 + 1) \<noteq> 0) [0..<k] of
        None \<Rightarrow> replicate (length output) 0
      | Some first_col \<Rightarrow>
          fold (\<lambda>(col, source) output.
                  let table_start = (row * k + col) * 256
                  in if tables ! (table_start + 1) = 0 then output
                     else xor_with_table output source (slice tables table_start (table_start + 256)))
            (drop (first_col + 1) (take k (List.enumerate 0 data)))
            (write_with_table output (data ! first_col)
               (slice tables ((row * k + first_col) * 256) ((row * k + first_col) * 256 + 256))))"

definition encode_rows_scalar :: "nat \<Rightarrow> bytes \<Rightarrow> bytes list \<Rightarrow> bytes list \<Rightarrow> bytes list" where
  "encode_rows_scalar k tables data outputs =
     map (\<lambda>(row, output). encode_row k tables data row output) (List.enumerate 0 outputs)"

definition apply_matrix_row :: "bytes \<Rightarrow> bytes list \<Rightarrow> bytes \<Rightarrow> bytes" where
  "apply_matrix_row row inputs output =
     (case find (\<lambda>(index, coeff). coeff \<noteq> 0) (List.enumerate 0 row) of
        None \<Rightarrow> replicate (length output) 0
      | Some (first_index, first_coeff) \<Rightarrow>
          fold (\<lambda>(coeff, source) output. xor_with_coeff output source coeff)
            (drop (first_index + 1) (zip row inputs))
            (write_with_coeff output (inputs ! first_index) first_coeff))"

definition apply_matrix_rows_scalar :: "nat \<Rightarrow> bytes \<Rightarrow> bytes list \<Rightarrow> bytes list \<Rightarrow> bytes list" where
  "apply_matrix_rows_scalar k rows inputs outputs =
     map (\<lambda>(row_index, output). apply_matrix_row (slice rows (row_index * k) ((row_index + 1) * k)) inputs output)
       (List.enumerate 0 outputs)"

section \<open>Gauss-Jordan inversion\<close>

function find_swap_row :: "bytes \<Rightarrow> nat \<Rightarrow> nat \<Rightarrow> nat \<Rightarrow> nat" where
  "find_swap_row input n pivot swap_row =
     (if swap_row < n \<and> input ! (swap_row * n + pivot) = 0
      then find_swap_row input n pivot (swap_row + 1) else swap_row)"
  by pat_completeness auto
termination
  by (relation "measure (\<lambda>(input, n, pivot, swap_row). n - swap_row)") auto

declare find_swap_row.simps [simp del]

definition swap_cells :: "'a list \<Rightarrow> nat \<Rightarrow> nat \<Rightarrow> 'a list" where
  "swap_cells xs i j = xs[i := xs ! j, j := xs ! i]"

text \<open>One round of the loop over \<open>pivot\<close>; \<open>None\<close> is the early return \<open>Err(())\<close>.\<close>

definition invert_pivot :: "nat \<Rightarrow> nat \<Rightarrow> bytes \<times> bytes \<Rightarrow> (bytes \<times> bytes) option" where
  "invert_pivot n pivot st =
     (case (let (input, output) = st in
            if input ! (pivot * n + pivot) = 0
            then let swap_row = find_swap_row input n pivot (pivot + 1)
                 in if swap_row = n then None
                    else Some (fold (\<lambda>col (input, output).
                                 (swap_cells input (pivot * n + col) (swap_row * n + col),
                                  swap_cells output (pivot * n + col) (swap_row * n + col)))
                               [0..<n] (input, output))
            else Some (input, output)) of
        None \<Rightarrow> None
      | Some (input, output) \<Rightarrow>
          let scale = gf_inv (input ! (pivot * n + pivot));
              (input, output) =
                fold (\<lambda>col (input, output).
                        (input[pivot * n + col := gf_mul (input ! (pivot * n + col)) scale],
                         output[pivot * n + col := gf_mul (output ! (pivot * n + col)) scale]))
                  [0..<n] (input, output)
          in Some (fold (\<lambda>row (input, output).
                     if row = pivot then (input, output)
                     else let factor = input ! (row * n + pivot)
                          in if factor = 0 then (input, output)
                             else fold (\<lambda>col (input, output).
                                    (input[row * n + col := input ! (row * n + col) XOR gf_mul factor (input ! (pivot * n + col))],
                                     output[row * n + col := output ! (row * n + col) XOR gf_mul factor (output ! (pivot * n + col))]))
                                  [0..<n] (input, output))
                   [0..<n] (input, output)))"

fun invert_pivots :: "nat \<Rightarrow> nat list \<Rightarrow> bytes \<times> bytes \<Rightarrow> (bytes \<times> bytes) option" where
  "invert_pivots n [] st = Some st"
| "invert_pivots n (pivot # pivots) st =
     (case invert_pivot n pivot st of None \<Rightarrow> None | Some st' \<Rightarrow> invert_pivots n pivots st')"

definition invert_matrix :: "bytes \<Rightarrow> bytes \<Rightarrow> nat \<Rightarrow> (bytes \<times> bytes) option" where
  "invert_matrix input output n =
     invert_pivots n [0..<n]
       (input, fold (\<lambda>i output. output[i * n + i := 1]) [0..<n] (replicate (length output) 0))"

section \<open>What the slice kernels compute\<close>

lemma tail_loop_fold: "tail_loop body i len dest = fold body [i..<len] dest"
proof (induction body i len dest rule: tail_loop.induct)
  case (1 body i len dest)
  then show ?case
    by (subst tail_loop.simps) (auto simp: upt_conv_Cons)
qed

lemma unrolled_loop_fold: "unrolled_loop body i len dest = fold body [i..<len] dest"
proof (induction body i len dest rule: unrolled_loop.induct)
  case (1 body i len dest)
  show ?case
  proof (cases "i + 8 \<le> len")
    case True
    then have "[i..<len] = [i, i + 1, i + 2, i + 3, i + 4, i + 5, i + 6, i + 7] @ [i + 8..<len]"
      by (simp add: upt_conv_Cons eval_nat_numeral)
    with True 1 show ?thesis by (subst unrolled_loop.simps) simp
  next
    case False
    then show ?thesis by (subst unrolled_loop.simps) (simp add: tail_loop_fold)
  qed
qed

lemma unrolled_loop_cells:
  "unrolled_loop (\<lambda>i dest. dest[i := h i (dest ! i)]) 0 (length dest) dest
     = map (\<lambda>i. h i (dest ! i)) [0..<length dest]"
proof (rule nth_equalityI)
  let ?loop = "cell_loop (\<lambda>i. i) (\<lambda>i. i) (\<lambda>i x _. h i x) [0..<length dest] dest"
  have eq: "unrolled_loop (\<lambda>i dest. dest[i := h i (dest ! i)]) 0 (length dest) dest = ?loop"
    by (simp add: unrolled_loop_fold cell_loop_def)
  then show "length (unrolled_loop (\<lambda>i dest. dest[i := h i (dest ! i)]) 0 (length dest) dest)
      = length (map (\<lambda>i. h i (dest ! i)) [0..<length dest])" by simp
  fix i assume "i < length (unrolled_loop (\<lambda>i dest. dest[i := h i (dest ! i)]) 0 (length dest) dest)"
  with eq have i: "i < length dest" by simp
  then have "?loop ! i = h i (dest ! i)" by (subst cell_loop_at) auto
  with eq i show "unrolled_loop (\<lambda>i dest. dest[i := h i (dest ! i)]) 0 (length dest) dest ! i
      = map (\<lambda>i. h i (dest ! i)) [0..<length dest] ! i" by simp
qed

lemma length_xor_with_slice [simp]: "length (xor_with_slice dest src) = length dest"
  and nth_xor_with_slice: "i < length dest \<Longrightarrow> xor_with_slice dest src ! i = dest ! i XOR src ! i"
  using unrolled_loop_cells [of "\<lambda>i x. x XOR src ! i" dest] by (simp_all add: xor_with_slice_def)

lemma length_xor_with_table [simp]: "length (xor_with_table dest src t) = length dest"
  and nth_xor_with_table:
    "i < length dest \<Longrightarrow> xor_with_table dest src t ! i = dest ! i XOR t ! unat (src ! i)"
  using unrolled_loop_cells [of "\<lambda>i x. x XOR t ! unat (src ! i)" dest] by (simp_all add: xor_with_table_def)

lemma length_write_with_table [simp]: "length (write_with_table dest src t) = length dest"
  and nth_write_with_table:
    "i < length dest \<Longrightarrow> write_with_table dest src t ! i = t ! unat (src ! i)"
  using unrolled_loop_cells [of "\<lambda>i x. t ! unat (src ! i)" dest] by (simp_all add: write_with_table_def)

lemma gf_mul_table_unat: "gf_mul_table c ! unat b = gf_mul c b"
  by (simp add: nth_gf_mul_table byte_less)

lemma nth_xor_with_coeff:
  assumes "i < length dest"
  shows "xor_with_coeff dest src c ! i = dest ! i XOR gf_mul c (src ! i)"
  using assms by (auto simp: xor_with_coeff_def nth_xor_with_slice nth_xor_with_table gf_mul_table_unat)

lemma length_xor_with_coeff [simp]: "length (xor_with_coeff dest src c) = length dest"
  by (simp add: xor_with_coeff_def)

lemma length_write_with_coeff [simp]:
  "length src = length dest \<Longrightarrow> length (write_with_coeff dest src c) = length dest"
  by (simp add: write_with_coeff_def)

lemma nth_write_with_coeff:
  assumes "i < length dest"
  shows "write_with_coeff dest src c ! i = gf_mul c (src ! i)"
  using assms by (auto simp: write_with_coeff_def nth_write_with_table gf_mul_table_unat)


section \<open>Row products are matrix products\<close>

text \<open>
  Both row routines write the first non-zero term and then add the later ones; the terms before the
  first non-zero coefficient vanish.
\<close>

lemma row_product_loop:
  fixes T :: "nat \<Rightarrow> nat \<Rightarrow> gf256"
  assumes f: "f < k" and zero: "\<And>c p. c < f \<Longrightarrow> T c p = 0"
    and base: "length out0 = n" "\<And>p. p < n \<Longrightarrow> gf_of (out0 ! p) = T f p"
    and step: "\<And>c out. f < c \<Longrightarrow> c < k \<Longrightarrow> length out = n \<Longrightarrow>
        length (g c out) = n \<and> (\<forall>p < n. gf_of (g c out ! p) = gf_of (out ! p) + T c p)"
  shows "length (fold g [f + 1..<k] out0) = n \<and>
         (\<forall>p < n. gf_of (fold g [f + 1..<k] out0 ! p) = (\<Sum>c < k. T c p))"
proof -
  have "f + 1 \<le> m \<Longrightarrow> m \<le> k \<Longrightarrow> length (fold g [f + 1..<m] out0) = n \<and>
      (\<forall>p < n. gf_of (fold g [f + 1..<m] out0 ! p) = (\<Sum>c < m. T c p))" for m
  proof (induction m rule: nat_induct_at_least)
    case base
    have "(\<Sum>c < f. T c p) = 0" for p using zero by simp
    then show ?case using assms by (simp add: add.commute)
  next
    case (Suc m)
    then have "length (fold g [f + 1..<m] out0) = n"
      and "\<forall>p < n. gf_of (fold g [f + 1..<m] out0 ! p) = (\<Sum>c < m. T c p)" by auto
    with step [of m "fold g [f + 1..<m] out0"] Suc.hyps Suc.prems show ?case by simp
  qed
  from this [of k] f show ?thesis by simp
qed

text \<open>Row \<open>row\<close> of a matrix with \<open>k\<close> columns, times the column of bytes at position \<open>p\<close>.\<close>

definition row_dot :: "nat \<Rightarrow> bytes \<Rightarrow> nat \<Rightarrow> bytes list \<Rightarrow> nat \<Rightarrow> gf256" where
  "row_dot k coeffs row data p = (\<Sum>c < k. gf_of (coeffs ! (row * k + c)) * gf_of (data ! c ! p))"

definition equal_lengths :: "nat \<Rightarrow> bytes list \<Rightarrow> bool" where
  "equal_lengths n shards \<longleftrightarrow> (\<forall>s \<in> set shards. length s = n)"

lemma equal_lengths_nth: "equal_lengths n shards \<Longrightarrow> i < length shards \<Longrightarrow> length (shards ! i) = n"
  by (simp add: equal_lengths_def)

text \<open>Rows copied one after the other end up concatenated.\<close>

lemma copy_rows_fill:
  assumes "\<And>x. x \<in> set xs \<Longrightarrow> length (f x) = k" and "(i + length xs) * k \<le> length dst"
  shows "fold (\<lambda>(index, x) dst. copy_into dst (index * k) (f x)) (List.enumerate i xs) dst
      = take (i * k) dst @ concat (map f xs) @ drop ((i + length xs) * k) dst"
  using assms
proof (induction xs arbitrary: i dst)
  case Nil
  then show ?case by simp
next
  case (Cons x xs)
  let ?dst = "copy_into dst (i * k) (f x)"
  have le: "i * k + k \<le> length dst" using Cons.prems(2) by (simp add: add_mult_distrib)
  then have len: "length ?dst = length dst" using Cons.prems(1) by (simp add: copy_into_def)
  from le have "take (Suc i * k) ?dst = take (i * k) dst @ f x"
    using Cons.prems(1) by (simp add: copy_into_def)
  moreover from le have "drop ((Suc i + length xs) * k) ?dst = drop ((i + length (x # xs)) * k) dst"
    using Cons.prems(1) by (simp add: copy_into_def add_mult_distrib) (simp add: ac_simps)
  ultimately show ?case using Cons.IH [of "Suc i" ?dst] Cons.prems len by simp
qed

lemma build_mul_tables_concat: "build_mul_tables cs = concat (map gf_mul_table cs)"
  using copy_rows_fill [of cs gf_mul_table 256 0 "replicate (length cs * 256) 0"]
  by (simp add: build_mul_tables_def)

lemma slice_concat_uniform:
  "(\<And>x. length (f x) = w) \<Longrightarrow> i < length xs \<Longrightarrow> slice (concat (map f xs)) (i * w) (i * w + w) = f (xs ! i)"
proof (induction xs arbitrary: i)
  case Nil
  then show ?case by simp
next
  case (Cons x xs)
  then show ?case by (cases i) (simp_all add: slice_def add.commute [of w])
qed

lemma length_build_mul_tables [simp]: "length (build_mul_tables cs) = length cs * 256"
  by (simp add: build_mul_tables_concat length_concat comp_def sum_list_triv)

lemma slice_mul_tables:
  "i < length cs \<Longrightarrow> slice (build_mul_tables cs) (i * 256) (i * 256 + 256) = gf_mul_table (cs ! i)"
  by (simp add: build_mul_tables_concat slice_concat_uniform)

lemma nth_mul_tables:
  assumes "i < length cs" and "j < 256"
  shows "build_mul_tables cs ! (i * 256 + j) = gf_mul (cs ! i) (word_of_nat j)"
proof -
  from assms have "i * 256 + 256 \<le> length cs * 256" by simp
  with assms have "slice (build_mul_tables cs) (i * 256) (i * 256 + 256) ! j = build_mul_tables cs ! (i * 256 + j)"
    by (simp add: slice_def)
  with assms show ?thesis by (simp add: slice_mul_tables nth_gf_mul_table)
qed

lemma nth_mul_tables_1: "i < length cs \<Longrightarrow> build_mul_tables cs ! (i * 256 + 1) = cs ! i"
  using nth_mul_tables [of i cs 1] by simp

lemma drop_take_enumerate:
  "length data = k \<Longrightarrow> drop m (take k (List.enumerate 0 data)) = map (\<lambda>c. (c, data ! c)) [m..<k]"
  by (rule nth_equalityI) (auto simp: nth_enumerate_eq)

lemma encode_row_product:
  assumes len: "length data = k" and eq: "equal_lengths n data" and out: "length output = n"
    and rows: "(row + 1) * k \<le> length coeffs"
  shows "length (encode_row k (build_mul_tables coeffs) data row output) = n \<and>
         (\<forall>p < n. gf_of (encode_row k (build_mul_tables coeffs) data row output ! p) = row_dot k coeffs row data p)"
proof -
  let ?T = "\<lambda>c p. gf_of (coeffs ! (row * k + c)) * gf_of (data ! c ! p)"
  let ?tables = "build_mul_tables coeffs"
  from rows have idx: "row * k + c < length coeffs" if "c < k" for c using that by simp
  have probe: "?tables ! ((row * k + c) * 256 + 1) = coeffs ! (row * k + c)" if "c < k" for c
    by (rule nth_mul_tables_1) (rule idx [OF that])
  have tbl: "slice ?tables ((row * k + c) * 256) ((row * k + c) * 256 + 256) = gf_mul_table (coeffs ! (row * k + c))"
    if "c < k" for c
    by (rule slice_mul_tables) (rule idx [OF that])
  show ?thesis
  proof (cases "find (\<lambda>col. ?tables ! ((row * k + col) * 256 + 1) \<noteq> 0) [0..<k]")
    case None
    then have "\<forall>c < k. ?tables ! ((row * k + c) * 256 + 1) = 0" by (auto simp: find_None_iff)
    then have "\<forall>c < k. coeffs ! (row * k + c) = 0" by (metis probe)
    then show ?thesis using None out
      by (simp add: encode_row_def row_dot_def gf_of_simps)
  next
    case (Some f)
    then have f: "f < k" and "\<forall>c < f. ?tables ! ((row * k + c) * 256 + 1) = 0"
      by (auto simp: find_Some_iff)
    then have zero: "\<forall>c < f. coeffs ! (row * k + c) = 0" by (metis probe less_trans)
    let ?g = "\<lambda>c output. if ?tables ! ((row * k + c) * 256 + 1) = 0 then output
        else xor_with_table output (data ! c) (slice ?tables ((row * k + c) * 256) ((row * k + c) * 256 + 256))"
    have unfold: "encode_row k ?tables data row output =
        fold ?g [f + 1..<k] (write_with_table output (data ! f) (gf_mul_table (coeffs ! (row * k + f))))"
      using Some f tbl [of f]
      by (simp add: encode_row_def drop_take_enumerate [OF len] fold_map comp_def Let_def
          del: distrib_right_numeral)
    show ?thesis unfolding unfold row_dot_def
    proof (rule row_product_loop [where T = ?T])
      fix c p assume "c < f"
      with zero show "?T c p = 0" by (simp add: gf_of_simps)
    next
      fix p assume "p < n"
      with out show "gf_of (write_with_table output (data ! f) (gf_mul_table (coeffs ! (row * k + f))) ! p) = ?T f p"
        by (simp add: nth_write_with_table gf_mul_table_unat gf_of_simps)
    next
      fix c and out :: bytes assume "f < c" "c < k" "length out = n"
      then show "length (?g c out) = n \<and> (\<forall>p < n. gf_of (?g c out ! p) = gf_of (out ! p) + ?T c p)"
        by (simp add: probe tbl nth_xor_with_table gf_mul_table_unat gf_of_simps
            del: distrib_right_numeral One_nat_def)
    qed (use f out in auto)
  qed
qed


lemma encode_rows_scalar_product:
  assumes "length data = k" and "equal_lengths n data" and "equal_lengths n outputs"
    and "length outputs * k \<le> length coeffs"
  shows "length (encode_rows_scalar k (build_mul_tables coeffs) data outputs) = length outputs \<and>
         (\<forall>row < length outputs.
            length (encode_rows_scalar k (build_mul_tables coeffs) data outputs ! row) = n \<and>
            (\<forall>p < n. gf_of (encode_rows_scalar k (build_mul_tables coeffs) data outputs ! row ! p)
                       = row_dot k coeffs row data p))"
proof (intro conjI allI impI)
  fix row assume row: "row < length outputs"
  then have "(row + 1) * k \<le> length outputs * k" by (intro mult_le_mono1) simp
  with assms(4) have "(row + 1) * k \<le> length coeffs" by linarith
  note product = encode_row_product [OF assms(1,2) _ this, of "outputs ! row"]
  have nth: "encode_rows_scalar k (build_mul_tables coeffs) data outputs ! row
      = encode_row k (build_mul_tables coeffs) data row (outputs ! row)"
    using row by (simp add: encode_rows_scalar_def nth_enumerate_eq)
  from product row assms(3)
  show "length (encode_rows_scalar k (build_mul_tables coeffs) data outputs ! row) = n"
    by (simp add: nth equal_lengths_nth)
  fix p assume "p < n"
  with product row assms(3)
  show "gf_of (encode_rows_scalar k (build_mul_tables coeffs) data outputs ! row ! p) = row_dot k coeffs row data p"
    by (simp add: nth equal_lengths_nth)
qed (simp add: encode_rows_scalar_def)

lemma apply_matrix_row_product:
  assumes len: "length inputs = k" "length row = k" and eq: "equal_lengths n inputs" and out: "length output = n"
  shows "length (apply_matrix_row row inputs output) = n \<and>
         (\<forall>p < n. gf_of (apply_matrix_row row inputs output ! p) = (\<Sum>c < k. gf_of (row ! c) * gf_of (inputs ! c ! p)))"
proof (cases "find (\<lambda>(index, coeff). coeff \<noteq> 0) (List.enumerate 0 row)")
  case None
  then have "\<forall>c < k. row ! c = 0"
    using len by (auto simp: find_None_iff in_set_enumerate_eq)
  then show ?thesis using None out by (simp add: apply_matrix_row_def gf_of_simps)
next
  case (Some fc)
  obtain f coeff where fc: "fc = (f, coeff)" by (cases fc)
  from Some len have f: "f < k" and coeff: "coeff = row ! f" and zero: "\<forall>c < f. row ! c = 0"
    by (auto simp: find_Some_iff fc nth_enumerate_eq)
  let ?T = "\<lambda>c p. gf_of (row ! c) * gf_of (inputs ! c ! p)"
  have "drop (f + 1) (zip row inputs) = map (\<lambda>c. (row ! c, inputs ! c)) [f + 1..<k]"
    using len by (intro nth_equalityI) auto
  then have unfold: "apply_matrix_row row inputs output =
      fold (\<lambda>c output. xor_with_coeff output (inputs ! c) (row ! c)) [f + 1..<k]
        (write_with_coeff output (inputs ! f) (row ! f))"
    using Some by (simp add: apply_matrix_row_def fc coeff fold_map comp_def)
  show ?thesis unfolding unfold
  proof (rule row_product_loop [where T = ?T])
    fix c p assume "c < f"
    with zero show "?T c p = 0" by (simp add: gf_of_simps)
  next
    show "length (write_with_coeff output (inputs ! f) (row ! f)) = n"
      using eq f len out by (simp add: equal_lengths_nth)
  next
    fix p assume "p < n"
    with out show "gf_of (write_with_coeff output (inputs ! f) (row ! f) ! p) = ?T f p"
      by (simp add: nth_write_with_coeff gf_of_simps)
  next
    fix c and out :: bytes assume "f < c" "c < k" "length out = n"
    then show "length (xor_with_coeff out (inputs ! c) (row ! c)) = n \<and>
        (\<forall>p < n. gf_of (xor_with_coeff out (inputs ! c) (row ! c) ! p) = gf_of (out ! p) + ?T c p)"
      by (simp add: nth_xor_with_coeff gf_of_simps)
  qed (use f in auto)
qed

lemma apply_matrix_rows_scalar_product:
  assumes "length inputs = k" and "equal_lengths n inputs" and "equal_lengths n outputs"
    and "length outputs * k \<le> length rows"
  shows "length (apply_matrix_rows_scalar k rows inputs outputs) = length outputs \<and>
         (\<forall>r < length outputs.
            length (apply_matrix_rows_scalar k rows inputs outputs ! r) = n \<and>
            (\<forall>p < n. gf_of (apply_matrix_rows_scalar k rows inputs outputs ! r ! p) = row_dot k rows r inputs p))"
proof (intro conjI allI impI)
  fix r assume r: "r < length outputs"
  then have "(r + 1) * k \<le> length outputs * k" by (intro mult_le_mono1) simp
  with assms(4) have le: "(r + 1) * k \<le> length rows" by linarith
  let ?row = "slice rows (r * k) ((r + 1) * k)"
  from le have len: "length ?row = k" by (simp add: slice_def)
  from le have row_nth: "?row ! c = rows ! (r * k + c)" if "c < k" for c
    using that by (simp add: slice_def)
  have nth: "apply_matrix_rows_scalar k rows inputs outputs ! r = apply_matrix_row ?row inputs (outputs ! r)"
    using r by (simp add: apply_matrix_rows_scalar_def nth_enumerate_eq)
  note product = apply_matrix_row_product [OF assms(1) len assms(2), of "outputs ! r"]
  from product r assms(3) show "length (apply_matrix_rows_scalar k rows inputs outputs ! r) = n"
    by (simp add: nth equal_lengths_nth)
  fix p assume "p < n"
  with product r assms(3)
  show "gf_of (apply_matrix_rows_scalar k rows inputs outputs ! r ! p) = row_dot k rows r inputs p"
    by (simp add: nth equal_lengths_nth row_dot_def row_nth [simplified])
qed (simp add: apply_matrix_rows_scalar_def)

end
