(* ===== verification/EC_Inversion.thy ===== *)
theory EC_Inversion
  imports EC_Matrix
begin

text \<open>
  Correctness of the Gauss-Jordan inversion \<open>invert_matrix\<close>. A round of the pivot loop multiplies both
  buffers by the same regular matrix, so the product of the output with the original matrix always is
  the input buffer, and the kernel of the input buffer never changes.
\<close>

section \<open>Matrices in row-major buffers\<close>

definition ent :: "nat \<Rightarrow> bytes \<Rightarrow> nat \<Rightarrow> nat \<Rightarrow> gf256" where
  "ent n xs i j = gf_of (xs ! (i * n + j))"

definition mvec :: "nat \<Rightarrow> bytes \<Rightarrow> (nat \<Rightarrow> gf256) \<Rightarrow> nat \<Rightarrow> gf256" where
  "mvec n M x i = (\<Sum>j < n. ent n M i j * x j)"

definition in_kernel :: "nat \<Rightarrow> bytes \<Rightarrow> (nat \<Rightarrow> gf256) \<Rightarrow> bool" where
  "in_kernel n M x \<longleftrightarrow> (\<forall>i < n. mvec n M x i = 0)"

text \<open>A matrix is regular when only the zero vector is mapped to zero.\<close>

definition regular :: "nat \<Rightarrow> bytes \<Rightarrow> bool" where
  "regular n M \<longleftrightarrow> (\<forall>x. in_kernel n M x \<longrightarrow> (\<forall>j < n. x j = 0))"

definition left_inverse :: "nat \<Rightarrow> bytes \<Rightarrow> bytes \<Rightarrow> bool" where
  "left_inverse n B A \<longleftrightarrow>
     (\<forall>i < n. \<forall>j < n. (\<Sum>l < n. ent n B i l * ent n A l j) = (if i = j then 1 else 0))"

lemma ent_row_loop:
  assumes "length xs = n * n" and "r < n" and "i < n" and "j < n"
  shows "ent n (cell_loop (\<lambda>c. r * n + c) (\<lambda>c. p * n + c) (\<lambda>_. h) [0..<n] xs) i j =
         (if i = r then gf_of (h (xs ! (r * n + j)) (xs ! (p * n + j))) else ent n xs i j)"
proof (cases "i = r")
  case True
  have "cell_loop (\<lambda>c. r * n + c) (\<lambda>c. p * n + c) (\<lambda>_. h) [0..<n] xs ! (r * n + j)
      = h (xs ! (r * n + j)) (xs ! (p * n + j))"
    using assms row_major_less [of r n _ n]
    by (intro cell_loop_at)
      (auto simp: inj_on_def row_major_eq_iff simp del: image_add_atLeastLessThan)
  with True show ?thesis by (simp add: ent_def)
next
  case False
  with assms show ?thesis
    unfolding ent_def
    by (subst cell_loop_other) (auto simp: row_major_eq_iff simp del: image_add_atLeastLessThan)
qed

definition swap_index :: "nat \<Rightarrow> nat \<Rightarrow> nat \<Rightarrow> nat" where
  "swap_index p r i = (if i = p then r else if i = r then p else i)"

lemma swap_index_less: "p < n \<Longrightarrow> r < n \<Longrightarrow> i < n \<Longrightarrow> swap_index p r i < n"
  by (simp add: swap_index_def)

lemma swap_index_idem [simp]: "swap_index p r (swap_index p r i) = i"
  by (simp add: swap_index_def)

lemma length_swap_cells [simp]: "length (swap_cells xs i j) = length xs"
  by (simp add: swap_cells_def)

lemma nth_swap_cells:
  "i < length xs \<Longrightarrow> j < length xs \<Longrightarrow>
   swap_cells xs i j ! l = (if l = j then xs ! i else if l = i then xs ! j else xs ! l)"
  by (auto simp: swap_cells_def nth_list_update)

lemma swap_rows_prefix:
  assumes "length xs = n * n" and "p < n" and "r < n" and "p \<noteq> r" and "m \<le> n"
  shows "length (fold (\<lambda>c xs. swap_cells xs (p * n + c) (r * n + c)) [0..<m] xs) = n * n \<and>
         (\<forall>i < n. \<forall>j < n.
            fold (\<lambda>c xs. swap_cells xs (p * n + c) (r * n + c)) [0..<m] xs ! (i * n + j) =
            (if j < m then xs ! (swap_index p r i * n + j) else xs ! (i * n + j)))"
  using assms(5)
proof (induction m)
  case 0
  then show ?case using assms(1) by simp
next
  case (Suc m)
  define prev where "prev = fold (\<lambda>c xs. swap_cells xs (p * n + c) (r * n + c)) [0..<m] xs"
  have len: "length prev = n * n" using Suc by (simp add: prev_def)
  have IH: "prev ! (i * n + j) = (if j < m then xs ! (swap_index p r i * n + j) else xs ! (i * n + j))"
    if "i < n" "j < n" for i j using Suc that by (simp add: prev_def)
  have bounds: "p * n + m < length prev" "r * n + m < length prev"
    using Suc.prems assms by (simp_all add: row_major_less len)
  have next_eq: "fold (\<lambda>c xs. swap_cells xs (p * n + c) (r * n + c)) [0..<Suc m] xs
      = swap_cells prev (p * n + m) (r * n + m)" by (simp add: prev_def)
  show ?case unfolding next_eq using len Suc.prems assms
    by (auto simp: nth_swap_cells [OF bounds] IH row_major_eq_iff swap_index_def less_Suc_eq)
qed

lemma ent_swap_rows:
  assumes "length xs = n * n" and "p < n" and "r < n" and "p \<noteq> r" and "i < n" and "j < n"
  shows "ent n (fold (\<lambda>c xs. swap_cells xs (p * n + c) (r * n + c)) [0..<n] xs) i j
       = ent n xs (swap_index p r i) j"
  using swap_rows_prefix [OF assms(1-4), of n] assms(5,6) by (simp add: ent_def)

lemma length_swap_rows:
  "length (fold (\<lambda>c xs. swap_cells xs (p * n + c) (r * n + c)) cs xs) = length xs"
  by (induction cs arbitrary: xs) auto

section \<open>One pivot round\<close>

lemma find_swap_row_bounds: "s \<le> n \<Longrightarrow> s \<le> find_swap_row M n p s \<and> find_swap_row M n p s \<le> n"
proof (induction M n p s rule: find_swap_row.induct)
  case (1 M n p s)
  then show ?case
    by (subst find_swap_row.simps, subst find_swap_row.simps) (auto dest: Suc_leD)
qed

lemma find_swap_row_zero: "s \<le> r \<Longrightarrow> r < find_swap_row M n p s \<Longrightarrow> M ! (r * n + p) = 0"
proof (induction M n p s rule: find_swap_row.induct)
  case (1 M n p s)
  show ?case
  proof (cases "s < n \<and> M ! (s * n + p) = 0")
    case True
    with 1 show ?thesis
      by (cases "r = s") (auto simp: find_swap_row.simps [of M n p s])
  next
    case False
    with 1 show ?thesis by (auto simp: find_swap_row.simps [of M n p s])
  qed
qed

lemma find_swap_row_nonzero: "find_swap_row M n p s < n \<Longrightarrow> M ! (find_swap_row M n p s * n + p) \<noteq> 0"
proof (induction M n p s rule: find_swap_row.induct)
  case (1 M n p s)
  then show ?case
    by (cases "s < n \<and> M ! (s * n + p) = 0") (auto simp: find_swap_row.simps [of M n p s])
qed

text \<open>The elimination loop adds, to every other row, its entry in the pivot column times the pivot row.\<close>

definition eliminate_row :: "nat \<Rightarrow> nat \<Rightarrow> nat \<Rightarrow> bytes \<times> bytes \<Rightarrow> bytes \<times> bytes" where
  "eliminate_row n pivot row st =
     (let (input, output) = st in
      if row = pivot then (input, output)
      else let factor = input ! (row * n + pivot)
           in if factor = 0 then (input, output)
              else fold (\<lambda>col (input, output).
                     (input[row * n + col := input ! (row * n + col) XOR gf_mul factor (input ! (pivot * n + col))],
                      output[row * n + col := output ! (row * n + col) XOR gf_mul factor (output ! (pivot * n + col))]))
                   [0..<n] (input, output))"

lemma eliminate_row_ent:
  assumes len: "length I = n * n" "length Q = n * n" and "p < n" and r: "r < n"
    and res: "eliminate_row n p r (I, Q) = (I', Q')"
  shows "length I' = n * n \<and> length Q' = n * n \<and>
    (\<forall>i < n. \<forall>j < n.
       ent n I' i j = (if i = r \<and> r \<noteq> p then ent n I i j + ent n I r p * ent n I p j else ent n I i j) \<and>
       ent n Q' i j = (if i = r \<and> r \<noteq> p then ent n Q i j + ent n I r p * ent n Q p j else ent n Q i j))"
proof (cases "r = p \<or> I ! (r * n + p) = 0")
  case True
  with res have "I' = I \<and> Q' = Q" by (cases "r = p") (auto simp: eliminate_row_def Let_def)
  with True len show ?thesis by (auto simp: ent_def gf_of_simps)
next
  case False
  let ?f = "I ! (r * n + p)"
  let ?loop = "cell_loop (\<lambda>c. r * n + c) (\<lambda>c. p * n + c) (\<lambda>_ x y. x XOR gf_mul ?f y) [0..<n]"
  from False res have "I' = ?loop I" "Q' = ?loop Q"
    by (auto simp: eliminate_row_def Let_def fold_pair cell_loop_def)
  with len r False show ?thesis
    by (auto simp: ent_row_loop ent_def [of n _ r] ent_def [of n _ p] gf_of_simps)
qed

lemma eliminate_ent:
  assumes len: "length I = n * n" "length Q = n * n" and p: "p < n" and "m \<le> n"
    and "fold (eliminate_row n p) [0..<m] (I, Q) = (I', Q')"
  shows "length I' = n * n \<and> length Q' = n * n \<and>
    (\<forall>i < n. \<forall>j < n.
       ent n I' i j = (if i < m \<and> i \<noteq> p then ent n I i j + ent n I i p * ent n I p j else ent n I i j) \<and>
       ent n Q' i j = (if i < m \<and> i \<noteq> p then ent n Q i j + ent n I i p * ent n Q p j else ent n Q i j))"
  using assms(4,5)
proof (induction m arbitrary: I' Q')
  case 0
  then show ?case using len by simp
next
  case (Suc m)
  obtain I1 Q1 where st: "fold (eliminate_row n p) [0..<m] (I, Q) = (I1, Q1)" by fastforce
  with Suc.prems have res: "eliminate_row n p m (I1, Q1) = (I', Q')" by simp
  from Suc.IH [OF _ st] Suc.prems have len1: "length I1 = n * n" "length Q1 = n * n"
    and IH: "\<And>i j. i < n \<Longrightarrow> j < n \<Longrightarrow>
       ent n I1 i j = (if i < m \<and> i \<noteq> p then ent n I i j + ent n I i p * ent n I p j else ent n I i j)"
      "\<And>i j. i < n \<Longrightarrow> j < n \<Longrightarrow>
       ent n Q1 i j = (if i < m \<and> i \<noteq> p then ent n Q i j + ent n I i p * ent n Q p j else ent n Q i j)"
    by auto
  from eliminate_row_ent [OF len1 p _ res] Suc.prems p show ?case
    by (auto simp: IH less_Suc_eq)
qed


lemma invert_pivot_None_iff:
  assumes "p < n"
  shows "invert_pivot n p (I, Q) = None \<longleftrightarrow> (\<forall>r. p \<le> r \<and> r < n \<longrightarrow> ent n I r p = 0)"
proof (cases "I ! (p * n + p) = 0")
  case False
  then show ?thesis using assms
    by (auto simp: invert_pivot_def Let_def ent_def gf_of_simps split: prod.splits)
next
  case True
  let ?s = "find_swap_row I n p (p + 1)"
  have s: "p + 1 \<le> ?s" "?s \<le> n" using find_swap_row_bounds [of "p + 1" n I p] assms by auto
  have "invert_pivot n p (I, Q) = None \<longleftrightarrow> ?s = n"
    using True by (auto simp: invert_pivot_def Let_def split: prod.splits)
  also have "\<dots> \<longleftrightarrow> (\<forall>r. p \<le> r \<and> r < n \<longrightarrow> ent n I r p = 0)"
  proof
    assume n: "?s = n"
    have "I ! (r * n + p) = 0" if "p \<le> r" "r < n" for r
      using find_swap_row_zero [of "p + 1" r I n p] that True n by (cases "r = p") auto
    then show "\<forall>r. p \<le> r \<and> r < n \<longrightarrow> ent n I r p = 0" by (simp add: ent_def gf_of_simps)
  next
    assume zero: "\<forall>r. p \<le> r \<and> r < n \<longrightarrow> ent n I r p = 0"
    show "?s = n"
    proof (rule ccontr)
      assume "?s \<noteq> n"
      with s have "?s < n" by simp
      from find_swap_row_nonzero [OF this] zero s \<open>?s < n\<close> show False
        by (simp add: ent_def gf_of_simps)
    qed
  qed
  finally show ?thesis .
qed

text \<open>
  A round that succeeds exchanges the pivot row with some row \<open>r\<close> (itself when the diagonal entry is
  not zero), scales it to a unit pivot and clears the pivot column, on both buffers alike.
\<close>

lemma invert_pivot_Some:
  assumes len: "length I = n * n" "length Q = n * n" and p: "p < n"
    and res: "invert_pivot n p (I, Q) = Some (I', Q')"
  shows "\<exists>r. p \<le> r \<and> r < n \<and> ent n I r p \<noteq> 0 \<and> length I' = n * n \<and> length Q' = n * n \<and>
    (\<forall>i < n. \<forall>j < n.
       ent n I' i j =
         (if i = p then ent n I r j / ent n I r p
          else ent n I (swap_index p r i) j + ent n I (swap_index p r i) p * (ent n I r j / ent n I r p)) \<and>
       ent n Q' i j =
         (if i = p then ent n Q r j / ent n I r p
          else ent n Q (swap_index p r i) j + ent n I (swap_index p r i) p * (ent n Q r j / ent n I r p)))"
proof -
  define r where "r = (if I ! (p * n + p) = 0 then find_swap_row I n p (p + 1) else p)"
  define sw where "sw xs = (if r = p then xs else fold (\<lambda>c xs. swap_cells xs (p * n + c) (r * n + c)) [0..<n] xs)"
    for xs :: bytes
  have bounds: "p + 1 \<le> find_swap_row I n p (p + 1)" "find_swap_row I n p (p + 1) \<le> n"
    using find_swap_row_bounds [of "p + 1" n I p] p by auto
  have rn: "r < n"
    using res bounds p by (auto simp: r_def invert_pivot_def Let_def le_less split: if_splits)
  have rp: "p \<le> r" using bounds by (auto simp: r_def)
  have nz: "ent n I r p \<noteq> 0"
    using rn find_swap_row_nonzero [of I n p "p + 1"] by (auto simp: r_def ent_def gf_of_simps split: if_splits)
  have sw_len: "length (sw xs) = length xs" for xs by (simp add: sw_def length_swap_rows)
  have sw_ent: "ent n (sw xs) i j = ent n xs (swap_index p r i) j"
    if "length xs = n * n" "i < n" "j < n" for xs i j
    using that p rn ent_swap_rows [of xs n p r i j] by (auto simp: sw_def swap_index_def)
  define scale where "scale = gf_inv (sw I ! (p * n + p))"
  let ?sc = "cell_loop (\<lambda>c. p * n + c) (\<lambda>c. p * n + c) (\<lambda>_ x _. gf_mul x scale) [0..<n]"
  have state: "fold (eliminate_row n p) [0..<n] (?sc (sw I), ?sc (sw Q)) = (I', Q')"
  proof -
    have swap: "(if I ! (p * n + p) = 0
        then let swap_row = find_swap_row I n p (p + 1)
             in if swap_row = n then None
                else Some (fold (\<lambda>col (input, output).
                             (swap_cells input (p * n + col) (swap_row * n + col),
                              swap_cells output (p * n + col) (swap_row * n + col)))
                           [0..<n] (I, Q))
        else Some (I, Q)) = Some (sw I, sw Q)"
      using rn bounds by (auto simp: r_def sw_def fold_pair Let_def)
    show ?thesis using res
      unfolding invert_pivot_def
      by (simp add: swap Let_def [of "(I, Q)"] scale_def [symmetric] fold_pair cell_loop_def eliminate_row_def [abs_def])
  qed
  have sc_ent: "ent n (?sc xs) i j = (if i = p then ent n xs p j * gf_of scale else ent n xs i j)"
    if "length xs = n * n" "i < n" "j < n" for xs i j
    using that p by (simp add: ent_row_loop) (simp add: ent_def gf_of_simps)
  have scale: "gf_of scale = inverse (ent n I r p)"
    using sw_ent [OF len(1) p p] by (simp add: scale_def gf_of_inv ent_def swap_index_def)
  show ?thesis
    using eliminate_ent [OF _ _ p order_refl state] len rp rn nz p
    by (intro exI [of _ r])
      (auto simp: sw_len sc_ent sw_ent scale swap_index_def divide_inverse)
qed


section \<open>The pivot loop\<close>

text \<open>
  After the rounds for the columns below \<open>p\<close>: the input buffer is the output buffer times the
  original matrix, it has the original kernel, and its first \<open>p\<close> columns are those of the identity.
\<close>

definition pivot_inv :: "nat \<Rightarrow> bytes \<Rightarrow> nat \<Rightarrow> bytes \<times> bytes \<Rightarrow> bool" where
  "pivot_inv n A p st \<longleftrightarrow>
     (case st of (I, Q) \<Rightarrow>
        length I = n * n \<and> length Q = n * n \<and>
        (\<forall>i < n. \<forall>j < n. ent n I i j = (\<Sum>l < n. ent n Q i l * ent n A l j)) \<and>
        (\<forall>x. in_kernel n I x \<longleftrightarrow> in_kernel n A x) \<and>
        (\<forall>i < n. \<forall>j < p. ent n I i j = (if i = j then 1 else 0)))"

lemma invert_pivot_kernel:
  assumes len: "length I = n * n" "length Q = n * n" and p: "p < n"
    and res: "invert_pivot n p (I, Q) = Some (I', Q')"
  shows "in_kernel n I' x \<longleftrightarrow> in_kernel n I x"
proof -
  obtain r where r: "p \<le> r" "r < n" "ent n I r p \<noteq> 0"
    and I': "\<And>i j. i < n \<Longrightarrow> j < n \<Longrightarrow> ent n I' i j =
         (if i = p then ent n I r j / ent n I r p
          else ent n I (swap_index p r i) j + ent n I (swap_index p r i) p * (ent n I r j / ent n I r p))"
    using invert_pivot_Some [OF len p res] by auto
  have vec_p: "mvec n I' x p = mvec n I x r / ent n I r p"
    using p by (simp add: mvec_def I' sum_divide_distrib)
  have vec: "mvec n I' x i = mvec n I x (swap_index p r i) + ent n I (swap_index p r i) p * mvec n I' x p"
    if "i < n" "i \<noteq> p" for i
    using that p by (simp add: mvec_def I' distrib_right sum.distrib sum_distrib_left mult.assoc)
  show ?thesis
  proof
    assume k: "in_kernel n I' x"
    with p vec_p r(3) have row_r: "mvec n I x r = 0" by (auto simp: in_kernel_def)
    have "mvec n I x i = 0" if "i < n" for i
    proof (cases "i = r")
      case False
      then have "swap_index p r i < n" "swap_index p r i \<noteq> p"
        using that p r by (auto simp: swap_index_def)
      with vec [of "swap_index p r i"] k p show ?thesis by (auto simp: in_kernel_def)
    qed (simp add: row_r)
    then show "in_kernel n I x" by (simp add: in_kernel_def)
  next
    assume k: "in_kernel n I x"
    with r vec_p have "mvec n I' x p = 0" by (simp add: in_kernel_def)
    with vec k p r show "in_kernel n I' x"
      by (metis add_0 in_kernel_def mult_zero_right swap_index_less)
  qed
qed

lemma invert_pivot_inv:
  assumes inv: "pivot_inv n A p (I, Q)" and p: "p < n"
    and res: "invert_pivot n p (I, Q) = Some st'"
  shows "pivot_inv n A (Suc p) st'"
proof -
  obtain I' Q' where st': "st' = (I', Q')" by (cases st')
  from inv have len: "length I = n * n" "length Q = n * n"
    and prod: "\<And>i j. i < n \<Longrightarrow> j < n \<Longrightarrow> ent n I i j = (\<Sum>l < n. ent n Q i l * ent n A l j)"
    and ker: "\<And>x. in_kernel n I x \<longleftrightarrow> in_kernel n A x"
    and cols: "\<And>i j. i < n \<Longrightarrow> j < p \<Longrightarrow> ent n I i j = (if i = j then 1 else 0)"
    by (auto simp: pivot_inv_def)
  obtain r where r: "p \<le> r" "r < n" "ent n I r p \<noteq> 0" and len': "length I' = n * n" "length Q' = n * n"
    and I': "\<And>i j. i < n \<Longrightarrow> j < n \<Longrightarrow> ent n I' i j =
         (if i = p then ent n I r j / ent n I r p
          else ent n I (swap_index p r i) j + ent n I (swap_index p r i) p * (ent n I r j / ent n I r p))"
    and Q': "\<And>i j. i < n \<Longrightarrow> j < n \<Longrightarrow> ent n Q' i j =
         (if i = p then ent n Q r j / ent n I r p
          else ent n Q (swap_index p r i) j + ent n I (swap_index p r i) p * (ent n Q r j / ent n I r p))"
    using invert_pivot_Some [OF len p res [unfolded st']] by auto
  have prod': "ent n I' i j = (\<Sum>l < n. ent n Q' i l * ent n A l j)" if "i < n" "j < n" for i j
  proof -
    have sw: "swap_index p r i < n" using p r that by (simp add: swap_index_less)
    have pivot_row: "(\<Sum>l < n. ent n Q r l / ent n I r p * ent n A l j) = ent n I r j / ent n I r p"
      using r that by (simp add: prod sum_divide_distrib)
    show ?thesis
    proof (cases "i = p")
      case True
      with that pivot_row show ?thesis by (simp add: I' Q')
    next
      case False
      have "(\<Sum>l < n. ent n Q' i l * ent n A l j) =
          (\<Sum>l < n. ent n Q (swap_index p r i) l * ent n A l j) +
          ent n I (swap_index p r i) p * (\<Sum>l < n. ent n Q r l / ent n I r p * ent n A l j)"
        using that False by (simp add: Q' distrib_right sum.distrib sum_distrib_left mult.assoc)
      also have "\<dots> = ent n I (swap_index p r i) j + ent n I (swap_index p r i) p * (ent n I r j / ent n I r p)"
        by (simp only: pivot_row prod [OF sw that(2), symmetric])
      also have "\<dots> = ent n I' i j" using that False by (simp add: I')
      finally show ?thesis by simp
    qed
  qed
  have cols': "ent n I' i j = (if i = j then 1 else 0)" if "i < n" "j < Suc p" for i j
  proof (cases "j = p")
    case True
    with that p r show ?thesis by (simp add: I' gf_plus_self)
  next
    case False
    with that have j: "j < p" by simp
    with r cols have "ent n I r j = 0" by simp
    moreover from j p r that have "ent n I (swap_index p r i) j = (if i = j then 1 else 0)" if "i \<noteq> p"
      using cols [of "swap_index p r i" j] by (auto simp: swap_index_def)
    ultimately show ?thesis using that j p by (auto simp: I')
  qed
  show ?thesis
    using len' prod' cols' ker invert_pivot_kernel [OF len p res [unfolded st']]
    by (simp add: pivot_inv_def st')
qed

text \<open>When no row below the pivot has a non-zero entry, the kernel contains a non-zero vector.\<close>

lemma stuck_pivot_kernel:
  assumes cols: "\<And>i j. i < n \<Longrightarrow> j < p \<Longrightarrow> ent n I i j = (if i = j then 1 else 0)"
    and p: "p < n" and zero: "\<And>r. p \<le> r \<Longrightarrow> r < n \<Longrightarrow> ent n I r p = 0"
  shows "\<not> regular n I"
proof -
  define x where "x j = (if j = p then 1 else if j < p then - ent n I j p else 0)" for j
  have "mvec n I x i = 0" if i: "i < n" for i
  proof -
    have "mvec n I x i = (\<Sum>j < Suc p. ent n I i j * x j)"
      unfolding mvec_def using p by (intro sum.mono_neutral_right) (auto simp: x_def)
    also have "\<dots> = (\<Sum>j < p. ent n I i j * x j) + ent n I i p" by (simp add: x_def)
    also have "(\<Sum>j < p. ent n I i j * x j) = (\<Sum>j < p. if j = i then - ent n I i p else 0)"
      using i by (intro sum.cong) (auto simp: cols x_def)
    also have "\<dots> = (if i < p then - ent n I i p else 0)" by (simp add: sum.delta)
    finally show ?thesis using zero [of i] i by auto
  qed
  then have "in_kernel n I x" by (simp add: in_kernel_def)
  moreover have "x p \<noteq> 0" by (simp add: x_def)
  ultimately show ?thesis using p by (auto simp: regular_def)
qed

lemma pivot_inv_regular: "pivot_inv n A p (I, Q) \<Longrightarrow> regular n I \<longleftrightarrow> regular n A"
  by (simp add: pivot_inv_def regular_def)

lemma invert_pivots_correct:
  assumes "pivot_inv n A p st" and "p \<le> n"
  shows "case invert_pivots n [p..<n] st of
      None \<Rightarrow> \<not> regular n A
    | Some (I, Q) \<Rightarrow> length Q = n * n \<and> left_inverse n Q A \<and> regular n A"
  using assms
proof (induction "n - p" arbitrary: p st)
  case 0
  then have p: "p = n" by simp
  obtain I Q where st: "st = (I, Q)" by (cases st)
  from 0 p st have inv: "pivot_inv n A n (I, Q)" by simp
  then have id: "\<And>i j. i < n \<Longrightarrow> j < n \<Longrightarrow> ent n I i j = (if i = j then 1 else 0)"
    and prod: "\<And>i j. i < n \<Longrightarrow> j < n \<Longrightarrow> ent n I i j = (\<Sum>l < n. ent n Q i l * ent n A l j)"
    by (auto simp: pivot_inv_def)
  have "mvec n I x i = x i" if "i < n" for x i
    using that by (simp add: mvec_def id if_distrib [of "\<lambda>c. c * _"] sum.delta cong: if_cong)
  then have "regular n I" by (simp add: regular_def in_kernel_def)
  with pivot_inv_regular [OF inv] have "regular n A" by simp
  moreover from id prod have "left_inverse n Q A" by (simp add: left_inverse_def)
  moreover from inv have "length Q = n * n" by (simp add: pivot_inv_def)
  ultimately show ?case by (simp add: p st)
next
  case (Suc d)
  then have p: "p < n" by simp
  obtain I Q where st: "st = (I, Q)" by (cases st)
  from Suc.prems st have inv: "pivot_inv n A p (I, Q)" by simp
  show ?case
  proof (cases "invert_pivot n p (I, Q)")
    case None
    with invert_pivot_None_iff [OF p] have "\<not> regular n I"
      using inv p by (intro stuck_pivot_kernel [of n p]) (auto simp: pivot_inv_def)
    with pivot_inv_regular [OF inv] None p st show ?thesis by (simp add: upt_conv_Cons)
  next
    case (Some st')
    from invert_pivot_inv [OF inv p Some] Suc have
      "case invert_pivots n [Suc p..<n] st' of
        None \<Rightarrow> \<not> regular n A
      | Some (I, Q) \<Rightarrow> length Q = n * n \<and> left_inverse n Q A \<and> regular n A"
      by (intro Suc.hyps(1)) auto
    with Some p st show ?thesis by (simp add: upt_conv_Cons)
  qed
qed


lemma identity_fill:
  "m \<le> n \<Longrightarrow> length xs = n * n \<Longrightarrow> (\<forall>c < n * n. xs ! c = 0) \<Longrightarrow>
   length (fold (\<lambda>i xs. xs[i * n + i := 1]) [0..<m] xs) = n * n \<and>
   (\<forall>i < n. \<forall>j < n. fold (\<lambda>i xs. xs[i * n + i := 1]) [0..<m] xs ! (i * n + j)
      = (if i = j \<and> i < m then 1 else (0::u8)))"
proof (induction m)
  case 0
  then show ?case by (simp add: row_major_less)
next
  case (Suc m)
  then show ?case
    by (auto simp: nth_list_update row_major_eq_iff row_major_less less_Suc_eq)
qed

lemma invert_matrix_spec:
  assumes "length A = n * n" and "length buf = n * n"
  shows "case invert_matrix A buf n of
      None \<Rightarrow> \<not> regular n A
    | Some (I, Q) \<Rightarrow> length Q = n * n \<and> left_inverse n Q A \<and> regular n A"
proof -
  let ?id = "fold (\<lambda>i xs. xs[i * n + i := 1]) [0..<n] (replicate (length buf) (0::u8))"
  have id: "length ?id = n * n" "\<And>i j. i < n \<Longrightarrow> j < n \<Longrightarrow> ent n ?id i j = (if i = j then 1 else 0)"
    using identity_fill [of n n "replicate (length buf) 0"] assms(2) by (auto simp: ent_def gf_of_simps)
  have "pivot_inv n A 0 (A, ?id)"
    using assms(1) id
    by (simp add: pivot_inv_def if_distrib [of "\<lambda>c. c * _"] sum.delta cong: if_cong)
  from invert_pivots_correct [OF this] show ?thesis by (simp add: invert_matrix_def)
qed

text \<open>
  C4. \<open>invert_matrix\<close> fails exactly on singular matrices, and what it leaves in the output buffer is a
  left inverse of the matrix it was given.
\<close>

theorem invert_matrix_correct:
  assumes "length A = n * n" and "length buf = n * n"
  shows "(invert_matrix A buf n = None \<longleftrightarrow> \<not> regular n A) \<and>
         (\<forall>I Q. invert_matrix A buf n = Some (I, Q) \<longrightarrow> length Q = n * n \<and> left_inverse n Q A)"
  using invert_matrix_spec [OF assms] by (auto split: option.splits)

text \<open>A matrix that needs a row swap, and a singular one.\<close>

theorem invert_matrix_correct_witness:
  "invert_matrix [0, 1, 1, 0] [7, 7, 7, 7] 2 = Some ([1, 0, 0, 1], [0, 1, 1, 0]) \<and>
   left_inverse 2 [0, 1, 1, 0] [0, 1, 1, 0] \<and> \<not> regular 2 [1, 1, 1, 1]"
proof -
  have swap: "invert_matrix [0, 1, 1, 0] [7, 7, 7, 7] 2 = Some ([1, 0, 0, 1], [0, 1, 1, 0])"
    by (simp add: invert_matrix_def invert_pivot_def swap_cells_def find_swap_row.simps upt_rec Let_def
        gf_inv_1 numeral_2_eq_2)
  have "invert_matrix [1, 1, 1, 1] [7, 7, 7, 7] 2 = None"
    by (simp add: invert_matrix_def invert_pivot_def swap_cells_def find_swap_row.simps upt_rec Let_def
        gf_inv_1 numeral_2_eq_2)
  with swap invert_matrix_correct [of "[0, 1, 1, 0]" 2 "[7, 7, 7, 7]"]
    invert_matrix_correct [of "[1, 1, 1, 1]" 2 "[7, 7, 7, 7]"]
  show ?thesis by simp
qed

end
