(* ===== verification/EC_Simd.thy ===== *)
theory EC_Simd
  imports EC_Matrix
begin

text \<open>
  The vector backends of \<^verbatim>\<open>crates/ec/src/gf.rs\<close>: the modules \<^verbatim>\<open>x86_64_avx512\<close>, \<^verbatim>\<open>x86_64_avx2\<close> and
  \<^verbatim>\<open>aarch64_neon\<close>, and the dispatch over \<open>Backend\<close>. A vector register is the list of its bytes; the
  intrinsics the code calls are given by their documented lane semantics. The two x86 modules are the
  same code at 64 and 32 bytes, so they share definitions with the register width as an argument. Every
  backend is shown to write what the scalar code writes.
\<close>

section \<open>Vector intrinsics\<close>

definition vec_load :: "nat \<Rightarrow> bytes \<Rightarrow> nat \<Rightarrow> bytes" where
  "vec_load w src index = slice src index (index + w)"

definition vec_store :: "bytes \<Rightarrow> nat \<Rightarrow> bytes \<Rightarrow> bytes" where
  "vec_store dest index v = copy_into dest index v"

definition vec_set1 :: "nat \<Rightarrow> u8 \<Rightarrow> bytes" where
  "vec_set1 w b = replicate w b"

definition vec_xor :: "bytes \<Rightarrow> bytes \<Rightarrow> bytes" where
  "vec_xor a b = map2 (XOR) a b"

definition vec_and :: "bytes \<Rightarrow> bytes \<Rightarrow> bytes" where
  "vec_and a b = map2 (AND) a b"

text \<open>\<open>_mm512_broadcast_i32x4\<close> and \<open>_mm256_broadcastsi128_si256\<close>: one 16-byte register in every lane.\<close>

definition broadcast128 :: "nat \<Rightarrow> bytes \<Rightarrow> bytes" where
  "broadcast128 w v = concat (replicate (w div 16) v)"

text \<open>\<open>shuffle_epi8\<close>: a lookup inside each 16-byte lane; an index with its top bit set gives zero.\<close>

definition shuffle_epi8 :: "bytes \<Rightarrow> bytes \<Rightarrow> bytes" where
  "shuffle_epi8 table idx =
     map (\<lambda>(i, c). if bit c 7 then 0 else table ! (i div 16 * 16 + unat (c AND 0x0f))) (List.enumerate 0 idx)"

text \<open>\<open>srli_epi16\<close>: a logical shift of each little-endian 16-bit lane.\<close>

fun srli_epi16 :: "nat \<Rightarrow> bytes \<Rightarrow> bytes" where
  "srli_epi16 n (lo # hi # rest) =
     (let lane = drop_bit n (ucast lo OR push_bit 8 (ucast hi) :: u16)
      in ucast lane # ucast (drop_bit 8 lane) # srli_epi16 n rest)"
| "srli_epi16 n rest = []"

text \<open>The Neon lookup gives zero for an index outside the 16-byte table, and shifts byte by byte.\<close>

definition vqtbl1q_u8 :: "bytes \<Rightarrow> bytes \<Rightarrow> bytes" where
  "vqtbl1q_u8 table idx = map (\<lambda>c. if unat c < 16 then table ! unat c else 0) idx"

definition vshrq_n_u8 :: "nat \<Rightarrow> bytes \<Rightarrow> bytes" where
  "vshrq_n_u8 n v = map (drop_bit n) v"

section \<open>Nibble tables\<close>

definition nibble_fill :: "(nat \<Rightarrow> u8) \<Rightarrow> (nat \<Rightarrow> u8) \<Rightarrow> bytes" where
  "nibble_fill low high =
     fold (\<lambda>nibble table. table[nibble := low nibble, 16 + nibble := high nibble]) [0..<16] (replicate 32 0)"

definition build_all_nibble_tables :: "bytes list" where
  "build_all_nibble_tables =
     map (\<lambda>coeff. nibble_fill (\<lambda>nibble. gf_mul_slow (word_of_nat coeff) (word_of_nat nibble))
                     (\<lambda>nibble. gf_mul_slow (word_of_nat coeff) (word_of_nat (push_bit 4 nibble)))) [0..<256]"

definition GF_NIBBLE_TABLES :: "bytes list" where
  "GF_NIBBLE_TABLES = build_all_nibble_tables"

definition build_nibble_table :: "u8 \<Rightarrow> bytes" where
  "build_nibble_table coeff =
     (let full = gf_mul_table coeff
      in nibble_fill (\<lambda>index. full ! index) (\<lambda>index. full ! push_bit 4 index))"

definition build_nibble_tables :: "bytes \<Rightarrow> bytes" where
  "build_nibble_tables coefficients =
     fold (\<lambda>(index, coefficient) tables. copy_into tables (index * 32) (build_nibble_table coefficient))
       (List.enumerate 0 coefficients) (replicate (length coefficients * 32) 0)"

section \<open>Loops over whole registers\<close>

text \<open>\<open>while index + w <= len { dest = body(index, dest); index += w }\<close>, for a register width \<open>w\<close> above zero.\<close>

function chunk_loop :: "nat \<Rightarrow> (nat \<Rightarrow> bytes \<Rightarrow> bytes) \<Rightarrow> nat \<Rightarrow> nat \<Rightarrow> bytes \<Rightarrow> bytes \<times> nat" where
  "chunk_loop w body index len dest =
     (if 0 < w \<and> index + w \<le> len then chunk_loop w body (index + w) len (body index dest) else (dest, index))"
  by pat_completeness auto
termination
  by (relation "measure (\<lambda>(w, body, index, len, dest). len - index)") auto

declare chunk_loop.simps [simp del]

section \<open>The x86 modules\<close>

definition x86_mul_chunk :: "bytes \<Rightarrow> bytes \<Rightarrow> bytes \<Rightarrow> bytes \<Rightarrow> bytes" where
  "x86_mul_chunk src_chunk low_table high_table nibble_mask =
     (let low = vec_and src_chunk nibble_mask;
          high = vec_and (srli_epi16 4 src_chunk) nibble_mask;
          low_product = shuffle_epi8 low_table low;
          high_product = shuffle_epi8 high_table high
      in vec_xor low_product high_product)"

definition x86_write_with_nibble_table :: "nat \<Rightarrow> bytes \<Rightarrow> bytes \<Rightarrow> bytes \<Rightarrow> bytes" where
  "x86_write_with_nibble_table w dest src table =
     (let coeff = table ! 1 in
      if coeff = 0 \<or> coeff = 1 \<or> length dest < w then write_with_coeff dest src coeff
      else
        let len = length dest;
            nibble_mask = vec_set1 w 0x0f;
            low_table = broadcast128 w (vec_load 16 table 0);
            high_table = broadcast128 w (vec_load 16 table 16);
            (dest, index) =
              chunk_loop w (\<lambda>index dest.
                let src_chunk = vec_load w src index;
                    product = x86_mul_chunk src_chunk low_table high_table nibble_mask
                in vec_store dest index product) 0 len dest
        in if index < len
           then take index dest @ write_with_coeff (drop index dest) (drop index src) coeff
           else dest)"

definition x86_xor_with_nibble_table :: "nat \<Rightarrow> bytes \<Rightarrow> bytes \<Rightarrow> bytes \<Rightarrow> bytes" where
  "x86_xor_with_nibble_table w dest src table =
     (let coeff = table ! 1 in
      if coeff = 0 \<or> coeff = 1 \<or> length dest < w then xor_with_coeff dest src coeff
      else
        let len = length dest;
            nibble_mask = vec_set1 w 0x0f;
            low_table = broadcast128 w (vec_load 16 table 0);
            high_table = broadcast128 w (vec_load 16 table 16);
            (dest, index) =
              chunk_loop w (\<lambda>index dest.
                let src_chunk = vec_load w src index;
                    dest_chunk = vec_load w dest index;
                    product = x86_mul_chunk src_chunk low_table high_table nibble_mask;
                    combined = vec_xor dest_chunk product
                in vec_store dest index combined) 0 len dest
        in if index < len
           then take index dest @ xor_with_coeff (drop index dest) (drop index src) coeff
           else dest)"

definition x86_encode_row :: "nat \<Rightarrow> nat \<Rightarrow> bytes \<Rightarrow> bytes list \<Rightarrow> nat \<Rightarrow> bytes \<Rightarrow> bytes" where
  "x86_encode_row w k tables data row output =
     (case find (\<lambda>col. tables ! ((row * k + col) * 32 + 1) \<noteq> 0) [0..<k] of
        None \<Rightarrow> replicate (length output) 0
      | Some first_col \<Rightarrow>
          let table_start = (row * k + first_col) * 32;
              first_coeff = tables ! (table_start + 1);
              first_table = slice tables table_start (table_start + 32);
              output = (if first_coeff = 1 then data ! first_col
                        else x86_write_with_nibble_table w output (data ! first_col) first_table)
          in fold (\<lambda>(col, source) output.
                    let table_start = (row * k + col) * 32;
                        coeff = tables ! (table_start + 1)
                    in if coeff = 0 then output
                       else if coeff = 1 then xor_with_slice output source
                       else x86_xor_with_nibble_table w output source (slice tables table_start (table_start + 32)))
               (drop (first_col + 1) (take k (List.enumerate 0 data))) output)"

definition x86_encode_rows :: "nat \<Rightarrow> nat \<Rightarrow> bytes \<Rightarrow> bytes list \<Rightarrow> bytes list \<Rightarrow> bytes list" where
  "x86_encode_rows w k tables data outputs =
     map (\<lambda>(row, output). x86_encode_row w k tables data row output) (List.enumerate 0 outputs)"

text \<open>
  The arrays \<open>active_coeffs\<close> and \<open>active_inputs\<close>, as far as they are filled.
\<close>

definition active_terms :: "nat \<Rightarrow> bytes \<Rightarrow> bytes list \<Rightarrow> (u8 \<times> bytes) list" where
  "active_terms k row inputs = filter (\<lambda>(coeff, _). coeff \<noteq> 0) (map (\<lambda>col. (row ! col, inputs ! col)) [0..<k])"

text \<open>
  What all three \<open>dot_prod_row\<close> functions do with the bytes behind the last whole register. The
  \<open>unwrap\<close> cannot fail, since a term is active.
\<close>

definition dot_prod_tail :: "nat \<Rightarrow> bytes \<Rightarrow> bytes list \<Rightarrow> bytes \<Rightarrow> nat \<Rightarrow> bytes" where
  "dot_prod_tail k row inputs output index =
     (case find (\<lambda>(col, coeff). coeff \<noteq> 0) (take k (List.enumerate 0 row)) of
        None \<Rightarrow> output
      | Some (first_col, first_coeff) \<Rightarrow>
          take index output @
          fold (\<lambda>(coeff, source) rest. xor_with_coeff rest (drop index source) coeff)
            (drop (first_col + 1) (zip row inputs))
            (if first_coeff = 1 then drop index (inputs ! first_col)
             else write_with_coeff (drop index output) (drop index (inputs ! first_col)) first_coeff))"

definition x86_dot_prod_row :: "nat \<Rightarrow> nat \<Rightarrow> bytes \<Rightarrow> bytes list \<Rightarrow> bytes \<Rightarrow> bytes" where
  "x86_dot_prod_row w k row inputs output =
     (let active = active_terms k row inputs in
      if active = [] then replicate (length output) 0
      else
        let len = length output;
            nibble_mask = vec_set1 w 0x0f;
            (output, index) =
              chunk_loop w (\<lambda>index output.
                vec_store output index
                  (fold (\<lambda>(coeff, input) acc.
                      let src_chunk = vec_load w input index;
                          product = (if coeff = 1 then src_chunk
                                     else let table = GF_NIBBLE_TABLES ! unat coeff;
                                              low_table = broadcast128 w (vec_load 16 table 0);
                                              high_table = broadcast128 w (vec_load 16 table 16)
                                          in x86_mul_chunk src_chunk low_table high_table nibble_mask)
                      in vec_xor acc product) active (vec_set1 w 0))) 0 len output
        in if index = len then output else dot_prod_tail k row inputs output index)"

definition x86_apply_matrix_rows :: "nat \<Rightarrow> nat \<Rightarrow> bytes \<Rightarrow> bytes list \<Rightarrow> bytes list \<Rightarrow> bytes list" where
  "x86_apply_matrix_rows w k rows inputs outputs =
     map (\<lambda>(row_index, output). x86_dot_prod_row w k (slice rows (row_index * k) ((row_index + 1) * k)) inputs output)
       (List.enumerate 0 outputs)"

definition avx512_encode_rows :: "nat \<Rightarrow> bytes \<Rightarrow> bytes list \<Rightarrow> bytes list \<Rightarrow> bytes list" where
  "avx512_encode_rows = x86_encode_rows 64"

definition avx512_apply_matrix_rows :: "nat \<Rightarrow> bytes \<Rightarrow> bytes list \<Rightarrow> bytes list \<Rightarrow> bytes list" where
  "avx512_apply_matrix_rows = x86_apply_matrix_rows 64"

definition avx2_encode_rows :: "nat \<Rightarrow> bytes \<Rightarrow> bytes list \<Rightarrow> bytes list \<Rightarrow> bytes list" where
  "avx2_encode_rows = x86_encode_rows 32"

definition avx2_apply_matrix_rows :: "nat \<Rightarrow> bytes \<Rightarrow> bytes list \<Rightarrow> bytes list \<Rightarrow> bytes list" where
  "avx2_apply_matrix_rows = x86_apply_matrix_rows 32"

section \<open>The Neon module\<close>

definition neon_mul_chunk :: "bytes \<Rightarrow> bytes \<Rightarrow> bytes \<Rightarrow> bytes \<Rightarrow> bytes" where
  "neon_mul_chunk src_chunk low_table high_table nibble_mask =
     (let low = vec_and src_chunk nibble_mask;
          high = vec_and (vshrq_n_u8 4 src_chunk) nibble_mask;
          low_product = vqtbl1q_u8 low_table low;
          high_product = vqtbl1q_u8 high_table high
      in vec_xor low_product high_product)"

text \<open>
  Both Neon row functions run the same two loops over their active terms, here with the two registers
  of the nibble table of each term: four registers at a time, then one.
\<close>

type_synonym neon_term = "u8 \<times> bytes \<times> bytes \<times> bytes"

definition neon_loop64 :: "neon_term list \<Rightarrow> bytes \<Rightarrow> nat \<Rightarrow> nat \<Rightarrow> bytes \<times> nat" where
  "neon_loop64 active output index len =
     (let zero = vec_set1 16 0; nibble_mask = vec_set1 16 0x0f in
      chunk_loop 64 (\<lambda>index output.
        let (acc0, acc1, acc2, acc3) =
              fold (\<lambda>(coeff, input, low_table, high_table) (acc0, acc1, acc2, acc3).
                let src0 = vec_load 16 input index;
                    src1 = vec_load 16 input (index + 16);
                    src2 = vec_load 16 input (index + 32);
                    src3 = vec_load 16 input (index + 48)
                in if coeff = 1
                   then (vec_xor acc0 src0, vec_xor acc1 src1, vec_xor acc2 src2, vec_xor acc3 src3)
                   else (vec_xor acc0 (neon_mul_chunk src0 low_table high_table nibble_mask),
                         vec_xor acc1 (neon_mul_chunk src1 low_table high_table nibble_mask),
                         vec_xor acc2 (neon_mul_chunk src2 low_table high_table nibble_mask),
                         vec_xor acc3 (neon_mul_chunk src3 low_table high_table nibble_mask)))
              active (zero, zero, zero, zero)
        in vec_store (vec_store (vec_store (vec_store output index acc0) (index + 16) acc1)
             (index + 32) acc2) (index + 48) acc3) index len output)"

definition neon_loop16 :: "neon_term list \<Rightarrow> bytes \<Rightarrow> nat \<Rightarrow> nat \<Rightarrow> bytes \<times> nat" where
  "neon_loop16 active output index len =
     (let zero = vec_set1 16 0; nibble_mask = vec_set1 16 0x0f in
      chunk_loop 16 (\<lambda>index output.
        vec_store output index
          (fold (\<lambda>(coeff, input, low_table, high_table) acc.
              let src = vec_load 16 input index;
                  product = (if coeff = 1 then src else neon_mul_chunk src low_table high_table nibble_mask)
              in vec_xor acc product) active zero)) index len output)"

definition neon_dot_prod_table_row :: "nat \<Rightarrow> nat \<Rightarrow> bytes \<Rightarrow> bytes list \<Rightarrow> bytes \<Rightarrow> bytes" where
  "neon_dot_prod_table_row k row_index tables data output =
     (let coeff_of = (\<lambda>col. tables ! ((row_index * k + col) * 32 + 1));
          zero = vec_set1 16 0;
          active = map (\<lambda>(col, source).
                     let table_start = (row_index * k + col) * 32
                     in if coeff_of col \<noteq> 1
                        then (coeff_of col, source, vec_load 16 tables table_start, vec_load 16 tables (table_start + 16))
                        else (coeff_of col, source, zero, zero))
                   (filter (\<lambda>(col, _). coeff_of col \<noteq> 0) (take k (List.enumerate 0 data)))
      in if active = [] then replicate (length output) 0
         else
           let len = length output;
               (output, index) = neon_loop64 active output 0 len;
               (output, index) = neon_loop16 active output index len
           in if index = len then output
              else case find (\<lambda>(col, _). coeff_of col \<noteq> 0) (take k (List.enumerate 0 data)) of
                     None \<Rightarrow> output
                   | Some (first_col, first_source) \<Rightarrow>
                       take index output @
                       fold (\<lambda>(col, source) rest.
                               if coeff_of col = 0 \<or> col = first_col then rest
                               else xor_with_coeff rest (drop index source) (coeff_of col))
                         (take k (List.enumerate 0 data))
                         (if coeff_of first_col = 1 then drop index first_source
                          else write_with_coeff (drop index output) (drop index first_source) (coeff_of first_col)))"

definition neon_encode_rows :: "nat \<Rightarrow> bytes \<Rightarrow> bytes list \<Rightarrow> bytes list \<Rightarrow> bytes list" where
  "neon_encode_rows k tables data outputs =
     map (\<lambda>(row, output). neon_dot_prod_table_row k row tables data output) (List.enumerate 0 outputs)"

definition neon_dot_prod_row :: "nat \<Rightarrow> bytes \<Rightarrow> bytes list \<Rightarrow> bytes \<Rightarrow> bytes" where
  "neon_dot_prod_row k row inputs output =
     (let active = map (\<lambda>(coeff, input).
                     let table = GF_NIBBLE_TABLES ! unat coeff
                     in (coeff, input, vec_load 16 table 0, vec_load 16 table 16)) (active_terms k row inputs)
      in if active = [] then replicate (length output) 0
         else
           let len = length output;
               (output, index) = neon_loop64 active output 0 len;
               (output, index) = neon_loop16 active output index len
           in if index = len then output else dot_prod_tail k row inputs output index)"

definition neon_apply_matrix_rows :: "nat \<Rightarrow> bytes \<Rightarrow> bytes list \<Rightarrow> bytes list \<Rightarrow> bytes list" where
  "neon_apply_matrix_rows k rows inputs outputs =
     map (\<lambda>(row_index, output). neon_dot_prod_row k (slice rows (row_index * k) ((row_index + 1) * k)) inputs output)
       (List.enumerate 0 outputs)"

section \<open>Dispatch\<close>

text \<open>
  Each variant exists on its own target. The RISC-V backend is hand-written assembly and is not part
  of the model.
\<close>

datatype Backend = Scalar | NeonAarch64 | Avx512X86_64 | Avx2X86_64

fun encode_rows :: "Backend \<Rightarrow> nat \<Rightarrow> bytes \<Rightarrow> bytes \<Rightarrow> bytes \<Rightarrow> bytes list \<Rightarrow> bytes list \<Rightarrow> bytes list" where
  "encode_rows Scalar k tables neon_tables x86_tables data outputs = encode_rows_scalar k tables data outputs"
| "encode_rows NeonAarch64 k tables neon_tables x86_tables data outputs = neon_encode_rows k neon_tables data outputs"
| "encode_rows Avx512X86_64 k tables neon_tables x86_tables data outputs = avx512_encode_rows k x86_tables data outputs"
| "encode_rows Avx2X86_64 k tables neon_tables x86_tables data outputs = avx2_encode_rows k x86_tables data outputs"

fun apply_matrix_rows :: "Backend \<Rightarrow> nat \<Rightarrow> bytes \<Rightarrow> bytes list \<Rightarrow> bytes list \<Rightarrow> bytes list" where
  "apply_matrix_rows Scalar k rows inputs outputs = apply_matrix_rows_scalar k rows inputs outputs"
| "apply_matrix_rows NeonAarch64 k rows inputs outputs = neon_apply_matrix_rows k rows inputs outputs"
| "apply_matrix_rows Avx512X86_64 k rows inputs outputs = avx512_apply_matrix_rows k rows inputs outputs"
| "apply_matrix_rows Avx2X86_64 k rows inputs outputs = avx2_apply_matrix_rows k rows inputs outputs"

section \<open>Nibble products\<close>

lemma nibble_fill_eq: "nibble_fill low high = map low [0..<16] @ map high [0..<16]"
proof -
  have "n \<le> 16 \<Longrightarrow> fold (\<lambda>i t. t[i := low i, 16 + i := high i]) [0..<n] (replicate 32 0)
      = map low [0..<n] @ replicate (16 - n) 0 @ map high [0..<n] @ replicate (16 - n) 0" for n
  proof (induction n)
    case 0
    then show ?case by (simp add: replicate_add [symmetric])
  next
    case (Suc n)
    then have "replicate (16 - n) (0::u8) = 0 # replicate (16 - Suc n) 0"
      by (simp add: Suc_diff_Suc [symmetric] del: replicate_Suc) (simp add: Suc_diff_le)
    with Suc show ?case by (auto simp: list_update_append)
  qed
  from this [of 16] show ?thesis by (simp add: nibble_fill_def)
qed

lemma and_0f: "x AND 0x0f = take_bit 4 x" for x :: u8
  by (simp add: take_bit_eq_mask mask_eq_exp_minus_1)

lemma nibble_split: "(x AND 0x0f) XOR push_bit 4 (drop_bit 4 x) = x" for x :: u8
  unfolding and_0f by (auto intro!: bit_word_eqI simp: bit_simps)

lemma low_nibble_less: "unat (x AND 0x0f) < 16" for x :: u8
  unfolding and_0f by (simp add: take_bit_eq_mod unat_mod)

lemma high_nibble_less: "unat (drop_bit 4 x) < 16" for x :: u8
  using byte_less [of x] by (simp add: drop_bit_eq_div unat_div less_mult_imp_div_less)

text \<open>A table of the products of a coefficient with the low and with the high nibbles.\<close>

definition nibble_table_of :: "u8 \<Rightarrow> bytes \<Rightarrow> bool" where
  "nibble_table_of c table \<longleftrightarrow> table = map (\<lambda>i. gf_mul c (word_of_nat i)) [0..<16] @
     map (\<lambda>i. gf_mul c (word_of_nat (push_bit 4 i))) [0..<16]"

lemma nibble_table_1: "nibble_table_of c table \<Longrightarrow> table ! 1 = c"
  by (simp add: nibble_table_of_def nth_append)

lemma length_nibble_table: "nibble_table_of c table \<Longrightarrow> length table = 32"
  by (simp add: nibble_table_of_def)

lemma nibble_product:
  assumes "nibble_table_of c table"
  shows "vec_load 16 table 0 ! unat (x AND 0x0f) XOR vec_load 16 table 16 ! unat (drop_bit 4 x) = gf_mul c x"
proof -
  have "word_of_nat (push_bit 4 (unat (drop_bit 4 x))) = push_bit 4 (drop_bit 4 x)"
    by (simp add: push_bit_eq_mult)
  then have "vec_load 16 table 0 ! unat (x AND 0x0f) XOR vec_load 16 table 16 ! unat (drop_bit 4 x)
      = gf_mul c ((x AND 0x0f) XOR push_bit 4 (drop_bit 4 x))"
    using assms low_nibble_less [of x] high_nibble_less [of x]
    by (simp add: nibble_table_of_def vec_load_def slice_def gf_mul_xor_right)
  then show ?thesis by (simp only: nibble_split)
qed

lemma GF_NIBBLE_TABLES_nth: "nibble_table_of c (GF_NIBBLE_TABLES ! unat c)"
  by (simp add: nibble_table_of_def GF_NIBBLE_TABLES_def build_all_nibble_tables_def byte_less nibble_fill_eq
      gf_mul_eq_slow del: upt_rec_numeral)

lemma build_nibble_table_of: "nibble_table_of c (build_nibble_table c)"
  by (simp add: nibble_table_of_def build_nibble_table_def nibble_fill_eq nth_gf_mul_table push_bit_eq_mult Let_def
      del: upt_rec_numeral)

lemma byte_bit: "bit x n \<Longrightarrow> n < 8" for x :: u8
  using bit_imp_le_length [of x n] by simp

lemma take_high_nibble: "take_bit 4 (drop_bit 4 x) = drop_bit 4 x" for x :: u8
  by (auto intro!: bit_word_eqI simp: bit_simps) (use byte_bit in fastforce)+

lemma srli_low: "ucast (drop_bit 4 (ucast lo OR push_bit 8 (ucast hi) :: u16)) AND (0x0f::u8) = drop_bit 4 lo"
  for lo hi :: u8
  unfolding and_0f by (auto intro!: bit_word_eqI simp: bit_simps) (use byte_bit in fastforce)+

lemma srli_high:
  "ucast (drop_bit 8 (drop_bit 4 (ucast lo OR push_bit 8 (ucast hi) :: u16))) AND (0x0f::u8) = drop_bit 4 hi"
  for lo hi :: u8
  unfolding and_0f by (auto intro!: bit_word_eqI simp: bit_simps) (use byte_bit in fastforce)+

lemma srli_nibbles:
  "even (length v) \<Longrightarrow> vec_and (srli_epi16 4 v) (replicate (length v) 0x0f) = map (drop_bit 4) v"
  by (induction "4::nat" v rule: srli_epi16.induct)
    (simp_all add: vec_and_def Let_def srli_low [simplified] srli_high [simplified])

lemma length_broadcast128: "length v = 16 \<Longrightarrow> length (broadcast128 w v) = w div 16 * 16"
  unfolding broadcast128_def by (subst length_concat_uniform [where n = 16]) auto

lemma nth_broadcast128:
  "length v = 16 \<Longrightarrow> w mod 16 = 0 \<Longrightarrow> i < w \<Longrightarrow> j < 16 \<Longrightarrow> broadcast128 w v ! (i div 16 * 16 + j) = v ! j"
  unfolding broadcast128_def by (subst nth_concat_uniform [where n = 16]) (auto simp: div_less_mono)

lemma shuffle_broadcast:
  assumes "length v = 16" and "length idx = w" and "w mod 16 = 0" and "\<forall>c \<in> set idx. unat c < 16"
  shows "shuffle_epi8 (broadcast128 w v) idx = map (\<lambda>c. v ! unat c) idx"
proof (rule nth_equalityI)
  fix i assume "i < length (shuffle_epi8 (broadcast128 w v) idx)"
  then have i: "i < length idx" by (simp add: shuffle_epi8_def)
  with assms(4) have "unat (idx ! i) < 16" by simp
  then have "unat (idx ! i) = unat (take_bit 4 (idx ! i))" by (simp add: take_bit_eq_mod unat_mod)
  then have small: "idx ! i = take_bit 4 (idx ! i)" by (rule unsigned_word_eqI)
  have "\<not> bit (idx ! i) 7" by (subst small) (simp add: bit_take_bit_iff)
  moreover have "idx ! i AND 0x0f = idx ! i" using small by (simp add: and_0f)
  ultimately show "shuffle_epi8 (broadcast128 w v) idx ! i = map (\<lambda>c. v ! unat c) idx ! i"
    using i assms \<open>unat (idx ! i) < 16\<close> by (simp add: shuffle_epi8_def nth_enumerate_eq nth_broadcast128)
qed (simp add: shuffle_epi8_def)

lemma length_vec_load: "index + w \<le> length src \<Longrightarrow> length (vec_load w src index) = w"
  by (simp add: vec_load_def slice_def)

lemma nth_vec_load: "index + w \<le> length src \<Longrightarrow> i < w \<Longrightarrow> vec_load w src index ! i = src ! (index + i)"
  by (simp add: vec_load_def slice_def)

lemma x86_mul_chunk_product:
  assumes "nibble_table_of c table" and "length src = w" and "w mod 16 = 0"
  shows "x86_mul_chunk src (broadcast128 w (vec_load 16 table 0)) (broadcast128 w (vec_load 16 table 16)) (vec_set1 w 0x0f)
       = map (gf_mul c) src"
proof -
  have lens: "length (vec_load 16 table 0) = 16" "length (vec_load 16 table 16) = 16"
    using length_nibble_table [OF assms(1)] by (simp_all add: length_vec_load)
  have "even w" using assms(3) by presburger
  then have high: "vec_and (srli_epi16 4 src) (vec_set1 w 0x0f) = map (drop_bit 4) src"
    using srli_nibbles [of src] assms(2) by (simp add: vec_set1_def)
  have low: "vec_and src (vec_set1 w 0x0f) = map (\<lambda>x. x AND 0x0f) src"
    using assms(2) by (simp add: vec_and_def vec_set1_def zip_replicate2 comp_def)
  show ?thesis unfolding x86_mul_chunk_def Let_def high low
    using lens assms(2,3) low_nibble_less high_nibble_less
    by (subst (1 2) shuffle_broadcast)
      (auto simp: vec_xor_def zip_map_map zip_same_conv_map nibble_product [OF assms(1)])
qed

lemma neon_mul_chunk_product:
  assumes "nibble_table_of c table" and "length src = 16"
  shows "neon_mul_chunk src (vec_load 16 table 0) (vec_load 16 table 16) (vec_set1 16 0x0f) = map (gf_mul c) src"
proof -
  have high: "vec_and (vshrq_n_u8 4 src) (vec_set1 16 0x0f) = map (drop_bit 4) src"
    using assms(2)
    by (simp add: vec_and_def vshrq_n_u8_def vec_set1_def zip_replicate2 comp_def and_0f take_high_nibble)
  have low: "vec_and src (vec_set1 16 0x0f) = map (\<lambda>x. x AND 0x0f) src"
    using assms(2) by (simp add: vec_and_def vec_set1_def zip_replicate2 comp_def)
  show ?thesis unfolding neon_mul_chunk_def Let_def high low
    using low_nibble_less high_nibble_less
    by (auto simp: vqtbl1q_u8_def vec_xor_def zip_map_map zip_same_conv_map nibble_product [OF assms(1)])
qed

section \<open>Whole registers, then the rest\<close>

lemma chunk_loop_cells:
  assumes "0 < w" and "index \<le> len" and "length dest = len"
    and body: "\<And>i d. length d = len \<Longrightarrow> i + w \<le> len \<Longrightarrow> length (body i d) = len \<and>
      (\<forall>p < len. body i d ! p = (if i \<le> p \<and> p < i + w then h p (d ! p) else d ! p))"
  shows "case chunk_loop w body index len dest of (d, i) \<Rightarrow>
      length d = len \<and> index \<le> i \<and> i \<le> len \<and>
      (\<forall>p < len. d ! p = (if index \<le> p \<and> p < i then h p (dest ! p) else dest ! p))"
  using assms(2,3)
proof (induction "len - index" arbitrary: index dest rule: less_induct)
  case less
  show ?case
  proof (cases "index + w \<le> len")
    case True
    have step: "length (body index dest) = len" "\<And>p. p < len \<Longrightarrow>
        body index dest ! p = (if index \<le> p \<and> p < index + w then h p (dest ! p) else dest ! p)"
      using body [OF less.prems(2) True] by auto
    have "case chunk_loop w body (index + w) len (body index dest) of (d, i) \<Rightarrow>
        length d = len \<and> index + w \<le> i \<and> i \<le> len \<and>
        (\<forall>p < len. d ! p = (if index + w \<le> p \<and> p < i then h p (body index dest ! p) else body index dest ! p))"
      using True assms(1) step(1) by (intro less.hyps) auto
    with True assms(1) step(2) show ?thesis
      by (subst chunk_loop.simps) (auto split: prod.splits)
  next
    case False
    with less.prems show ?thesis by (subst chunk_loop.simps) auto
  qed
qed

lemma length_vec_store: "index + length v \<le> length dest \<Longrightarrow> length (vec_store dest index v) = length dest"
  by (simp add: vec_store_def copy_into_def)

lemma nth_vec_store:
  "index + length v \<le> length dest \<Longrightarrow> p < length dest \<Longrightarrow>
   vec_store dest index v ! p = (if index \<le> p \<and> p < index + length v then v ! (p - index) else dest ! p)"
  by (auto simp: vec_store_def copy_into_def nth_append)

lemma length_vec_xor [simp]: "length (vec_xor a b) = min (length a) (length b)"
  by (simp add: vec_xor_def)

lemma nth_vec_xor: "i < length a \<Longrightarrow> i < length b \<Longrightarrow> vec_xor a b ! i = a ! i XOR b ! i"
  by (simp add: vec_xor_def)

lemma x86_write_with_nibble_table_product:
  assumes table: "nibble_table_of c table" and w: "0 < w" "w mod 16 = 0" and len: "length src = length dest"
  shows "x86_write_with_nibble_table w dest src table = map (gf_mul c) src"
proof -
  have coeff: "write_with_coeff d s c = map (gf_mul c) s" if "length s = length d" for d s
    using that by (intro nth_equalityI) (auto simp: nth_write_with_coeff)
  let ?body = "\<lambda>index dest. vec_store dest index (x86_mul_chunk (vec_load w src index)
      (broadcast128 w (vec_load 16 table 0)) (broadcast128 w (vec_load 16 table 16)) (vec_set1 w 0x0f))"
  have "case chunk_loop w ?body 0 (length dest) dest of (d, i) \<Rightarrow>
      length d = length dest \<and> 0 \<le> i \<and> i \<le> length dest \<and>
      (\<forall>p < length dest. d ! p = (if 0 \<le> p \<and> p < i then gf_mul c (src ! p) else dest ! p))"
  proof (rule chunk_loop_cells [OF w(1)])
    fix i and d :: bytes assume d: "length d = length dest" "i + w \<le> length dest"
    then have "length (vec_load w src i) = w" by (simp add: length_vec_load len)
    note product = x86_mul_chunk_product [OF table this w(2)]
    show "length (?body i d) = length dest \<and> (\<forall>p < length dest. ?body i d ! p =
        (if i \<le> p \<and> p < i + w then gf_mul c (src ! p) else d ! p))"
      unfolding product using d by (auto simp: length_vec_store nth_vec_store length_vec_load nth_vec_load len)
  qed auto
  then obtain d i where loop: "chunk_loop w ?body 0 (length dest) dest = (d, i)" and d: "length d = length dest"
    "i \<le> length dest" "\<And>p. p < i \<Longrightarrow> d ! p = gf_mul c (src ! p)"
    by (auto split: prod.splits)
  have "take i d = map (gf_mul c) (take i src)" using d len by (intro nth_equalityI) auto
  then have "take i d @ map (gf_mul c) (drop i src) = map (gf_mul c) src"
    by (metis append_take_drop_id map_append)
  with loop d len show ?thesis
    by (auto simp: x86_write_with_nibble_table_def Let_def nibble_table_1 [OF table, simplified] coeff)
qed

lemma x86_xor_with_nibble_table_product:
  assumes table: "nibble_table_of c table" and w: "0 < w" "w mod 16 = 0" and len: "length src = length dest"
  shows "x86_xor_with_nibble_table w dest src table = map2 (\<lambda>d s. d XOR gf_mul c s) dest src"
proof -
  have coeff: "xor_with_coeff d s c = map2 (\<lambda>d s. d XOR gf_mul c s) d s" if "length s = length d" for d s
    using that by (intro nth_equalityI) (auto simp: nth_xor_with_coeff)
  let ?body = "\<lambda>index dest. vec_store dest index (vec_xor (vec_load w dest index) (x86_mul_chunk (vec_load w src index)
      (broadcast128 w (vec_load 16 table 0)) (broadcast128 w (vec_load 16 table 16)) (vec_set1 w 0x0f)))"
  have "case chunk_loop w ?body 0 (length dest) dest of (d, i) \<Rightarrow>
      length d = length dest \<and> 0 \<le> i \<and> i \<le> length dest \<and>
      (\<forall>p < length dest. d ! p = (if 0 \<le> p \<and> p < i then dest ! p XOR gf_mul c (src ! p) else dest ! p))"
  proof (rule chunk_loop_cells [OF w(1), where h = "\<lambda>p x. x XOR gf_mul c (src ! p)"])
    fix i and d :: bytes assume d: "length d = length dest" "i + w \<le> length dest"
    then have "length (vec_load w src i) = w" by (simp add: length_vec_load len)
    note product = x86_mul_chunk_product [OF table this w(2)]
    show "length (?body i d) = length dest \<and> (\<forall>p < length dest. ?body i d ! p =
        (if i \<le> p \<and> p < i + w then d ! p XOR gf_mul c (src ! p) else d ! p))"
      unfolding product using d
      by (auto simp: length_vec_store nth_vec_store length_vec_load nth_vec_load nth_vec_xor len)
  qed auto
  then obtain d i where loop: "chunk_loop w ?body 0 (length dest) dest = (d, i)" and d: "length d = length dest"
    "i \<le> length dest" "\<And>p. p < length dest \<Longrightarrow> d ! p = (if p < i then dest ! p XOR gf_mul c (src ! p) else dest ! p)"
    by (auto split: prod.splits)
  have "take i d @ map2 (\<lambda>d s. d XOR gf_mul c s) (drop i d) (drop i src) = map2 (\<lambda>d s. d XOR gf_mul c s) dest src"
    using d len by (intro nth_equalityI) (auto simp: nth_append)
  moreover have "i = length dest \<Longrightarrow> d = map2 (\<lambda>d s. d XOR gf_mul c s) dest src"
    using d len by (intro nth_equalityI) auto
  ultimately show ?thesis using loop d len
    by (auto simp: x86_xor_with_nibble_table_def Let_def nibble_table_1 [OF table, simplified] coeff)
qed

section \<open>Every backend computes the row products\<close>

lemma build_nibble_tables_concat: "build_nibble_tables cs = concat (map build_nibble_table cs)"
  using copy_rows_fill [of cs build_nibble_table 32 0 "replicate (length cs * 32) 0"]
    length_nibble_table [OF build_nibble_table_of]
  by (simp add: build_nibble_tables_def)

lemma slice_nibble_tables:
  "i < length cs \<Longrightarrow> slice (build_nibble_tables cs) (i * 32) (i * 32 + 32) = build_nibble_table (cs ! i)"
  using length_nibble_table [OF build_nibble_table_of]
  by (simp add: build_nibble_tables_concat slice_concat_uniform)

lemma nth_nibble_tables_1: "i < length cs \<Longrightarrow> build_nibble_tables cs ! (i * 32 + 1) = cs ! i"
  using nth_concat_uniform [of "map build_nibble_table cs" 32 i 1]
    length_nibble_table [OF build_nibble_table_of] nibble_table_1 [OF build_nibble_table_of]
  by (auto simp: build_nibble_tables_concat)

lemma x86_encode_row_product:
  assumes len: "length data = k" and eq: "equal_lengths n data" and out: "length output = n"
    and rows: "(row + 1) * k \<le> length coeffs" and w: "0 < w" "w mod 16 = 0"
  shows "length (x86_encode_row w k (build_nibble_tables coeffs) data row output) = n \<and>
         (\<forall>p < n. gf_of (x86_encode_row w k (build_nibble_tables coeffs) data row output ! p) = row_dot k coeffs row data p)"
proof -
  let ?c = "\<lambda>col. coeffs ! (row * k + col)"
  let ?T = "\<lambda>c p. gf_of (?c c) * gf_of (data ! c ! p)"
  let ?tables = "build_nibble_tables coeffs"
  from rows have idx: "row * k + c < length coeffs" if "c < k" for c using that by simp
  have probe: "?tables ! ((row * k + c) * 32 + 1) = ?c c" if "c < k" for c
    by (rule nth_nibble_tables_1) (rule idx [OF that])
  have tbl: "slice ?tables ((row * k + c) * 32) ((row * k + c) * 32 + 32) = build_nibble_table (?c c)"
    if "c < k" for c
    by (rule slice_nibble_tables) (rule idx [OF that])
  note prods = x86_write_with_nibble_table_product [OF build_nibble_table_of w]
    x86_xor_with_nibble_table_product [OF build_nibble_table_of w]
  have find: "find (\<lambda>col. ?tables ! ((row * k + col) * 32 + 1) \<noteq> 0) [0..<k] = find (\<lambda>col. ?c col \<noteq> 0) [0..<k]"
    by (rule find_cong) (auto simp: probe simp del: One_nat_def distrib_right_numeral)
  show ?thesis
  proof (cases "find (\<lambda>col. ?c col \<noteq> 0) [0..<k]")
    case None
    then have "x86_encode_row w k ?tables data row output = replicate (length output) 0"
      unfolding x86_encode_row_def find by simp
    with None out show ?thesis by (auto simp: find_None_iff row_dot_def gf_of_simps)
  next
    case (Some f)
    then have f: "f < k" and zero: "\<forall>c < f. ?c c = 0" by (auto simp: find_Some_iff)
    have data_len: "\<And>c. c < k \<Longrightarrow> length (data ! c) = n" using eq len by (simp add: equal_lengths_nth)
    let ?g = "\<lambda>c output. if ?c c = 0 then output else if ?c c = 1 then xor_with_slice output (data ! c)
        else x86_xor_with_nibble_table w output (data ! c) (build_nibble_table (?c c))"
    let ?first = "if ?c f = 1 then data ! f else x86_write_with_nibble_table w output (data ! f) (build_nibble_table (?c f))"
    have "x86_encode_row w k ?tables data row output = fold ?g [f + 1..<k] ?first"
      unfolding x86_encode_row_def find Some option.case Let_def drop_take_enumerate [OF len] fold_map comp_def
        prod.case probe [OF f] tbl [OF f]
      by (rule fold_cong) (auto simp: probe tbl simp del: One_nat_def distrib_right_numeral)
    then show ?thesis unfolding row_dot_def
    proof (simp only:, intro row_product_loop [where T = ?T])
      fix c p assume "c < f"
      with zero show "?T c p = 0" by (simp add: gf_of_simps)
    next
      fix p assume "p < n"
      with out f show "gf_of (?first ! p) = ?T f p" by (auto simp: prods data_len gf_of_simps)
    next
      fix c and out :: bytes assume "f < c" "c < k" "length out = n"
      then show "length (?g c out) = n \<and> (\<forall>p < n. gf_of (?g c out ! p) = gf_of (out ! p) + ?T c p)"
        by (auto simp: prods data_len nth_xor_with_slice gf_of_simps)
    qed (use f out in \<open>auto simp: prods data_len\<close>)
  qed
qed

text \<open>The sum that row \<open>row\<close> of coefficients forms at position \<open>p\<close>.\<close>

definition dot_at :: "nat \<Rightarrow> bytes \<Rightarrow> bytes list \<Rightarrow> nat \<Rightarrow> gf256" where
  "dot_at k row inputs p = (\<Sum>c < k. gf_of (row ! c) * gf_of (inputs ! c ! p))"

lemma sum_list_nonzero_terms:
  fixes f :: "nat \<Rightarrow> gf256"
  assumes "\<And>c. \<not> P c \<Longrightarrow> f c = 0"
  shows "sum_list (map f (filter P [0..<k])) = (\<Sum>c < k. f c)"
proof -
  have "sum_list (map f (filter P [0..<k])) = sum_list (map f [0..<k])"
    using assms by (intro sum_list_map_filter) auto
  also have "\<dots> = (\<Sum>c < k. f c)" by (simp add: interv_sum_list_conv_sum_set_nat lessThan_atLeast0)
  finally show ?thesis .
qed

lemma active_terms_sum:
  "sum_list (map (\<lambda>(coeff, input). gf_of coeff * gf_of (input ! p)) (active_terms k row inputs)) = dot_at k row inputs p"
  using sum_list_nonzero_terms [of "\<lambda>c. row ! c \<noteq> 0" "\<lambda>c. gf_of (row ! c) * gf_of (inputs ! c ! p)" k]
  by (simp add: active_terms_def dot_at_def filter_map comp_def gf_of_simps)

lemma active_terms_Nil: "active_terms k row inputs = [] \<Longrightarrow> dot_at k row inputs p = 0"
  using active_terms_sum [of p k row inputs] by simp

lemma vec_xor_fold:
  assumes "\<And>t. t \<in> set xs \<Longrightarrow> length (v t) = w \<and> (\<forall>j < w. gf_of (v t ! j) = T t j)" and "length acc = w"
  shows "length (fold (\<lambda>t acc. vec_xor acc (v t)) xs acc) = w \<and>
    (\<forall>j < w. gf_of (fold (\<lambda>t acc. vec_xor acc (v t)) xs acc ! j) = gf_of (acc ! j) + sum_list (map (\<lambda>t. T t j) xs))"
  using assms
proof (induction xs arbitrary: acc)
  case Nil
  then show ?case by simp
next
  case (Cons t xs)
  from Cons.prems have "length (vec_xor acc (v t)) = w"
    "\<forall>j < w. gf_of (vec_xor acc (v t) ! j) = gf_of (acc ! j) + T t j"
    by (auto simp: nth_vec_xor gf_of_simps)
  with Cons show ?case by (simp add: add.assoc)
qed

text \<open>A loop that stores, register by register, the values \<open>D\<close>.\<close>

lemma chunk_loop_store:
  fixes D :: "nat \<Rightarrow> gf256"
  assumes "0 < w" and "index \<le> n" and "length dest = n" and ready: "\<And>p. p < index \<Longrightarrow> gf_of (dest ! p) = D p"
    and body: "\<And>i d. length d = n \<Longrightarrow> i + w \<le> n \<Longrightarrow> body i d = vec_store d i (A i)"
    and acc: "\<And>i. i + w \<le> n \<Longrightarrow> length (A i) = w \<and> (\<forall>j < w. gf_of (A i ! j) = D (i + j))"
  shows "case chunk_loop w body index n dest of (d, i) \<Rightarrow>
    length d = n \<and> i \<le> n \<and> (\<forall>p < i. gf_of (d ! p) = D p)"
proof -
  have "case chunk_loop w body index n dest of (d, i) \<Rightarrow>
      length d = n \<and> index \<le> i \<and> i \<le> n \<and>
      (\<forall>p < n. d ! p = (if index \<le> p \<and> p < i then byte_of (D p) else dest ! p))"
  proof (rule chunk_loop_cells [OF assms(1,2,3), where h = "\<lambda>p _. byte_of (D p)"])
    fix i and d :: bytes assume d: "length d = n" and i: "i + w \<le> n"
    then have "A i ! (p - i) = byte_of (D p)" if "i \<le> p" "p < i + w" for p
      using acc [OF i] that by (auto dest!: spec [of _ "p - i"] simp: gf_of_inverse [symmetric])
        (metis UNIV_I gf_of_inverse)
    with d i acc [OF i] show "length (body i d) = n \<and>
        (\<forall>p < n. body i d ! p = (if i \<le> p \<and> p < i + w then byte_of (D p) else d ! p))"
      by (auto simp: body length_vec_store nth_vec_store)
  qed
  then show ?thesis using ready by (auto simp: byte_of_inverse split: prod.splits)
qed

lemma dot_prod_tail_product:
  assumes len: "length inputs = k" "length row = k" and eq: "equal_lengths n inputs"
    and out: "length output = n" "index \<le> n" and active: "active_terms k row inputs \<noteq> []"
    and ready: "\<And>p. p < index \<Longrightarrow> gf_of (output ! p) = dot_at k row inputs p"
  shows "length (dot_prod_tail k row inputs output index) = n \<and>
    (\<forall>p < n. gf_of (dot_prod_tail k row inputs output index ! p) = dot_at k row inputs p)"
proof -
  let ?inputs = "map (drop index) inputs"
  let ?rest = "apply_matrix_row row ?inputs (drop index output)"
  have "find (\<lambda>(col, coeff). coeff \<noteq> 0) (List.enumerate 0 row) \<noteq> None"
    using active len by (auto simp: active_terms_def filter_empty_conv find_None_iff in_set_enumerate_eq)
  then obtain f coeff where find: "find (\<lambda>(col, coeff). coeff \<noteq> 0) (List.enumerate 0 row) = Some (f, coeff)" by auto
  then have f: "f < length inputs" using len by (auto simp: find_Some_iff nth_enumerate_eq)
  have "drop (f + 1) (zip row ?inputs) = map (\<lambda>(c, x). (c, drop index x)) (drop (f + 1) (zip row inputs))"
    by (simp add: zip_map2 drop_map)
  then have tail: "dot_prod_tail k row inputs output index = take index output @ ?rest"
    using find f len
    by (simp add: dot_prod_tail_def apply_matrix_row_def fold_map comp_def case_prod_unfold write_with_coeff_def)
  have "equal_lengths (n - index) ?inputs" using eq by (auto simp: equal_lengths_def)
  then have "length ?rest = n - index \<and> (\<forall>p < n - index. gf_of (?rest ! p) = (\<Sum>c < k. gf_of (row ! c) * gf_of (?inputs ! c ! p)))"
    using len out by (intro apply_matrix_row_product) auto
  moreover have "?inputs ! c ! p = inputs ! c ! (index + p)" if "c < k" "p < n - index" for c p
    using that len eq out by (simp add: equal_lengths_nth)
  ultimately have "length ?rest = n - index" "\<And>p. p < n - index \<Longrightarrow> gf_of (?rest ! p) = dot_at k row inputs (index + p)"
    by (auto simp: dot_at_def)
  with out ready show ?thesis unfolding tail by (auto simp: nth_append)
qed

lemma x86_dot_prod_row_product:
  assumes len: "length inputs = k" "length row = k" and eq: "equal_lengths n inputs" and out: "length output = n"
    and w: "0 < w" "w mod 16 = 0"
  shows "length (x86_dot_prod_row w k row inputs output) = n \<and>
    (\<forall>p < n. gf_of (x86_dot_prod_row w k row inputs output ! p) = dot_at k row inputs p)"
proof (cases "active_terms k row inputs = []")
  case True
  with out show ?thesis by (simp add: x86_dot_prod_row_def active_terms_Nil gf_of_simps)
next
  case False
  let ?v = "\<lambda>index (coeff, input). if coeff = 1 then vec_load w input index
      else x86_mul_chunk (vec_load w input index) (broadcast128 w (vec_load 16 (GF_NIBBLE_TABLES ! unat coeff) 0))
             (broadcast128 w (vec_load 16 (GF_NIBBLE_TABLES ! unat coeff) 16)) (vec_set1 w 0x0f)"
  let ?acc = "\<lambda>index. fold (\<lambda>t acc. vec_xor acc (?v index t)) (active_terms k row inputs) (vec_set1 w 0)"
  let ?body = "\<lambda>index output. vec_store output index (?acc index)"
  have mem: "length input = n" if "(coeff, input) \<in> set (active_terms k row inputs)" for coeff input
    using that eq len by (auto simp: active_terms_def equal_lengths_nth)
  have acc: "length (?acc i) = w" "\<And>j. j < w \<Longrightarrow> gf_of (?acc i ! j) = dot_at k row inputs (i + j)"
    if i: "i + w \<le> n" for i
  proof -
    have "length (?acc i) = w \<and> (\<forall>j < w. gf_of (?acc i ! j) = gf_of (vec_set1 w 0 ! j) +
        sum_list (map (\<lambda>t. (\<lambda>(coeff, input). gf_of coeff * gf_of (input ! (i + j))) t) (active_terms k row inputs)))"
      by (rule vec_xor_fold)
        (use i mem in \<open>auto simp: vec_set1_def length_vec_load nth_vec_load gf_of_simps
          x86_mul_chunk_product [OF GF_NIBBLE_TABLES_nth _ w(2), unfolded vec_set1_def]\<close>)
    then show "length (?acc i) = w" "\<And>j. j < w \<Longrightarrow> gf_of (?acc i ! j) = dot_at k row inputs (i + j)"
      by (auto simp: active_terms_sum vec_set1_def gf_of_simps)
  qed
  have "case chunk_loop w ?body 0 n output of (d, i) \<Rightarrow>
      length d = n \<and> i \<le> n \<and> (\<forall>p < i. gf_of (d ! p) = dot_at k row inputs p)"
    by (rule chunk_loop_store [OF w(1), where A = ?acc]) (use acc out in auto)
  then obtain d i where loop: "chunk_loop w ?body 0 n output = (d, i)" and d: "length d = n" "i \<le> n"
    "\<And>p. p < i \<Longrightarrow> gf_of (d ! p) = dot_at k row inputs p"
    by (auto split: prod.splits)
  have "x86_dot_prod_row w k row inputs output = (if i = n then d else dot_prod_tail k row inputs d i)"
    using False loop out by (simp add: x86_dot_prod_row_def Let_def case_prod_unfold cong: if_cong)
  with dot_prod_tail_product [OF len eq d(1,2) False d(3)] d show ?thesis by auto
qed

text \<open>The terms of the Neon loops: the registers hold the nibble table of the coefficient.\<close>

definition neon_term_ok :: "nat \<Rightarrow> neon_term \<Rightarrow> bool" where
  "neon_term_ok n t \<longleftrightarrow> (case t of (coeff, input, lo, hi) \<Rightarrow> length input = n \<and>
     (coeff \<noteq> 1 \<longrightarrow> (\<exists>table. nibble_table_of coeff table \<and> lo = vec_load 16 table 0 \<and> hi = vec_load 16 table 16)))"

definition neon_product :: "nat \<Rightarrow> neon_term \<Rightarrow> bytes" where
  "neon_product index t = (case t of (coeff, input, lo, hi) \<Rightarrow>
     if coeff = 1 then vec_load 16 input index else neon_mul_chunk (vec_load 16 input index) lo hi (vec_set1 16 0x0f))"

definition neon_acc :: "neon_term list \<Rightarrow> nat \<Rightarrow> bytes" where
  "neon_acc terms index = fold (\<lambda>t acc. vec_xor acc (neon_product index t)) terms (vec_set1 16 0)"

definition neon_sum :: "neon_term list \<Rightarrow> nat \<Rightarrow> gf256" where
  "neon_sum terms p = sum_list (map (\<lambda>(coeff, input, _, _). gf_of coeff * gf_of (input ! p)) terms)"

lemma neon_acc_sum:
  assumes "list_all (neon_term_ok n) terms" and "index + 16 \<le> n"
  shows "length (neon_acc terms index) = 16 \<and> (\<forall>j < 16. gf_of (neon_acc terms index ! j) = neon_sum terms (index + j))"
proof -
  have "length (neon_acc terms index) = 16 \<and> (\<forall>j < 16. gf_of (neon_acc terms index ! j) = gf_of (vec_set1 16 0 ! j) +
      sum_list (map (\<lambda>t. (\<lambda>(coeff, input, _, _). gf_of coeff * gf_of (input ! (index + j))) t) terms))"
    unfolding neon_acc_def
  proof (rule vec_xor_fold)
    fix t assume "t \<in> set terms"
    with assms have "neon_term_ok n t" by (simp add: list_all_iff)
    then show "length (neon_product index t) = 16 \<and> (\<forall>j < 16. gf_of (neon_product index t ! j) =
        (\<lambda>(coeff, input, _, _). gf_of coeff * gf_of (input ! (index + j))) t)"
      using assms(2)
      by (auto simp: neon_term_ok_def neon_product_def length_vec_load nth_vec_load gf_of_simps
          neon_mul_chunk_product split: prod.splits)
  qed (simp add: vec_set1_def)
  then show ?thesis by (simp add: neon_sum_def vec_set1_def gf_of_simps)
qed

lemma neon_quad_fold:
  "fold (\<lambda>(coeff, input, lo, hi) (a0, a1, a2, a3).
      if coeff = 1 then (vec_xor a0 (vec_load 16 input i0), vec_xor a1 (vec_load 16 input i1),
                         vec_xor a2 (vec_load 16 input i2), vec_xor a3 (vec_load 16 input i3))
      else (vec_xor a0 (neon_mul_chunk (vec_load 16 input i0) lo hi m), vec_xor a1 (neon_mul_chunk (vec_load 16 input i1) lo hi m),
            vec_xor a2 (neon_mul_chunk (vec_load 16 input i2) lo hi m), vec_xor a3 (neon_mul_chunk (vec_load 16 input i3) lo hi m)))
     terms (a0, a1, a2, a3)
   = (fold (\<lambda>t acc. vec_xor acc (neon_product i0 t)) terms a0, fold (\<lambda>t acc. vec_xor acc (neon_product i1 t)) terms a1,
      fold (\<lambda>t acc. vec_xor acc (neon_product i2 t)) terms a2, fold (\<lambda>t acc. vec_xor acc (neon_product i3 t)) terms a3)"
  if "m = vec_set1 16 0x0f"
  by (induction terms arbitrary: a0 a1 a2 a3) (auto simp: neon_product_def that)

lemma vec_store_append:
  "index + length u \<le> length d \<Longrightarrow> vec_store (vec_store d index u) (index + length u) v = vec_store d index (u @ v)"
  by (simp add: vec_store_def copy_into_def ac_simps)

lemma vec_store_quad:
  assumes "i + 64 \<le> length d" and "length a0 = 16" "length a1 = 16" "length a2 = 16" "length a3 = 16"
  shows "vec_store (vec_store (vec_store (vec_store d i a0) (i + 16) a1) (i + 32) a2) (i + 48) a3
       = vec_store d i (a0 @ a1 @ a2 @ a3)"
  using assms vec_store_append [of i a0 d a1] vec_store_append [of i "a0 @ a1" d a2]
    vec_store_append [of i "a0 @ a1 @ a2" d a3]
  by simp

lemma neon_loops_sum:
  assumes ok: "list_all (neon_term_ok n) terms" and out: "length output = n"
  shows "case neon_loop64 terms output 0 n of (d, i) \<Rightarrow> case neon_loop16 terms d i n of (d', i') \<Rightarrow>
    length d' = n \<and> i' \<le> n \<and> (\<forall>p < i'. gf_of (d' ! p) = neon_sum terms p)"
proof -
  let ?A = "\<lambda>i. neon_acc terms i @ neon_acc terms (i + 16) @ neon_acc terms (i + 32) @ neon_acc terms (i + 48)"
  note acc = neon_acc_sum [OF ok]
  have "case neon_loop64 terms output 0 n of (d, i) \<Rightarrow>
      length d = n \<and> i \<le> n \<and> (\<forall>p < i. gf_of (d ! p) = neon_sum terms p)"
    unfolding neon_loop64_def Let_def
  proof (rule chunk_loop_store [where A = ?A])
    fix i and d :: bytes assume "length d = n" "i + 64 \<le> n"
    then show "(case fold (\<lambda>(coeff, input, low_table, high_table) (acc0, acc1, acc2, acc3).
          if coeff = 1 then (vec_xor acc0 (vec_load 16 input i), vec_xor acc1 (vec_load 16 input (i + 16)),
             vec_xor acc2 (vec_load 16 input (i + 32)), vec_xor acc3 (vec_load 16 input (i + 48)))
          else (vec_xor acc0 (neon_mul_chunk (vec_load 16 input i) low_table high_table (vec_set1 16 15)),
                vec_xor acc1 (neon_mul_chunk (vec_load 16 input (i + 16)) low_table high_table (vec_set1 16 15)),
                vec_xor acc2 (neon_mul_chunk (vec_load 16 input (i + 32)) low_table high_table (vec_set1 16 15)),
                vec_xor acc3 (neon_mul_chunk (vec_load 16 input (i + 48)) low_table high_table (vec_set1 16 15))))
          terms (vec_set1 16 0, vec_set1 16 0, vec_set1 16 0, vec_set1 16 0) of
        (acc0, acc1, acc2, acc3) \<Rightarrow> vec_store (vec_store (vec_store (vec_store d i acc0) (i + 16) acc1)
          (i + 32) acc2) (i + 48) acc3) = vec_store d i (?A i)"
      using acc by (simp add: neon_quad_fold [OF refl] neon_acc_def [symmetric] vec_store_quad)
  next
    fix i assume i: "i + 64 \<le> n"
    have "length (neon_acc terms (i + s)) = 16" "\<And>j. j < 16 \<Longrightarrow> gf_of (neon_acc terms (i + s) ! j) = neon_sum terms (i + s + j)"
      if "s \<le> 48" for s
      using acc [of "i + s"] i that by auto
    from this [of 0] this [of 16] this [of 32] this [of 48]
    show "length (?A i) = 64 \<and> (\<forall>j < 64. gf_of (?A i ! j) = neon_sum terms (i + j))"
      by (auto simp: nth_append)
  qed (use out in auto)
  then obtain d i where loop: "neon_loop64 terms output 0 n = (d, i)" and d: "length d = n" "i \<le> n"
    "\<And>p. p < i \<Longrightarrow> gf_of (d ! p) = neon_sum terms p" by (auto split: prod.splits)
  have "case neon_loop16 terms d i n of (d', i') \<Rightarrow>
      length d' = n \<and> i' \<le> n \<and> (\<forall>p < i'. gf_of (d' ! p) = neon_sum terms p)"
    unfolding neon_loop16_def Let_def
    by (rule chunk_loop_store [where A = "neon_acc terms"])
      (use d acc in \<open>auto simp: neon_acc_def neon_product_def case_prod_unfold\<close>)
  with loop show ?thesis by simp
qed

lemma neon_dot_prod_row_product:
  assumes len: "length inputs = k" "length row = k" and eq: "equal_lengths n inputs" and out: "length output = n"
  shows "length (neon_dot_prod_row k row inputs output) = n \<and>
    (\<forall>p < n. gf_of (neon_dot_prod_row k row inputs output ! p) = dot_at k row inputs p)"
proof (cases "active_terms k row inputs = []")
  case True
  with out show ?thesis by (simp add: neon_dot_prod_row_def active_terms_Nil gf_of_simps)
next
  case False
  let ?terms = "map (\<lambda>(coeff, input). (coeff, input, vec_load 16 (GF_NIBBLE_TABLES ! unat coeff) 0,
      vec_load 16 (GF_NIBBLE_TABLES ! unat coeff) 16)) (active_terms k row inputs)"
  have sum: "neon_sum ?terms p = dot_at k row inputs p" for p
    by (simp add: neon_sum_def active_terms_sum [symmetric] comp_def case_prod_unfold)
  have "list_all (neon_term_ok n) ?terms"
    using GF_NIBBLE_TABLES_nth eq len
    by (auto simp: list_all_iff neon_term_ok_def active_terms_def equal_lengths_nth)
  from neon_loops_sum [OF this out] obtain d i d' i' where loops: "neon_loop64 ?terms output 0 n = (d, i)"
    "neon_loop16 ?terms d i n = (d', i')" and d': "length d' = n" "i' \<le> n"
    "\<And>p. p < i' \<Longrightarrow> gf_of (d' ! p) = dot_at k row inputs p"
    by (auto simp: sum split: prod.splits)
  have "neon_dot_prod_row k row inputs output = (if i' = n then d' else dot_prod_tail k row inputs d' i')"
    using False loops out by (simp add: neon_dot_prod_row_def Let_def)
  with dot_prod_tail_product [OF len eq d'(1,2) False d'(3)] d' show ?thesis by auto
qed

lemma fold_identity: "(\<And>c. c \<in> set xs \<Longrightarrow> g c x = x) \<Longrightarrow> fold g xs x = x"
  by (induction xs) auto

lemma find_map: "find P (map f xs) = map_option f (find (\<lambda>x. P (f x)) xs)"
  by (induction xs) auto

text \<open>The terms that \<open>dot_prod_table_row\<close> gathers from the nibble tables of the generator matrix.\<close>

lemma neon_table_terms:
  assumes len: "length data = k" and eq: "equal_lengths n data" and rows: "(row + 1) * k \<le> length coeffs"
  defines "c \<equiv> \<lambda>col. build_nibble_tables coeffs ! ((row * k + col) * 32 + 1)"
  defines "terms \<equiv> map (\<lambda>(col, source).
      if c col \<noteq> 1 then (c col, source, vec_load 16 (build_nibble_tables coeffs) ((row * k + col) * 32),
                              vec_load 16 (build_nibble_tables coeffs) ((row * k + col) * 32 + 16))
      else (c col, source, vec_set1 16 0, vec_set1 16 0))
    (filter (\<lambda>(col, _). c col \<noteq> 0) (map (\<lambda>col. (col, data ! col)) [0..<k]))"
  shows "list_all (neon_term_ok n) terms" "neon_sum terms p = row_dot k coeffs row data p"
    "terms = [] \<longleftrightarrow> (\<forall>col < k. c col = 0)"
proof -
  have c: "c col = coeffs ! (row * k + col)" if "col < k" for col
    unfolding c_def using that rows by (intro nth_nibble_tables_1) simp
  have table: "slice (build_nibble_tables coeffs) ((row * k + col) * 32) ((row * k + col) * 32 + 32) = build_nibble_table (c col)"
    if "col < k" for col
    unfolding c [OF that] using that rows by (intro slice_nibble_tables) simp
  have loads: "vec_load 16 (build_nibble_tables coeffs) ((row * k + col) * 32) = vec_load 16 (build_nibble_table (c col)) 0"
    "vec_load 16 (build_nibble_tables coeffs) ((row * k + col) * 32 + 16) = vec_load 16 (build_nibble_table (c col)) 16"
    if "col < k" for col
    using table [OF that, symmetric] by (simp_all add: vec_load_def slice_def take_drop add.commute)
  show "list_all (neon_term_ok n) terms"
    using eq len build_nibble_table_of loads
    by (auto simp: terms_def list_all_iff neon_term_ok_def equal_lengths_nth simp del: distrib_right_numeral
        intro!: exI [of _ "build_nibble_table (c _)"])
  show "neon_sum terms p = row_dot k coeffs row data p"
    using sum_list_nonzero_terms [of "\<lambda>col. c col \<noteq> 0" "\<lambda>col. gf_of (c col) * gf_of (data ! col ! p)" k] c
    by (simp add: neon_sum_def terms_def row_dot_def filter_map comp_def case_prod_unfold gf_of_simps if_distrib cong: if_cong)
  show "terms = [] \<longleftrightarrow> (\<forall>col < k. c col = 0)"
    by (auto simp: terms_def filter_empty_conv)
qed

lemma neon_table_tail:
  assumes len: "length data = k" and eq: "equal_lengths n data" and d: "length d = n" and i: "i \<le> n"
    and f: "f < k" "\<And>col. col < f \<Longrightarrow> c col = 0"
  defines "rest \<equiv> fold (\<lambda>col rest. if c col = 0 \<or> col = f then rest else xor_with_coeff rest (drop i (data ! col)) (c col))
      [0..<k] (if c f = 1 then drop i (data ! f) else write_with_coeff (drop i d) (drop i (data ! f)) (c f))"
  shows "length rest = n - i \<and> (\<forall>p < n - i. gf_of (rest ! p) = (\<Sum>col < k. gf_of (c col) * gf_of (data ! col ! (i + p))))"
proof -
  let ?g = "\<lambda>col rest. if c col = 0 \<or> col = f then rest else xor_with_coeff rest (drop i (data ! col)) (c col)"
  let ?first = "if c f = 1 then drop i (data ! f) else write_with_coeff (drop i d) (drop i (data ! f)) (c f)"
  have data_len: "\<And>col. col < k \<Longrightarrow> length (data ! col) = n" using eq len by (simp add: equal_lengths_nth)
  have "[0..<k] = [0..<f] @ f # [f + 1..<k]" 
    using f(1) upt_add_eq_append [of 0 f "k - f"] by (simp add: upt_conv_Cons [of f])
  moreover have "fold ?g [0..<f] x = x" for x using f(2) by (intro fold_identity) simp
  ultimately have rest: "rest = fold ?g [f + 1..<k] ?first" by (simp add: rest_def)
  show ?thesis unfolding rest
  proof (rule row_product_loop [where T = "\<lambda>col p. gf_of (c col) * gf_of (data ! col ! (i + p))"])
    fix col p assume "col < f"
    with f(2) show "gf_of (c col) * gf_of (data ! col ! (i + p)) = 0" by (simp add: gf_of_simps)
  next
    fix p assume "p < n - i"
    then show "gf_of (?first ! p) = gf_of (c f) * gf_of (data ! f ! (i + p))"
      using d i f(1) data_len by (auto simp: nth_write_with_coeff gf_of_simps)
  next
    fix col and out :: bytes assume "f < col" "col < k" "length out = n - i"
    then show "length (?g col out) = n - i \<and>
        (\<forall>p < n - i. gf_of (?g col out ! p) = gf_of (out ! p) + gf_of (c col) * gf_of (data ! col ! (i + p)))"
      using i data_len by (auto simp: nth_xor_with_coeff gf_of_simps)
  qed (use d i f(1) data_len in auto)
qed

lemma neon_dot_prod_table_row_product:
  assumes len: "length data = k" and eq: "equal_lengths n data" and out: "length output = n"
    and rows: "(row + 1) * k \<le> length coeffs"
  shows "length (neon_dot_prod_table_row k row (build_nibble_tables coeffs) data output) = n \<and>
    (\<forall>p < n. gf_of (neon_dot_prod_table_row k row (build_nibble_tables coeffs) data output ! p) = row_dot k coeffs row data p)"
proof -
  let ?tables = "build_nibble_tables coeffs"
  define c where "c = (\<lambda>col. ?tables ! ((row * k + col) * 32 + 1))"
  let ?terms = "map (\<lambda>(col, source).
      if c col \<noteq> 1 then (c col, source, vec_load 16 ?tables ((row * k + col) * 32), vec_load 16 ?tables ((row * k + col) * 32 + 16))
      else (c col, source, vec_set1 16 0, vec_set1 16 0))
    (filter (\<lambda>(col, _). c col \<noteq> 0) (map (\<lambda>col. (col, data ! col)) [0..<k]))"
  have probe: "?tables ! ((row * k + col) * 32 + 1) = c col" for col by (simp add: c_def)
  note terms = neon_table_terms [OF len eq rows, unfolded probe]
  have coeff: "c col = coeffs ! (row * k + col)" if "col < k" for col
    unfolding c_def using that rows by (intro nth_nibble_tables_1) simp
  have enum: "take k (List.enumerate 0 data) = map (\<lambda>col. (col, data ! col)) [0..<k]"
    using drop_take_enumerate [OF len, of 0] by simp
  obtain d i d' i' where loops: "neon_loop64 ?terms output 0 n = (d, i)"
    "neon_loop16 ?terms d i n = (d', i')" and d': "length d' = n" "i' \<le> n"
    "\<And>p. p < i' \<Longrightarrow> gf_of (d' ! p) = row_dot k coeffs row data p"
    using neon_loops_sum [OF terms(1) out] by (auto simp: terms(2) split: prod.splits)
  have row: "neon_dot_prod_table_row k row ?tables data output =
      (if ?terms = [] then replicate n 0 else if i' = n then d'
       else case find (\<lambda>col. c col \<noteq> 0) [0..<k] of None \<Rightarrow> d' | Some f \<Rightarrow> take i' d' @
         fold (\<lambda>col rest. if c col = 0 \<or> col = f then rest else xor_with_coeff rest (drop i' (data ! col)) (c col))
           [0..<k] (if c f = 1 then drop i' (data ! f) else write_with_coeff (drop i' d') (drop i' (data ! f)) (c f)))"
    unfolding neon_dot_prod_table_row_def Let_def enum probe out loops prod.case find_map fold_map comp_def
    by (simp split: option.splits)
  show ?thesis
  proof (cases "find (\<lambda>col. c col \<noteq> 0) [0..<k]")
    case None
    then have zero: "\<forall>col < k. c col = 0" by (auto simp: find_None_iff)
    then have "row_dot k coeffs row data p = 0" for p by (simp add: row_dot_def coeff gf_of_simps)
    with zero out terms(3) show ?thesis unfolding row by (simp add: gf_of_simps)
  next
    case (Some f)
    then have f: "f < k" "\<And>col. col < f \<Longrightarrow> c col = 0" and nz: "c f \<noteq> 0" by (auto simp: find_Some_iff)
    then have "?terms \<noteq> []" using terms(3) by blast
    with Some d' neon_table_tail [where c = c, OF len eq d'(1,2) f] show ?thesis
      unfolding row by (auto simp: nth_append row_dot_def coeff)
  qed
qed

section \<open>The backends agree\<close>

lemma same_row:
  assumes "length a = n \<and> (\<forall>p < n. gf_of (a ! p) = D p)" and "length b = n \<and> (\<forall>p < n. gf_of (b ! p) = D p)"
  shows "a = b"
  using assms by (intro nth_equalityI) (auto simp flip: gf_of_eq_iff)

lemma encode_rows_backend:
  assumes len: "length data = k" and eq: "equal_lengths n data" "equal_lengths n outputs"
    and rows: "length outputs * k \<le> length coeffs"
  shows "encode_rows b k (build_mul_tables coeffs) (build_nibble_tables coeffs) (build_nibble_tables coeffs) data outputs
       = encode_rows_scalar k (build_mul_tables coeffs) data outputs"
proof -
  have row: "x86_encode_row w k (build_nibble_tables coeffs) data r (outputs ! r)
        = encode_row k (build_mul_tables coeffs) data r (outputs ! r)"
      "neon_dot_prod_table_row k r (build_nibble_tables coeffs) data (outputs ! r)
        = encode_row k (build_mul_tables coeffs) data r (outputs ! r)"
    if r: "r < length outputs" and w: "0 < w" "w mod 16 = 0" for r w
  proof -
    have "(r + 1) * k \<le> length outputs * k" using r by (intro mult_le_mono1) simp
    with rows have le: "(r + 1) * k \<le> length coeffs" by linarith
    have out: "length (outputs ! r) = n" using eq(2) r by (simp add: equal_lengths_nth)
    note scalar = encode_row_product [OF len eq(1) out le]
    show "x86_encode_row w k (build_nibble_tables coeffs) data r (outputs ! r)
        = encode_row k (build_mul_tables coeffs) data r (outputs ! r)"
      by (rule same_row [OF x86_encode_row_product [OF len eq(1) out le w] scalar])
    show "neon_dot_prod_table_row k r (build_nibble_tables coeffs) data (outputs ! r)
        = encode_row k (build_mul_tables coeffs) data r (outputs ! r)"
      by (rule same_row [OF neon_dot_prod_table_row_product [OF len eq(1) out le] scalar])
  qed
  show ?thesis
    by (cases b) (auto simp: avx512_encode_rows_def avx2_encode_rows_def x86_encode_rows_def neon_encode_rows_def
        encode_rows_scalar_def in_set_enumerate_eq row row(2) [of _ 16])
qed

lemma apply_matrix_rows_backend:
  assumes len: "length inputs = k" and eq: "equal_lengths n inputs" "equal_lengths n outputs"
    and rows: "length outputs * k \<le> length rows"
  shows "apply_matrix_rows b k rows inputs outputs = apply_matrix_rows_scalar k rows inputs outputs"
proof -
  have row: "x86_dot_prod_row w k (slice rows (r * k) ((r + 1) * k)) inputs (outputs ! r)
        = apply_matrix_row (slice rows (r * k) ((r + 1) * k)) inputs (outputs ! r)"
      "neon_dot_prod_row k (slice rows (r * k) ((r + 1) * k)) inputs (outputs ! r)
        = apply_matrix_row (slice rows (r * k) ((r + 1) * k)) inputs (outputs ! r)"
    if r: "r < length outputs" and w: "0 < w" "w mod 16 = 0" for r w
  proof -
    have "(r + 1) * k \<le> length outputs * k" using r by (intro mult_le_mono1) simp
    with rows have "(r + 1) * k \<le> length rows" by linarith
    then have row_len: "length (slice rows (r * k) ((r + 1) * k)) = k" by (simp add: slice_def)
    have out: "length (outputs ! r) = n" using eq(2) r by (simp add: equal_lengths_nth)
    note scalar = apply_matrix_row_product [OF len row_len eq(1) out, folded dot_at_def]
    show "x86_dot_prod_row w k (slice rows (r * k) ((r + 1) * k)) inputs (outputs ! r)
        = apply_matrix_row (slice rows (r * k) ((r + 1) * k)) inputs (outputs ! r)"
      by (rule same_row [OF x86_dot_prod_row_product [OF len row_len eq(1) out w] scalar])
    show "neon_dot_prod_row k (slice rows (r * k) ((r + 1) * k)) inputs (outputs ! r)
        = apply_matrix_row (slice rows (r * k) ((r + 1) * k)) inputs (outputs ! r)"
      by (rule same_row [OF neon_dot_prod_row_product [OF len row_len eq(1) out] scalar])
  qed
  show ?thesis
    by (cases b) (auto simp: avx512_apply_matrix_rows_def avx2_apply_matrix_rows_def x86_apply_matrix_rows_def
        neon_apply_matrix_rows_def apply_matrix_rows_scalar_def in_set_enumerate_eq row [simplified]
        row(2) [of _ 16, simplified])
qed

end
