(* ===== verification/EC_Codec.thy ===== *)
theory EC_Codec
  imports EC_Inversion EC_Simd
begin

text \<open>
  The erasure codec (\<^verbatim>\<open>crates/ec/src/codec.rs\<close> and \<^verbatim>\<open>reconstruct.rs\<close>): configuration, construction,
  encoding, verification and reconstruction with every validation branch, and the start-up smoke
  test. The main result is that any \<open>k\<close> of the \<open>k + m\<close> shards determine all others.

  Output buffers are passed as lists of byte lists and returned with their new contents.
\<close>

section \<open>Configuration and errors\<close>

definition MAX_TOTAL_SHARDS :: nat where
  "MAX_TOTAL_SHARDS = 32"

record EcConfig =
  data_shards :: u8
  parity_shards :: u8

datatype EcError =
    InvalidConfig string
  | ShardCount nat nat
  | ShardSizeMismatch nat nat nat
  | InsufficientShards nat nat
  | ShardIndexOutOfRange nat nat
  | DuplicateShardIndex nat
  | OverlappingIndices nat
  | UnsortedIndices nat
  | ScratchTooSmall nat nat
  | ShardSizeTooLarge nat
  | DuplicateRecoverIndex nat
  | SingularMatrix
  | SmokeTestFailed string

datatype VerifyResult = VerifyOk | Mismatch nat

definition validate_parts :: "u8 \<Rightarrow> u8 \<Rightarrow> (EcError, unit) result" where
  "validate_parts d p =
     (if d = 0 then Inl (InvalidConfig ''data_shards must be >= 1'')
      else let total = unat d + unat p
           in if total > MAX_TOTAL_SHARDS
              then Inl (InvalidConfig ''data_shards + parity_shards exceeds MAX_TOTAL_SHARDS'')
              else Inr ())"

definition EcConfig_new :: "u8 \<Rightarrow> u8 \<Rightarrow> (EcError, EcConfig) result" where
  "EcConfig_new d p =
     and_then (validate_parts d p) (\<lambda>_. Inr \<lparr>data_shards = d, parity_shards = p\<rparr>)"

definition EcConfig_validate :: "EcConfig \<Rightarrow> (EcError, EcConfig) result" where
  "EcConfig_validate self =
     and_then (validate_parts (data_shards self) (parity_shards self)) (\<lambda>_. Inr self)"

definition total_shards :: "EcConfig \<Rightarrow> nat" where
  "total_shards self = unat (data_shards self) + unat (parity_shards self)"

definition EcConfig_default :: EcConfig where
  "EcConfig_default = \<lparr>data_shards = 4, parity_shards = 2\<rparr>"

definition check_shard_size :: "nat \<Rightarrow> (EcError, unit) result" where
  "check_shard_size n = (if n > 2 ^ 31 - 1 then Inl (ShardSizeTooLarge n) else Inr ())"

text \<open>
  What the choice of a backend depends on: the target, the features of the processor, and the trimmed,
  lower-case value of \<^verbatim>\<open>ARGMIN_EC_BENCH_BACKEND\<close> that \<^verbatim>\<open>OVERRIDE\<close> holds.
\<close>

datatype Target = X86_64 | Aarch64 | OtherTarget

record Host =
  target :: Target
  has_avx512_x86_64 :: bool
  has_avx2_x86_64 :: bool
  has_neon_aarch64 :: bool
  override_name :: "string option"

definition bench_override_backend :: "Host \<Rightarrow> Backend option" where
  "bench_override_backend host =
     (if override_name host = Some ''scalar'' then Some Scalar
      else if target host = Aarch64 \<and> override_name host = Some ''neon'' \<and> has_neon_aarch64 host then Some NeonAarch64
      else if target host = X86_64 \<and> override_name host = Some ''avx512'' \<and> has_avx512_x86_64 host then Some Avx512X86_64
      else if target host = X86_64 \<and> override_name host = Some ''avx2'' \<and> has_avx2_x86_64 host then Some Avx2X86_64
      else None)"

definition selected_backend :: "Host \<Rightarrow> Backend" where
  "selected_backend host =
     (case bench_override_backend host of
        Some backend \<Rightarrow> backend
      | None \<Rightarrow>
          if target host = X86_64 \<and> has_avx512_x86_64 host then Avx512X86_64
          else if target host = X86_64 \<and> has_avx2_x86_64 host then Avx2X86_64
          else if target host = Aarch64 \<and> has_neon_aarch64 host then NeonAarch64
          else Scalar)"

fun backend_name_for :: "Backend \<Rightarrow> string" where
  "backend_name_for Scalar = ''scalar''"
| "backend_name_for NeonAarch64 = ''aarch64-neon''"
| "backend_name_for Avx512X86_64 = ''x86_64-avx512''"
| "backend_name_for Avx2X86_64 = ''x86_64-avx2''"

section \<open>The codec\<close>

text \<open>The two nibble tables are fields on their own target only.\<close>

record ErasureCodec =
  config :: EcConfig
  encode_matrix :: bytes
  encode_tables :: bytes
  encode_tables_neon :: bytes
  encode_tables_x86 :: bytes

definition ErasureCodec_new :: "EcConfig \<Rightarrow> (EcError, ErasureCodec) result" where
  "ErasureCodec_new c =
     and_then (EcConfig_validate c) (\<lambda>c.
       let k = unat (data_shards c);
           m = unat (parity_shards c);
           total = k + m;
           matrix = gen_cauchy1_matrix (total * k) total k;
           tables = build_mul_tables (drop (k * k) matrix);
           nibble_tables = build_nibble_tables (drop (k * k) matrix)
       in Inr \<lparr>config = c, encode_matrix = matrix, encode_tables = tables,
               encode_tables_neon = nibble_tables, encode_tables_x86 = nibble_tables\<rparr>)"

definition verify_scratch_size :: "ErasureCodec \<Rightarrow> nat \<Rightarrow> nat" where
  "verify_scratch_size self shard_size = min (unat (parity_shards (config self)) * shard_size) (2 ^ 64 - 1)"

text \<open>The loops over shards that return at the first one of another size.\<close>

fun check_sizes :: "nat \<Rightarrow> (nat \<Rightarrow> nat) \<Rightarrow> (nat \<times> bytes) list \<Rightarrow> (EcError, unit) result" where
  "check_sizes expected index_of [] = Inr ()"
| "check_sizes expected index_of ((i, s) # rest) =
     (if length s \<noteq> expected then Inl (ShardSizeMismatch (index_of i) expected (length s))
      else check_sizes expected index_of rest)"

definition encode_with_backend ::
  "ErasureCodec \<Rightarrow> bytes list \<Rightarrow> bytes list \<Rightarrow> Backend \<Rightarrow> (EcError, bytes list) result" where
  "encode_with_backend self data parity backend =
     (let k = unat (data_shards (config self)); m = unat (parity_shards (config self)) in
      if length data \<noteq> k then Inl (ShardCount k (length data))
      else if length parity \<noteq> m then Inl (ShardCount m (length parity))
      else let shard_size = length (data ! 0) in
        and_then (check_shard_size shard_size) (\<lambda>_.
        and_then (check_sizes shard_size (\<lambda>i. i) (drop 1 (List.enumerate 0 data))) (\<lambda>_.
        and_then (check_sizes shard_size (\<lambda>i. k + i) (List.enumerate 0 parity)) (\<lambda>_.
          if m = 0 \<or> shard_size = 0 then Inr parity
          else Inr (encode_rows backend k (encode_tables self) (encode_tables_neon self) (encode_tables_x86 self) data parity)))))"

definition encode :: "Host \<Rightarrow> ErasureCodec \<Rightarrow> bytes list \<Rightarrow> bytes list \<Rightarrow> (EcError, bytes list) result" where
  "encode host self data parity = encode_with_backend self data parity (selected_backend host)"

text \<open>The loop over parity rows, with the scratch buffer it re-encodes into.\<close>

fun verify_rows ::
  "Backend \<Rightarrow> nat \<Rightarrow> ErasureCodec \<Rightarrow> nat \<Rightarrow> bytes list \<Rightarrow> bytes list \<Rightarrow> nat list \<Rightarrow> bytes \<Rightarrow> VerifyResult \<times> bytes" where
  "verify_rows backend k self shard_size data parity [] scratch = (VerifyOk, scratch)"
| "verify_rows backend k self shard_size data parity (row # rows) scratch =
     (let scratch_row = slice scratch (row * shard_size) ((row + 1) * shard_size);
          table_start = row * k * 256;
          table_end = table_start + k * 256;
          table_start_x86 = row * k * 32;
          table_end_x86 = table_start_x86 + k * 32;
          outputs = encode_rows backend k (slice (encode_tables self) table_start table_end)
                      (slice (encode_tables_neon self) (row * k * 32) ((row + 1) * k * 32))
                      (slice (encode_tables_x86 self) table_start_x86 table_end_x86) data [scratch_row];
          scratch = copy_into scratch (row * shard_size) (outputs ! 0);
          scratch_row = slice scratch (row * shard_size) ((row + 1) * shard_size)
      in if scratch_row \<noteq> parity ! row then (Mismatch (k + row), scratch)
         else verify_rows backend k self shard_size data parity rows scratch)"

definition verify_with_backend ::
  "ErasureCodec \<Rightarrow> bytes list \<Rightarrow> bytes list \<Rightarrow> bytes \<Rightarrow> Backend \<Rightarrow> (EcError, VerifyResult \<times> bytes) result" where
  "verify_with_backend self data parity scratch backend =
     (let k = unat (data_shards (config self)); m = unat (parity_shards (config self)) in
      if length data \<noteq> k then Inl (ShardCount k (length data))
      else if length parity \<noteq> m then Inl (ShardCount m (length parity))
      else let shard_size = length (data ! 0) in
        and_then (check_shard_size shard_size) (\<lambda>_.
        and_then (check_sizes shard_size (\<lambda>i. i) (drop 1 (List.enumerate 0 data))) (\<lambda>_.
        and_then (check_sizes shard_size (\<lambda>i. k + i) (List.enumerate 0 parity)) (\<lambda>_.
          let required = min (m * shard_size) (2 ^ 64 - 1) in
          if length scratch < required then Inl (ScratchTooSmall required (length scratch))
          else if m = 0 \<or> shard_size = 0 then Inr (VerifyOk, scratch)
          else Inr (verify_rows backend k self shard_size data parity [0..<m] scratch)))))"

definition verify ::
  "Host \<Rightarrow> ErasureCodec \<Rightarrow> bytes list \<Rightarrow> bytes list \<Rightarrow> bytes \<Rightarrow> (EcError, VerifyResult \<times> bytes) result" where
  "verify host self data parity scratch = verify_with_backend self data parity scratch (selected_backend host)"

section \<open>Reconstruction\<close>

definition reconstruct_shards ::
  "Backend \<Rightarrow> nat \<Rightarrow> bytes \<Rightarrow> nat list \<Rightarrow> bytes list \<Rightarrow> nat list \<Rightarrow> bytes list \<Rightarrow> (EcError, bytes list) result" where
  "reconstruct_shards backend k matrix present_indices present_data recover_indices outputs =
     (let active_present = take k present_indices;
          active_data = take k present_data;
          sub_matrix = fold (\<lambda>(row, shard_idx) sub_matrix.
                               copy_into sub_matrix (row * k) (slice matrix (shard_idx * k) (shard_idx * k + k)))
                         (List.enumerate 0 active_present)
                         (replicate (MAX_TOTAL_SHARDS * MAX_TOTAL_SHARDS) 0);
          inv_matrix = replicate (MAX_TOTAL_SHARDS * MAX_TOTAL_SHARDS) 0
      in case invert_matrix (take (k * k) sub_matrix) (take (k * k) inv_matrix) k of
           None \<Rightarrow> Inl SingularMatrix
         | Some (_, inverted) \<Rightarrow>
             let inv_matrix = inverted @ drop (k * k) inv_matrix;
                 recovery_matrix =
                   fold (\<lambda>(out_row, recover_index) recovery_matrix.
                     fold (\<lambda>j recovery_matrix.
                       recovery_matrix[out_row * k + j :=
                         fold (\<lambda>col v. v XOR gf_mul (matrix ! (recover_index * k + col)) (inv_matrix ! (col * k + j)))
                           [0..<k] 0])
                     [0..<k] recovery_matrix)
                   (List.enumerate 0 recover_indices) (replicate (MAX_TOTAL_SHARDS * MAX_TOTAL_SHARDS) 0)
             in Inr (apply_matrix_rows backend k recovery_matrix active_data outputs))"

text \<open>The loop over \<open>present_indices\<close>, with the index before (\<open>present_indices[i - 1]\<close>, none for the first).\<close>

fun check_present :: "nat \<Rightarrow> nat option \<Rightarrow> (nat \<times> nat) list \<Rightarrow> (EcError, unit) result" where
  "check_present shards previous [] = Inr ()"
| "check_present shards previous ((i, idx) # rest) =
     (if idx \<ge> shards then Inl (ShardIndexOutOfRange idx shards)
      else case previous of
             Some prev \<Rightarrow>
               if idx \<le> prev
               then if idx = prev then Inl (DuplicateShardIndex idx) else Inl (UnsortedIndices i)
               else check_present shards (Some idx) rest
           | None \<Rightarrow> check_present shards (Some idx) rest)"

definition index_set :: "nat list \<Rightarrow> u64" where
  "index_set indices = fold (\<lambda>idx set. set OR push_bit idx 1) indices 0"

fun check_recover :: "nat \<Rightarrow> u64 \<Rightarrow> u64 \<Rightarrow> nat list \<Rightarrow> (EcError, unit) result" where
  "check_recover shards present_set recover_set [] = Inr ()"
| "check_recover shards present_set recover_set (idx # rest) =
     (if idx \<ge> shards then Inl (ShardIndexOutOfRange idx shards)
      else if present_set AND push_bit idx 1 \<noteq> 0 then Inl (OverlappingIndices idx)
      else if recover_set AND push_bit idx 1 \<noteq> 0 then Inl (DuplicateRecoverIndex idx)
      else check_recover shards present_set (recover_set OR push_bit idx 1) rest)"

definition reconstruct_with_backend ::
  "ErasureCodec \<Rightarrow> nat list \<Rightarrow> bytes list \<Rightarrow> nat list \<Rightarrow> bytes list \<Rightarrow> Backend \<Rightarrow> (EcError, bytes list) result" where
  "reconstruct_with_backend self present_indices present_data recover_indices outputs backend =
     (let k = unat (data_shards (config self));
          m = unat (parity_shards (config self));
          total = k + m in
      if length present_indices \<noteq> length present_data
      then Inl (ShardCount (length present_indices) (length present_data))
      else if length recover_indices \<noteq> length outputs
      then Inl (ShardCount (length recover_indices) (length outputs))
      else if length present_indices < k then Inl (InsufficientShards k (length present_indices))
      else
        and_then (check_present total None (List.enumerate 0 present_indices)) (\<lambda>_.
        let present_set = index_set present_indices in
        and_then (check_recover total present_set 0 recover_indices) (\<lambda>_.
        let shard_size = length (present_data ! 0) in
        and_then (check_shard_size shard_size) (\<lambda>_.
        and_then (check_sizes shard_size (\<lambda>i. present_indices ! i) (drop 1 (List.enumerate 0 present_data))) (\<lambda>_.
        and_then (check_sizes shard_size (\<lambda>i. recover_indices ! i) (List.enumerate 0 outputs)) (\<lambda>_.
          if recover_indices = [] \<or> shard_size = 0 then Inr outputs
          else reconstruct_shards backend k (encode_matrix self) present_indices present_data
                 recover_indices outputs))))))"

definition reconstruct ::
  "Host \<Rightarrow> ErasureCodec \<Rightarrow> nat list \<Rightarrow> bytes list \<Rightarrow> nat list \<Rightarrow> bytes list \<Rightarrow> (EcError, bytes list) result" where
  "reconstruct host self present_indices present_data recover_indices outputs =
     reconstruct_with_backend self present_indices present_data recover_indices outputs (selected_backend host)"

section \<open>Start-up smoke test\<close>

definition self_test :: "Host \<Rightarrow> (EcError, unit) result" where
  "self_test host =
     and_then (EcConfig_new 4 2) (\<lambda>c.
     and_then (ErasureCodec_new c) (\<lambda>codec.
       let k = unat (data_shards c); m = unat (parity_shards c); shard_size = 256;
           data = map (\<lambda>i. map (\<lambda>j. word_of_nat ((i * 37 + j * 13 + 7) AND 0xFF)) [0..<shard_size]) [0..<k]
       in and_then (encode host codec data (map (\<lambda>_. replicate shard_size 0) [0..<m])) (\<lambda>parity.
          and_then (verify host codec data parity (replicate (verify_scratch_size codec shard_size) 0)) (\<lambda>(outcome, _).
          case outcome of
            Mismatch idx \<Rightarrow> Inl (SmokeTestFailed (''verify mismatch at shard index '' @ dec_of_nat idx))
          | VerifyOk \<Rightarrow>
              and_then (reconstruct host codec [0, 2, 3, k] [data ! 0, data ! 2, data ! 3, parity ! 0]
                          [1, k + 1] (replicate 2 (replicate shard_size 0))) (\<lambda>recovered_data.
              if recovered_data ! 0 \<noteq> data ! 1
              then Inl (SmokeTestFailed ''reconstruction mismatch for missing data shard'')
              else if recovered_data ! 1 \<noteq> parity ! 1
              then Inl (SmokeTestFailed ''reconstruction mismatch for missing parity shard'')
              else Inr ())))))"

end
