(* ===== verification/EC_Recovery.thy ===== *)
theory EC_Recovery
  imports EC_Codec
begin

text \<open>
  Correctness of the codec. The Cauchy part of the generator matrix makes every choice of \<open>k\<close> of its
  rows regular; an interface locale states that contract and carries the recovery argument, and the
  matrix \<open>gen_cauchy1_matrix\<close> builds is an interpretation of it.
\<close>

section \<open>Cauchy systems have only the trivial solution\<close>

lemma cauchy_pair:
  fixes s s0 a a0 :: "'f::field"
  assumes "s \<noteq> a" and "s0 \<noteq> a"
  shows "(s - a0) * (1 / (s - a)) - (s0 - a0) * (1 / (s0 - a)) = (s - s0) * ((a0 - a) / (s0 - a) / (s - a))"
  using assms by (simp add: field_simps)

lemma cauchy_kernel:
  fixes a b :: "nat \<Rightarrow> 'f::field"
  assumes "finite D" and "finite S" and "inj_on a D" and "inj_on b S"
    and "\<And>d s. d \<in> D \<Longrightarrow> s \<in> S \<Longrightarrow> b s \<noteq> a d" and "card D \<le> card S"
    and "\<And>s. s \<in> S \<Longrightarrow> (\<Sum>d \<in> D. x d / (b s - a d)) = 0"
  shows "\<forall>d \<in> D. x d = 0"
  using assms
proof (induction D arbitrary: S x rule: finite_induct)
  case empty
  then show ?case by simp
next
  case (insert d0 D)
  from insert.prems(5) insert.hyps have "card S \<noteq> 0" by simp
  then obtain s0 where s0: "s0 \<in> S" by fastforce
  let ?E = "\<lambda>s. \<Sum>d \<in> insert d0 D. x d / (b s - a d)"
  define y where "y d = x d * ((a d0 - a d) / (b s0 - a d))" for d
  have "(\<Sum>d \<in> D. y d / (b s - a d)) = 0" if "s \<in> S - {s0}" for s
  proof -
    have ne: "b s \<noteq> b s0" using that s0 insert.prems(3) by (auto dest: inj_onD)
    have "0 = (b s - a d0) * ?E s - (b s0 - a d0) * ?E s0"
      using insert.prems(6) that s0 by simp
    also have "\<dots> = (\<Sum>d \<in> insert d0 D. x d *
        ((b s - a d0) * (1 / (b s - a d)) - (b s0 - a d0) * (1 / (b s0 - a d))))"
      by (simp add: sum_distrib_left sum_subtractf [symmetric] algebra_simps)
    also have "\<dots> = (\<Sum>d \<in> insert d0 D. (b s - b s0) * (y d / (b s - a d)))"
    proof (intro sum.cong refl)
      fix d assume "d \<in> insert d0 D"
      with insert.prems(4) that s0 have "b s \<noteq> a d" "b s0 \<noteq> a d" by auto
      note pair = cauchy_pair [OF this, of "a d0"]
      show "x d * ((b s - a d0) * (1 / (b s - a d)) - (b s0 - a d0) * (1 / (b s0 - a d)))
          = (b s - b s0) * (y d / (b s - a d))"
        unfolding pair by (simp add: y_def)
    qed
    also have "\<dots> = (b s - b s0) * (\<Sum>d \<in> D. y d / (b s - a d))"
      using insert.hyps by (simp add: y_def sum_distrib_left)
    finally show ?thesis using ne by simp
  qed
  then have "\<forall>d \<in> D. y d = 0"
    using insert.prems insert.hyps s0
    by (intro insert.IH [of "S - {s0}"]) (auto simp: inj_on_diff card_Diff_singleton)
  moreover have "(a d0 - a d) / (b s0 - a d) \<noteq> 0" if "d \<in> D" for d
    using that insert.prems(2,4) insert.hyps s0 by (auto dest: inj_onD)
  ultimately have D: "\<forall>d \<in> D. x d = 0" by (auto simp: y_def)
  then have "(\<Sum>d \<in> D. x d / (b s0 - a d)) = 0" by simp
  with insert.prems(6) [OF s0] insert.hyps have "x d0 / (b s0 - a d0) = 0" by simp
  with insert.prems(4) s0 have "x d0 = 0" by auto
  with D show ?case by simp
qed

section \<open>The generator matrix\<close>

lemma offset_loop:
  "fold (\<lambda>col (matrix, offset). (matrix[offset := h col], offset + 1)) [0..<m] (M, start)
     = (cell_loop (\<lambda>c. start + c) (\<lambda>c. start + c) (\<lambda>c _ _. h c) [0..<m] M, start + m)"
  by (induction m) (simp_all add: cell_loop_def)

lemma cauchy_rows:
  assumes "length M = rows * k" and "k \<le> m" and "m \<le> rows"
  shows "\<exists>M'. fold (\<lambda>row (matrix, offset).
                fold (\<lambda>col (matrix, offset). (matrix[offset := h row col], offset + 1)) [0..<k] (matrix, offset))
              [k..<m] (M, k * k) = (M', m * k) \<and> length M' = rows * k \<and>
           (\<forall>i < rows. \<forall>j < k. M' ! (i * k + j) = (if k \<le> i \<and> i < m then h i j else M ! (i * k + j)))"
  using assms(2,3)
proof (induction m rule: nat_induct_at_least)
  case base
  then show ?case using assms(1) by auto
next
  case (Suc m)
  then obtain M' where M': "fold (\<lambda>row (matrix, offset).
        fold (\<lambda>col (matrix, offset). (matrix[offset := h row col], offset + 1)) [0..<k] (matrix, offset))
      [k..<m] (M, k * k) = (M', m * k)" "length M' = rows * k"
    "\<forall>i < rows. \<forall>j < k. M' ! (i * k + j) = (if k \<le> i \<and> i < m then h i j else M ! (i * k + j))"
    by auto
  let ?next = "cell_loop (\<lambda>c. m * k + c) (\<lambda>c. m * k + c) (\<lambda>c _ _. h m c) [0..<k] M'"
  have new: "?next ! (m * k + j) = h m j" if "j < k" for j
    using that Suc.prems M'(2) row_major_less [of m rows _ k] by (subst cell_loop_at) (auto simp: inj_on_def)
  have old: "?next ! (i * k + j) = M' ! (i * k + j)" if "i \<noteq> m" "j < k" for i j
    using that by (subst cell_loop_other) (auto simp: row_major_eq_iff simp del: image_add_atLeastLessThan)
  have "?next ! (i * k + j) = (if k \<le> i \<and> i < Suc m then h i j else M ! (i * k + j))" if "i < rows" "j < k" for i j
    using that new [of j] old [of i j] M'(3) Suc.hyps by (cases "i = m") (auto simp: less_Suc_eq)
  then show ?case using M' Suc.hyps
    by (intro exI [of _ ?next]) (simp add: offset_loop [simplified] add.commute [of k])
qed

lemma diagonal_fill:
  "m \<le> k \<Longrightarrow> k \<le> rows \<Longrightarrow> length xs = rows * k \<Longrightarrow> (\<forall>c < rows * k. xs ! c = 0) \<Longrightarrow>
   length (fold (\<lambda>i xs. xs[i * k + i := 1]) [0..<m] xs) = rows * k \<and>
   (\<forall>i < rows. \<forall>j < k. fold (\<lambda>i xs. xs[i * k + i := 1]) [0..<m] xs ! (i * k + j)
      = (if i = j \<and> i < m then 1 else (0::u8)))"
proof (induction m)
  case 0
  then show ?case by (simp add: row_major_less)
next
  case (Suc m)
  then have "m * k + m < rows * k" by (intro row_major_less) auto
  with Suc show ?case
    by (auto simp: nth_list_update row_major_eq_iff less_Suc_eq)
qed

lemma gen_cauchy1_matrix_entries:
  assumes "k \<le> rows"
  shows "length (gen_cauchy1_matrix (rows * k) rows k) = rows * k \<and>
    (\<forall>i < rows. \<forall>j < k. gen_cauchy1_matrix (rows * k) rows k ! (i * k + j) =
       (if k \<le> i then gf_inv (word_of_nat (i XOR j)) else if i = j then 1 else 0))"
proof -
  let ?diag = "fold (\<lambda>row matrix. matrix[row * k + row := 1]) [0..<k] (replicate (rows * k) (0::u8))"
  have diag: "length ?diag = rows * k"
    "\<forall>i < rows. \<forall>j < k. ?diag ! (i * k + j) = (if i = j \<and> i < k then 1 else 0)"
    using diagonal_fill [of k k rows "replicate (rows * k) 0"] assms by auto
  from cauchy_rows [OF diag(1) assms order_refl, of "\<lambda>row col. gf_inv (word_of_nat (row XOR col))"] diag(2)
  show ?thesis by (auto simp: gen_cauchy1_matrix_def Let_def)
qed


section \<open>Contract of a systematic maximum-distance-separable matrix\<close>

text \<open>The square matrix formed by the rows \<open>P\<close> of a matrix with \<open>k\<close> columns.\<close>

definition rows_of :: "nat \<Rightarrow> bytes \<Rightarrow> nat list \<Rightarrow> bytes" where
  "rows_of k M P = concat (map (\<lambda>i. slice M (i * k) (i * k + k)) P)"

lemma length_slice_row:
  assumes "length M = n * k" and "i < n"
  shows "length (slice M (i * k) (i * k + k)) = k"
proof -
  have "Suc i * k \<le> n * k" using assms(2) by (intro mult_le_mono1) simp
  with assms(1) show ?thesis by (simp add: slice_def)
qed

lemma length_rows_of:
  "length M = n * k \<Longrightarrow> (\<forall>i \<in> set P. i < n) \<Longrightarrow> length (rows_of k M P) = length P * k"
  unfolding rows_of_def
  by (subst length_concat_uniform [where n = k]) (auto simp: length_slice_row [of M n k])

lemma nth_rows_of:
  assumes "length M = n * k" and "\<forall>i \<in> set P. i < n" and "r < length P" and "j < k"
  shows "rows_of k M P ! (r * k + j) = M ! (P ! r * k + j)"
proof -
  from assms have "P ! r * k + j < n * k" by (intro row_major_less) auto
  have "rows_of k M P ! (r * k + j) = slice M (P ! r * k) (P ! r * k + k) ! j"
    unfolding rows_of_def using assms
    by (subst nth_concat_uniform [where n = k]) (auto simp: length_slice_row [of M n k])
  moreover have "P ! r * k \<le> length M" using assms(1) \<open>P ! r * k + j < n * k\<close> by linarith
  ultimately show ?thesis using assms(4) by (simp add: slice_def)
qed

locale mds_matrix =
  fixes k n :: nat and M :: bytes
  assumes mds_length: "length M = n * k"
    and mds_systematic: "i < k \<Longrightarrow> j < k \<Longrightarrow> M ! (i * k + j) = (if i = j then 1 else 0)"
    and mds_regular: "distinct P \<Longrightarrow> length P = k \<Longrightarrow> (\<forall>i \<in> set P. i < n) \<Longrightarrow> regular k (rows_of k M P)"
    and mds_size: "k \<le> n"
begin

text \<open>The shards: row \<open>i\<close> of the matrix times the data.\<close>

definition codeword :: "bytes list \<Rightarrow> bytes list \<Rightarrow> bool" where
  "codeword data shards \<longleftrightarrow>
     (\<forall>i < n. \<forall>p < length (data ! 0). gf_of (shards ! i ! p) = row_dot k M i data p)"

text \<open>
  Whatever \<open>k\<close> shards are at hand, the product of row \<open>t\<close> of the matrix with the inverse of their rows
  yields shard \<open>t\<close>.
\<close>

lemma recover_entry:
  assumes P: "length P = k" "\<forall>i \<in> set P. i < n" and t: "t < n"
    and inv: "left_inverse k B (rows_of k M P)"
    and code: "codeword data shards" and p: "p < length (data ! 0)"
  shows "(\<Sum>j < k. (\<Sum>c < k. gf_of (M ! (t * k + c)) * ent k B c j) * gf_of (shards ! (P ! j) ! p))
       = gf_of (shards ! t ! p)"
proof -
  let ?d = "\<lambda>c. gf_of (data ! c ! p)"
  have shard: "gf_of (shards ! (P ! j) ! p) = (\<Sum>l < k. ent k (rows_of k M P) j l * ?d l)" if "j < k" for j
    using that P code p nth_rows_of [OF mds_length P(2)]
    by (simp add: codeword_def row_dot_def ent_def)
  have data: "(\<Sum>j < k. ent k B c j * gf_of (shards ! (P ! j) ! p)) = ?d c" if "c < k" for c
  proof -
    have "(\<Sum>j < k. ent k B c j * gf_of (shards ! (P ! j) ! p))
        = (\<Sum>j < k. \<Sum>l < k. ent k B c j * ent k (rows_of k M P) j l * ?d l)"
      by (simp add: shard sum_distrib_left mult.assoc)
    also have "\<dots> = (\<Sum>l < k. (\<Sum>j < k. ent k B c j * ent k (rows_of k M P) j l) * ?d l)"
      by (subst sum.swap) (simp add: sum_distrib_right)
    also have "\<dots> = (\<Sum>l < k. if c = l then ?d l else 0)"
      using inv that by (intro sum.cong) (auto simp: left_inverse_def)
    also have "\<dots> = ?d c" using that by (simp add: sum.delta)
    finally show ?thesis .
  qed
  have "(\<Sum>j < k. (\<Sum>c < k. gf_of (M ! (t * k + c)) * ent k B c j) * gf_of (shards ! (P ! j) ! p))
      = (\<Sum>j < k. \<Sum>c < k. gf_of (M ! (t * k + c)) * (ent k B c j * gf_of (shards ! (P ! j) ! p)))"
    by (simp add: sum_distrib_right mult.assoc)
  also have "\<dots> = (\<Sum>c < k. gf_of (M ! (t * k + c)) * (\<Sum>j < k. ent k B c j * gf_of (shards ! (P ! j) ! p)))"
    by (subst sum.swap) (simp add: sum_distrib_left)
  also have "\<dots> = gf_of (shards ! t ! p)"
    using t code p by (simp add: data codeword_def row_dot_def)
  finally show ?thesis .
qed

end


section \<open>The Cauchy matrix meets the contract\<close>

definition gf_point :: "nat \<Rightarrow> gf256" where
  "gf_point i = gf_of (word_of_nat i)"

lemma gf_point_inj: "i < 256 \<Longrightarrow> j < 256 \<Longrightarrow> gf_point i = gf_point j \<longleftrightarrow> i = j"
  by (simp add: gf_point_def word_of_nat_eq_iff take_bit_eq_mod)

lemma gf_point_xor: "gf_of (gf_inv (word_of_nat (i XOR j))) = 1 / (gf_point i - gf_point j)"
  by (simp add: gf_point_def gf_of_simps of_nat_xor_eq gf_minus_eq_plus divide_inverse)

lemma cauchy_rows_regular:
  assumes k: "k \<le> n" and n: "n \<le> MAX_TOTAL_SHARDS"
    and P: "distinct P" "length P = k" "\<forall>i \<in> set P. i < n"
  shows "regular k (rows_of k (gen_cauchy1_matrix (n * k) n k) P)"
  unfolding regular_def
proof (intro allI impI)
  let ?M = "gen_cauchy1_matrix (n * k) n k"
  fix x j assume ker: "in_kernel k (rows_of k ?M P) x" and j: "j < k"
  have len: "length ?M = n * k" and entries: "\<And>i c. i < n \<Longrightarrow> c < k \<Longrightarrow> ?M ! (i * k + c) =
      (if k \<le> i then gf_inv (word_of_nat (i XOR c)) else if i = c then 1 else 0)"
    using gen_cauchy1_matrix_entries [OF k] by auto
  have eqn: "(\<Sum>c < k. gf_of (?M ! (i * k + c)) * x c) = 0" if i: "i \<in> set P" for i
  proof -
    from i P(2) obtain r where "r < k" "P ! r = i" by (metis in_set_conv_nth)
    moreover from this ker have "mvec k (rows_of k ?M P) x r = 0" by (simp add: in_kernel_def)
    ultimately show ?thesis
      using P(2) nth_rows_of [OF len P(3)] by (simp add: mvec_def ent_def)
  qed
  have present: "x i = 0" if "i \<in> set P" "i < k" for i
  proof -
    have "(\<Sum>c < k. gf_of (?M ! (i * k + c)) * x c) = (\<Sum>c < k. if c = i then x i else 0)"
      using that P(3) by (intro sum.cong) (auto simp: entries gf_of_simps)
    with eqn [OF that(1)] that(2) show ?thesis by (simp add: sum.delta)
  qed
  let ?D = "{..<k} - set P" and ?S = "set P - {..<k}"
  have "card ?D = k - card ({..<k} \<inter> set P)" by (simp add: card_Diff_subset_Int)
  moreover have "card ?S = card (set P) - card (set P \<inter> {..<k})" by (simp add: card_Diff_subset_Int)
  ultimately have card: "card ?D \<le> card ?S"
    using P distinct_card [OF P(1)] by (simp add: Int_commute)
  have small: "i < 256" if "i < k \<or> i \<in> set P" for i
    using that k n P(3) by (auto simp: MAX_TOTAL_SHARDS_def dest: bspec)
  have "\<forall>d \<in> ?D. x d = 0"
  proof (rule cauchy_kernel [where b = gf_point and a = gf_point and S = ?S])
    fix s assume s: "s \<in> ?S"
    have "(\<Sum>d \<in> ?D. x d / (gf_point s - gf_point d)) = (\<Sum>c < k. gf_of (?M ! (s * k + c)) * x c)"
      using s P(3) present by (intro sum.mono_neutral_cong_left) (auto simp: entries gf_point_xor)
    with eqn [of s] s show "(\<Sum>d \<in> ?D. x d / (gf_point s - gf_point d)) = 0" by simp
  qed (use card small in \<open>auto simp: inj_on_def gf_point_inj\<close>)
  with present j show "x j = 0" by blast
qed

text \<open>A configuration the codec accepts.\<close>

locale valid_config =
  fixes c :: EcConfig
  assumes config_ok: "EcConfig_validate c = Inr c"
begin

lemma config_bounds:
  "0 < unat (data_shards c)" "total_shards c \<le> MAX_TOTAL_SHARDS"
  using config_ok
  by (auto simp: EcConfig_validate_def validate_parts_def total_shards_def Let_def unat_gt_0 split: if_splits)

end

sublocale valid_config \<subseteq> cauchy: mds_matrix "unat (data_shards c)" "total_shards c"
  "gen_cauchy1_matrix (total_shards c * unat (data_shards c)) (total_shards c) (unat (data_shards c))"
proof
  have le: "unat (data_shards c) \<le> total_shards c" by (simp add: total_shards_def)
  note entries = gen_cauchy1_matrix_entries [OF le]
  show "length (gen_cauchy1_matrix (total_shards c * unat (data_shards c)) (total_shards c) (unat (data_shards c)))
      = total_shards c * unat (data_shards c)" using entries by simp
  show "gen_cauchy1_matrix (total_shards c * unat (data_shards c)) (total_shards c) (unat (data_shards c))
      ! (i * unat (data_shards c) + j) = (if i = j then 1 else 0)"
    if "i < unat (data_shards c)" "j < unat (data_shards c)" for i j
    using that le entries by auto
  show "regular (unat (data_shards c)) (rows_of (unat (data_shards c))
      (gen_cauchy1_matrix (total_shards c * unat (data_shards c)) (total_shards c) (unat (data_shards c))) P)"
    if "distinct P" "length P = unat (data_shards c)" "\<forall>i \<in> set P. i < total_shards c" for P
    using that le config_bounds by (intro cauchy_rows_regular) auto
  show "unat (data_shards c) \<le> total_shards c" by (rule le)
qed

interpretation default_config: valid_config EcConfig_default
  by unfold_locales
    (simp add: EcConfig_default_def EcConfig_validate_def validate_parts_def MAX_TOTAL_SHARDS_def)


section \<open>Validation\<close>

lemma check_sizes_ok_iff: "check_sizes n f xs = Inr u \<longleftrightarrow> (\<forall>s \<in> set (map snd xs). length s = n)"
  by (induction xs) (auto split: if_splits)

lemma check_sizes_outputs:
  "check_sizes n f (List.enumerate i shards) = Inr u \<longleftrightarrow> equal_lengths n shards"
  by (simp add: check_sizes_ok_iff equal_lengths_def del: set_map)

lemma check_sizes_data:
  assumes "0 < length shards" and "length (shards ! 0) = n"
  shows "check_sizes n f (drop (Suc 0) (List.enumerate 0 shards)) = Inr u \<longleftrightarrow> equal_lengths n shards"
proof -
  from assms obtain s rest where "shards = s # rest" by (cases shards) auto
  with assms show ?thesis by (simp add: check_sizes_outputs) (auto simp: equal_lengths_def)
qed

lemma check_present_ok_iff:
  "check_present n prev (List.enumerate i idxs) = Inr u \<longleftrightarrow>
     (\<forall>x \<in> set idxs. x < n) \<and> sorted_wrt (<) idxs \<and>
     (case (prev, idxs) of (Some p, x # _) \<Rightarrow> p < x | _ \<Rightarrow> True)"
proof (induction idxs arbitrary: i prev)
  case Nil
  then show ?case by (simp split: option.splits)
next
  case (Cons x xs)
  have "sorted_wrt (<) (x # xs) \<longleftrightarrow> sorted_wrt (<) xs \<and> (case xs of y # _ \<Rightarrow> x < y | [] \<Rightarrow> True)"
    by (cases xs) (auto dest: less_trans)
  with Cons show ?case by (auto split: option.splits list.splits)
qed

lemma bit_index_set: "n < 64 \<Longrightarrow> bit (index_set idxs) n \<longleftrightarrow> n \<in> set idxs"
proof -
  assume n: "n < 64"
  have "bit (fold (\<lambda>idx set. set OR push_bit idx 1) idxs s) n \<longleftrightarrow> bit (s::u64) n \<or> n \<in> set idxs" for s
    using n by (induction idxs arbitrary: s) (auto simp: bit_or_iff bit_exp_iff)
  then show ?thesis by (simp add: index_set_def)
qed

lemma check_recover_ok_iff:
  assumes "n \<le> 64"
  shows "check_recover n ps rs idxs = Inr u \<longleftrightarrow>
     (\<forall>x \<in> set idxs. x < n \<and> \<not> bit ps x \<and> \<not> bit rs x) \<and> distinct idxs"
proof (induction idxs arbitrary: rs)
  case Nil
  then show ?case by simp
next
  case (Cons x xs)
  have "bit (rs OR push_bit x 1) y \<longleftrightarrow> bit rs y \<or> x = y" if "y < n" for y
    using that assms by (auto simp: bit_or_iff bit_exp_iff)
  then have "(\<forall>y \<in> set xs. y < n \<and> \<not> bit ps y \<and> \<not> bit (rs OR push_bit x 1) y) \<longleftrightarrow>
      (\<forall>y \<in> set xs. y < n \<and> \<not> bit ps y \<and> \<not> bit rs y) \<and> (x < n \<longrightarrow> x \<notin> set xs)"
    by blast
  then show ?case using Cons
    by (auto simp: and_exp_eq_0_iff_not_bit split: if_splits)
qed

section \<open>Encoding\<close>

text \<open>A codec as the constructor returns it.\<close>

locale erasure_codec =
  fixes codec :: ErasureCodec
  assumes codec_new: "ErasureCodec_new (config codec) = Inr codec"

sublocale erasure_codec \<subseteq> valid_config "config codec"
  using codec_new by unfold_locales (auto simp: ErasureCodec_new_def EcConfig_validate_def)

context erasure_codec
begin

abbreviation "k \<equiv> unat (data_shards (config codec))"
abbreviation "m \<equiv> unat (parity_shards (config codec))"
abbreviation "n \<equiv> total_shards (config codec)"

lemma n_eq: "n = k + m"
  by (simp add: total_shards_def)

lemma matrix_eq: "gen_cauchy1_matrix (n * k) n k = encode_matrix codec"
  and tables_eq: "encode_tables codec = build_mul_tables (drop (k * k) (encode_matrix codec))"
  and neon_tables_eq: "encode_tables_neon codec = build_nibble_tables (drop (k * k) (encode_matrix codec))"
  and x86_tables_eq: "encode_tables_x86 codec = build_nibble_tables (drop (k * k) (encode_matrix codec))"
proof -
  from codec_new obtain M where codec: "codec = \<lparr>config = config codec, encode_matrix = M,
      encode_tables = build_mul_tables (drop (k * k) M), encode_tables_neon = build_nibble_tables (drop (k * k) M),
      encode_tables_x86 = build_nibble_tables (drop (k * k) M)\<rparr>" and M: "M = gen_cauchy1_matrix (n * k) n k"
    by (auto simp: ErasureCodec_new_def Let_def total_shards_def EcConfig_validate_def)
  have "encode_matrix codec = M" by (subst codec) simp
  with M show "gen_cauchy1_matrix (n * k) n k = encode_matrix codec" by simp
  from \<open>encode_matrix codec = M\<close>
  show "encode_tables codec = build_mul_tables (drop (k * k) (encode_matrix codec))"
    and "encode_tables_neon codec = build_nibble_tables (drop (k * k) (encode_matrix codec))"
    and "encode_tables_x86 codec = build_nibble_tables (drop (k * k) (encode_matrix codec))"
    by (subst codec, simp)+
qed

lemmas length_matrix = cauchy.mds_length [unfolded matrix_eq]
lemmas matrix_systematic = cauchy.mds_systematic [unfolded matrix_eq]
lemmas matrix_regular = cauchy.mds_regular [unfolded matrix_eq]
lemmas recover_entry_codec = cauchy.recover_entry [unfolded matrix_eq]

lemma codeword_iff:
  "cauchy.codeword data shards \<longleftrightarrow> (\<forall>i < n. \<forall>p < length (data ! 0).
     gf_of (shards ! i ! p) = row_dot k (encode_matrix codec) i data p)"
  unfolding cauchy.codeword_def by (simp only: matrix_eq)

text \<open>The inputs \<open>encode\<close> accepts.\<close>

definition encodable :: "bytes list \<Rightarrow> bytes list \<Rightarrow> bool" where
  "encodable data parity \<longleftrightarrow> length data = k \<and> length parity = m \<and> length (data ! 0) \<le> 2 ^ 31 - 1 \<and>
     equal_lengths (length (data ! 0)) data \<and> equal_lengths (length (data ! 0)) parity"

lemma length_parity_rows: "length (drop (k * k) (encode_matrix codec)) = m * k"
  by (simp add: length_matrix n_eq add_mult_distrib)

lemma encode_rows_any_backend:
  assumes "encodable data parity"
  shows "encode_rows b k (encode_tables codec) (encode_tables_neon codec) (encode_tables_x86 codec) data parity
       = encode_rows_scalar k (encode_tables codec) data parity"
  unfolding tables_eq neon_tables_eq x86_tables_eq using assms length_parity_rows
  by (intro encode_rows_backend) (auto simp: encodable_def)

lemma encode_Inr:
  "encode host codec data parity = Inr out \<longleftrightarrow> encodable data parity \<and>
     out = (if m = 0 \<or> length (data ! 0) = 0 then parity
            else encode_rows_scalar k (encode_tables codec) data parity)"
proof (cases "encodable data parity")
  case True
  note rows = encode_rows_any_backend [OF True, of "selected_backend host"]
  show ?thesis using config_bounds(1) True
    by (auto simp: encode_def encode_with_backend_def Let_def check_shard_size_def rows
        check_sizes_data check_sizes_outputs encodable_def split: if_splits)
next
  case False
  with config_bounds(1) show ?thesis
    by (auto simp: encode_def encode_with_backend_def Let_def check_shard_size_def
        check_sizes_data check_sizes_outputs encodable_def split: if_splits)
qed

lemma systematic_row:
  assumes "i < k"
  shows "row_dot k (encode_matrix codec) i data p = gf_of (data ! i ! p)"
proof -
  have "row_dot k (encode_matrix codec) i data p = (\<Sum>c < k. if i = c then gf_of (data ! c ! p) else 0)"
    unfolding row_dot_def using assms by (intro sum.cong) (auto simp: matrix_systematic gf_of_simps)
  with assms show ?thesis by (simp add: sum.delta)
qed

lemma parity_row:
  "row_dot k (drop (k * k) (encode_matrix codec)) i data p = row_dot k (encode_matrix codec) (k + i) data p"
  by (simp add: row_dot_def length_matrix n_eq add_mult_distrib add.assoc)

lemma encode_codeword:
  assumes "encode host codec data parity = Inr out"
  shows "length out = m" "equal_lengths (length (data ! 0)) out" "cauchy.codeword data (data @ out)"
proof -
  let ?s = "length (data ! 0)"
  from assms have ok: "encodable data parity" and out: "out = (if m = 0 \<or> ?s = 0 then parity
            else encode_rows_scalar k (encode_tables codec) data parity)" by (auto simp: encode_Inr)
  then have len: "length data = k" "length parity = m" and eq: "equal_lengths ?s data" "equal_lengths ?s parity"
    by (auto simp: encodable_def)
  have "length parity * k \<le> length (drop (k * k) (encode_matrix codec))"
    by (simp add: length_matrix n_eq len add_mult_distrib)
  note product = encode_rows_scalar_product [OF len(1) eq this, folded tables_eq]
  show "length out = m" using product len out by simp
  show "equal_lengths ?s out" using product eq out
    by (auto simp: equal_lengths_def in_set_conv_nth)
  show "cauchy.codeword data (data @ out)"
    unfolding codeword_iff
    using product len out by (auto simp: nth_append systematic_row parity_row n_eq)
qed

end

section \<open>Reconstruction\<close>

lemma fold_enumerate:
  "fold (\<lambda>(i, x). F i x) (List.enumerate 0 xs) acc = fold (\<lambda>i. F i (xs ! i)) [0..<length xs] acc"
  using drop_take_enumerate [of xs "length xs" 0] by (simp add: fold_map comp_def)

lemma fold_xor_products:
  "gf_of (fold (\<lambda>c v. v XOR gf_mul (a c) (b c)) [0..<k] 0) = (\<Sum>c < k. gf_of (a c) * gf_of (b c))"
  by (induction k) (simp_all add: gf_of_simps)

context erasure_codec
begin

definition recovery_rows :: "bytes \<Rightarrow> nat list \<Rightarrow> bytes" where
  "recovery_rows inverted recover =
     grid_loop k (\<lambda>r j. fold (\<lambda>col v. v XOR gf_mul (encode_matrix codec ! (recover ! r * k + col))
        (inverted ! (col * k + j))) [0..<k] 0) (length recover)
       (replicate (MAX_TOTAL_SHARDS * MAX_TOTAL_SHARDS) 0)"

lemma k_bound: "k \<le> MAX_TOTAL_SHARDS"
  using config_bounds(2) by (simp add: n_eq)

lemma length_recover_bound:
  assumes "distinct xs" and "\<forall>i \<in> set xs. i < n"
  shows "length xs \<le> MAX_TOTAL_SHARDS"
proof -
  from assms(2) have "card (set xs) \<le> card {..<n}" by (intro card_mono) auto
  with assms(1) config_bounds(2) show ?thesis by (simp add: distinct_card)
qed

lemma sub_matrix_rows:
  assumes "length P = k" and "\<forall>i \<in> set P. i < n"
  shows "take (k * k) (fold (\<lambda>(row, idx) sub.
      copy_into sub (row * k) (slice (encode_matrix codec) (idx * k) (idx * k + k)))
      (List.enumerate 0 P) (replicate (MAX_TOTAL_SHARDS * MAX_TOTAL_SHARDS) 0)) = rows_of k (encode_matrix codec) P"
proof -
  have "length P * k \<le> MAX_TOTAL_SHARDS * MAX_TOTAL_SHARDS"
    using assms(1) k_bound by (simp add: mult_le_mono)
  with assms copy_rows_fill [of P "\<lambda>idx. slice (encode_matrix codec) (idx * k) (idx * k + k)" k 0]
  show ?thesis using length_rows_of [OF length_matrix assms(2)]
    by (simp add: length_slice_row [OF length_matrix] rows_of_def)
qed

text \<open>With \<open>k\<close> or more distinct shards at hand, the matrix of their rows is inverted.\<close>

lemma reconstruct_shards_rows:
  assumes P: "distinct present" "\<forall>i \<in> set present. i < n" "k \<le> length present"
    and R: "distinct recover" "\<forall>i \<in> set recover. i < n"
  obtains inverted where "left_inverse k inverted (rows_of k (encode_matrix codec) (take k present))"
    and "reconstruct_shards b k (encode_matrix codec) present datas recover outputs
      = Inr (apply_matrix_rows b k (recovery_rows inverted recover) (take k datas) outputs)"
proof -
  let ?P = "take k present" and ?Z = "replicate (MAX_TOTAL_SHARDS * MAX_TOTAL_SHARDS) (0::u8)"
  from P have len: "length ?P = k" and range: "\<forall>i \<in> set ?P. i < n" and dist: "distinct ?P"
    by (auto dest: in_set_takeD)
  have kk: "k * k \<le> MAX_TOTAL_SHARDS * MAX_TOTAL_SHARDS" using k_bound by (simp add: mult_le_mono)
  then have "length (take (k * k) ?Z) = k * k" by simp
  moreover have "length (rows_of k (encode_matrix codec) ?P) = k * k"
    using length_rows_of [OF length_matrix range] len by simp
  ultimately obtain I Q where inv: "invert_matrix (rows_of k (encode_matrix codec) ?P) (take (k * k) ?Z) k = Some (I, Q)"
    and Q: "length Q = k * k" "left_inverse k Q (rows_of k (encode_matrix codec) ?P)"
    using invert_matrix_spec [of "rows_of k (encode_matrix codec) ?P" k "take (k * k) ?Z"]
      matrix_regular [OF dist len range]
    by (auto split: option.splits)
  have entry: "(Q @ drop (k * k) ?Z) ! (c * k + j) = Q ! (c * k + j)" if "c < k" "j < k" for c j
    using that Q(1) row_major_less [of c k j k] by (simp add: nth_append)
  have cell: "fold (\<lambda>col v. v XOR gf_mul (g col) ((Q @ drop (k * k) ?Z) ! (col * k + j))) [0..<k] 0
      = fold (\<lambda>col v. v XOR gf_mul (g col) (Q ! (col * k + j))) [0..<k] 0" if "j < k" for g j
    using that entry by (intro fold_cong refl) (auto simp del: drop_replicate)
  have "fold (\<lambda>r. fold (\<lambda>j rm. rm[r * k + j := fold (\<lambda>col v. v XOR
         gf_mul (encode_matrix codec ! (recover ! r * k + col)) ((Q @ drop (k * k) ?Z) ! (col * k + j))) [0..<k] 0])
       [0..<k]) [0..<length recover] ?Z = recovery_rows Q recover"
    unfolding recovery_rows_def grid_loop_def
    by (intro fold_cong refl ext) (auto simp: cell simp del: drop_replicate)
  then have "reconstruct_shards b k (encode_matrix codec) present datas recover outputs
      = Inr (apply_matrix_rows b k (recovery_rows Q recover) (take k datas) outputs)"
    unfolding reconstruct_shards_def Let_def sub_matrix_rows [OF len range] inv
    by (simp add: fold_enumerate)
  with Q(2) that show ?thesis by blast
qed

text \<open>A set of shards that carry one codeword.\<close>

definition coded :: "bytes list \<Rightarrow> bytes list \<Rightarrow> bool" where
  "coded data shards \<longleftrightarrow> length shards = n \<and> equal_lengths (length (data ! 0)) shards \<and> cauchy.codeword data shards"

lemma encode_coded: "encode host codec data parity = Inr out \<Longrightarrow> coded data (data @ out)"
  using encode_codeword [of host data parity out] encode_Inr [of host data parity out]
  by (auto simp: coded_def n_eq encodable_def equal_lengths_def)

lemma recovered_shards:
  assumes P: "\<forall>i \<in> set present. i < n" "k \<le> length present"
    and R: "distinct recover" "\<forall>i \<in> set recover. i < n"
    and inv: "left_inverse k Q (rows_of k (encode_matrix codec) (take k present))"
    and code: "coded data shards"
    and out: "length outputs = length recover" "equal_lengths (length (data ! 0)) outputs"
  shows "apply_matrix_rows b k (recovery_rows Q recover) (take k (map ((!) shards) present)) outputs
      = map ((!) shards) recover"
proof -
  let ?P = "take k present" and ?s = "length (data ! 0)"
  let ?in = "take k (map ((!) shards) present)" and ?rr = "recovery_rows Q recover"
  let ?out = "apply_matrix_rows_scalar k ?rr ?in outputs"
  from P have len: "length ?P = k" and range: "\<forall>i \<in> set ?P. i < n" by (auto dest: in_set_takeD)
  have "length recover * k \<le> MAX_TOTAL_SHARDS * MAX_TOTAL_SHARDS"
    using k_bound length_recover_bound [OF R] by (simp add: mult_le_mono)
  then have rr: "length outputs * k \<le> length ?rr"
    and cell: "\<And>r j. r < length recover \<Longrightarrow> j < k \<Longrightarrow> gf_of (?rr ! (r * k + j)) =
      (\<Sum>c < k. gf_of (encode_matrix codec ! (recover ! r * k + c)) * ent k Q c j)"
    by (simp_all add: recovery_rows_def nth_grid_loop fold_xor_products ent_def out)
  have "length ?in = k" "equal_lengths ?s ?in"
    using P code by (auto simp: coded_def equal_lengths_def dest!: in_set_takeD)
  note product = apply_matrix_rows_scalar_product [OF this out(2) rr]
    and backend = apply_matrix_rows_backend [OF this out(2) rr]
  show ?thesis unfolding backend
  proof (rule nth_equalityI)
    fix r assume "r < length ?out"
    with product out have r: "r < length recover" by simp
    then have t: "recover ! r < n" using R(2) by simp
    have "?out ! r ! p = shards ! (recover ! r) ! p" if p: "p < ?s" for p
    proof -
      have "gf_of (?out ! r ! p) = (\<Sum>j < k. gf_of (?rr ! (r * k + j)) * gf_of (?in ! j ! p))"
        using product r p out by (simp add: row_dot_def)
      also have "\<dots> = (\<Sum>j < k. (\<Sum>c < k. gf_of (encode_matrix codec ! (recover ! r * k + c)) * ent k Q c j)
          * gf_of (shards ! (?P ! j) ! p))"
        using r P(2) by (intro sum.cong) (simp_all add: cell)
      also have "\<dots> = gf_of (shards ! (recover ! r) ! p)"
        using code p by (intro recover_entry_codec [OF len range t inv]) (auto simp: coded_def matrix_eq)
      finally show ?thesis by (simp add: gf_of_eq_iff)
    qed
    moreover have "length (?out ! r) = ?s" "length (shards ! (recover ! r)) = ?s"
      using product r out t code by (simp_all add: coded_def equal_lengths_nth)
    ultimately have "?out ! r = shards ! (recover ! r)" by (intro nth_equalityI) auto
    with r show "?out ! r = map ((!) shards) recover ! r" by simp
  qed (use product out in simp)
qed

text \<open>The inputs \<open>reconstruct\<close> accepts.\<close>

definition recoverable :: "nat list \<Rightarrow> bytes list \<Rightarrow> nat list \<Rightarrow> bytes list \<Rightarrow> bool" where
  "recoverable present datas recover outputs \<longleftrightarrow>
     length present = length datas \<and> length recover = length outputs \<and> k \<le> length present \<and>
     (\<forall>i \<in> set present. i < n) \<and> sorted_wrt (<) present \<and>
     (\<forall>i \<in> set recover. i < n \<and> i \<notin> set present) \<and> distinct recover \<and>
     length (datas ! 0) \<le> 2 ^ 31 - 1 \<and>
     equal_lengths (length (datas ! 0)) datas \<and> equal_lengths (length (datas ! 0)) outputs"

lemma reconstruct_Inr:
  "reconstruct host codec present datas recover outputs = Inr out \<longleftrightarrow>
     recoverable present datas recover outputs \<and>
     (if recover = [] \<or> length (datas ! 0) = 0 then Inr outputs
      else reconstruct_shards (selected_backend host) k (encode_matrix codec) present datas recover outputs) = Inr out"
proof (cases "length present = length datas \<and> length recover = length outputs \<and> k \<le> length present")
  case True
  have n64: "n \<le> 64" using config_bounds(2) by (simp add: MAX_TOTAL_SHARDS_def)
  have "(\<forall>x \<in> set recover. x < n \<and> \<not> bit (index_set present) x) \<longleftrightarrow>
      (\<forall>x \<in> set recover. x < n \<and> x \<notin> set present)"
    using n64 by (auto simp: bit_index_set)
  then have rec: "check_recover (k + m) (index_set present) 0 recover = Inr u \<longleftrightarrow>
      (\<forall>x \<in> set recover. x < n \<and> x \<notin> set present) \<and> distinct recover" for u
    using check_recover_ok_iff [OF n64, of "index_set present" 0 recover u] by (simp add: n_eq)
  have "0 < length datas" using True config_bounds(1) by linarith
  note sizes = check_sizes_data [OF this refl]
  show ?thesis using True
    by (auto simp: reconstruct_def reconstruct_with_backend_def Let_def rec sizes
        check_shard_size_def check_present_ok_iff check_sizes_outputs recoverable_def n_eq)
next
  case False
  then show ?thesis
    by (auto simp: reconstruct_def reconstruct_with_backend_def Let_def recoverable_def)
qed

text \<open>Whatever the accepted input, the recovery matrix exists.\<close>

lemma reconstruct_succeeds:
  assumes "recoverable present datas recover outputs"
  shows "\<exists>out. reconstruct host codec present datas recover outputs = Inr out"
proof -
  from assms have "distinct present" "\<forall>i \<in> set present. i < n" "k \<le> length present"
    "distinct recover" "\<forall>i \<in> set recover. i < n"
    by (auto simp: recoverable_def strict_sorted_iff)
  then obtain out where "reconstruct_shards (selected_backend host) k (encode_matrix codec) present datas recover outputs = Inr out"
    using reconstruct_shards_rows by metis
  with assms show ?thesis by (auto simp: reconstruct_Inr)
qed

lemma reconstruct_coded:
  assumes ok: "recoverable present (map ((!) shards) present) recover outputs"
    and code: "coded data shards"
  shows "reconstruct host codec present (map ((!) shards) present) recover outputs = Inr (map ((!) shards) recover)"
proof -
  let ?s = "length (data ! 0)" and ?in = "map ((!) shards) present" and ?b = "selected_backend host"
  from ok have P: "distinct present" "\<forall>i \<in> set present. i < n" "k \<le> length present"
    and R: "distinct recover" "\<forall>i \<in> set recover. i < n"
    by (auto simp: recoverable_def strict_sorted_iff)
  have "0 < length present" using P(3) config_bounds(1) by linarith
  moreover from this P(2) have "present ! 0 < n" by simp
  ultimately have s: "length (?in ! 0) = ?s" using code by (simp add: coded_def equal_lengths_nth)
  have out: "length outputs = length recover" "equal_lengths ?s outputs"
    using ok s by (auto simp: recoverable_def)
  have shard: "length (shards ! i) = ?s" if "i < n" for i
    using that code by (simp add: coded_def equal_lengths_nth)
  show ?thesis
  proof (cases "recover = [] \<or> ?s = 0")
    case True
    then have "outputs = map ((!) shards) recover"
      using out R(2) shard by (intro nth_equalityI) (auto simp: equal_lengths_nth)
    with True ok s show ?thesis by (auto simp: reconstruct_Inr)
  next
    case False
    obtain Q where "left_inverse k Q (rows_of k (encode_matrix codec) (take k present))"
      and "reconstruct_shards (selected_backend host) k (encode_matrix codec) present ?in recover outputs
        = Inr (apply_matrix_rows ?b k (recovery_rows Q recover) (take k ?in) outputs)"
      by (rule reconstruct_shards_rows [OF P R])
    with recovered_shards [OF P(2,3) R _ code out, of Q ?b] False ok s show ?thesis
      by (simp add: reconstruct_Inr)
  qed
qed

end

section \<open>Verification\<close>

lemma take_concat_uniform:
  "(\<And>x. length (f x) = w) \<Longrightarrow> take (i * w) (concat (map f xs)) = concat (map f (take i xs))"
proof (induction xs arbitrary: i)
  case (Cons x xs)
  then show ?case by (cases i) simp_all
qed simp

lemma drop_concat_uniform:
  "(\<And>x. length (f x) = w) \<Longrightarrow> drop (i * w) (concat (map f xs)) = concat (map f (drop i xs))"
proof (induction xs arbitrary: i)
  case (Cons x xs)
  then show ?case by (cases i) simp_all
qed simp

lemma slice_build_mul_tables:
  "slice (build_mul_tables cs) (a * 256) (a * 256 + b * 256) = build_mul_tables (slice cs a (a + b))"
  by (simp add: slice_def build_mul_tables_concat take_concat_uniform drop_concat_uniform)

lemma slice_build_nibble_tables:
  "slice (build_nibble_tables cs) (a * 32) (a * 32 + b * 32) = build_nibble_tables (slice cs a (a + b))"
  using length_nibble_table [OF build_nibble_table_of]
  by (simp add: slice_def build_nibble_tables_concat take_concat_uniform drop_concat_uniform)

lemma slice_copy_into:
  "start + length src \<le> length dst \<Longrightarrow> slice (copy_into dst start src) start (start + length src) = src"
  by (simp add: slice_def copy_into_def)

lemma length_copy_into: "start + length src \<le> length dst \<Longrightarrow> length (copy_into dst start src) = length dst"
  by (simp add: copy_into_def)

context erasure_codec
begin

lemma reencoded_row:
  assumes ok: "encodable data parity" and s: "length (data ! 0) \<noteq> 0" and row: "row < m"
    and scratch: "length scratch_row = length (data ! 0)"
  shows "encode_rows b k (slice (encode_tables codec) (row * k * 256) (row * k * 256 + k * 256))
        (slice (encode_tables_neon codec) (row * k * 32) ((row + 1) * k * 32))
        (slice (encode_tables_x86 codec) (row * k * 32) (row * k * 32 + k * 32)) data [scratch_row] ! 0
       = encode_rows_scalar k (encode_tables codec) data parity ! row"
    (is "?l = ?r")
proof -
  let ?s = "length (data ! 0)" and ?M = "drop (k * k) (encode_matrix codec)"
  let ?R = "slice ?M (row * k) (row * k + k)"
  from ok have len: "length data = k" "length parity = m" and eq: "equal_lengths ?s data" "equal_lengths ?s parity"
    by (auto simp: encodable_def)
  note M = length_parity_rows
  have le: "row * k + k \<le> m * k" using row mult_le_mono1 [of "Suc row" m k] by simp
  have "(row + 1) * k * 32 = row * k * 32 + k * 32" by simp
  then have tables: "slice (encode_tables codec) (row * k * 256) (row * k * 256 + k * 256) = build_mul_tables ?R"
      "slice (encode_tables_neon codec) (row * k * 32) ((row + 1) * k * 32) = build_nibble_tables ?R"
      "slice (encode_tables_x86 codec) (row * k * 32) (row * k * 32 + k * 32) = build_nibble_tables ?R"
    unfolding tables_eq neon_tables_eq x86_tables_eq
    by (simp_all only: slice_build_mul_tables slice_build_nibble_tables)
  have R: "length [scratch_row] * k \<le> length ?R" "equal_lengths ?s [scratch_row]"
    using scratch le M by (simp_all add: equal_lengths_def slice_def)
  note backend = encode_rows_backend [OF len(1) eq(1) R(2,1)]
  have l: "length ?l = ?s" "\<And>p. p < ?s \<Longrightarrow> gf_of (?l ! p) = row_dot k ?R 0 data p"
    using encode_rows_scalar_product [OF len(1) eq(1) R(2,1)] unfolding tables backend by simp_all
  have r: "length ?r = ?s" "\<And>p. p < ?s \<Longrightarrow> gf_of (?r ! p) = row_dot k ?M row data p"
    using encode_rows_scalar_product [OF len(1) eq, of ?M] M len(2) row unfolding tables_eq by simp_all
  have "row_dot k ?R 0 data p = row_dot k ?M row data p" for p
    using le M by (simp add: row_dot_def slice_def) (simp add: ac_simps)
  with l r show ?thesis by (intro nth_equalityI) (auto simp: gf_of_eq_iff [symmetric])
qed

lemma verify_rows_find:
  assumes ok: "encodable data parity" and s: "length (data ! 0) \<noteq> 0"
    and "\<forall>row \<in> set rows. row < m" and "m * length (data ! 0) \<le> length scratch"
  shows "fst (verify_rows b k codec (length (data ! 0)) data parity rows scratch) =
    (case find (\<lambda>row. encode_rows_scalar k (encode_tables codec) data parity ! row \<noteq> parity ! row) rows of
       None \<Rightarrow> VerifyOk | Some row \<Rightarrow> Mismatch (k + row))"
  using assms(3,4)
proof (induction rows arbitrary: scratch)
  case Nil
  then show ?case by simp
next
  case (Cons row rows)
  let ?s = "length (data ! 0)" and ?E = "encode_rows_scalar k (encode_tables codec) data parity ! row"
  from Cons.prems have row: "row < m" by simp
  have le: "row * ?s + ?s \<le> length scratch"
    using Cons.prems(2) row mult_le_mono1 [of "Suc row" m ?s] by simp
  have out: "encode_rows b k (slice (encode_tables codec) (row * k * 256) (row * k * 256 + k * 256))
      (slice (encode_tables_neon codec) (row * k * 32) ((row + 1) * k * 32))
      (slice (encode_tables_x86 codec) (row * k * 32) (row * k * 32 + k * 32)) data [slice scratch (row * ?s) ((row + 1) * ?s)] ! 0 = ?E"
    using le by (intro reencoded_row [OF ok s row]) (simp add: slice_def)
  have "length ?E = ?s"
    using encode_codeword [of _ data parity] encode_Inr ok row s by (metis (no_types, lifting) equal_lengths_nth not_less_zero)
  then have "slice (copy_into scratch (row * ?s) ?E) (row * ?s) ((row + 1) * ?s) = ?E"
    and "length (copy_into scratch (row * ?s) ?E) = length scratch"
    using le slice_copy_into [of "row * ?s" ?E scratch] by (simp_all add: length_copy_into add.commute)
  with out Cons show ?case by (auto simp: Let_def)
qed

text \<open>\<open>verify\<close> compares the parity with what \<open>encode\<close> would have written, and reports the first row that differs.\<close>

lemma verify_encode:
  assumes enc: "encode host codec data parity = Inr out"
    and scratch: "min (m * length (data ! 0)) (2 ^ 64 - 1) \<le> length scratch" "m * length (data ! 0) < 2 ^ 64"
  shows "\<exists>scratch'. verify host codec data parity scratch = Inr
    (case find (\<lambda>row. out ! row \<noteq> parity ! row) [0..<m] of
       None \<Rightarrow> VerifyOk | Some row \<Rightarrow> Mismatch (k + row), scratch')"
proof -
  from enc have ok: "encodable data parity" and out: "out = (if m = 0 \<or> length (data ! 0) = 0 then parity
            else encode_rows_scalar k (encode_tables codec) data parity)" by (auto simp: encode_Inr)
  have checks: "check_sizes (length (data ! 0)) (\<lambda>i. i) (drop (Suc 0) (List.enumerate 0 data)) = Inr ()"
    "check_sizes (length (data ! 0)) (\<lambda>i. k + i) (List.enumerate 0 parity) = Inr ()"
    using ok config_bounds(1) by (simp_all add: check_sizes_data check_sizes_outputs encodable_def)
  have same: "find (\<lambda>row. parity ! row \<noteq> parity ! row) xs = None" for xs :: "nat list"
    by (simp add: find_None_iff)
  show ?thesis
  proof (cases "m = 0 \<or> length (data ! 0) = 0")
    case True
    with ok checks scratch out same show ?thesis
      by (auto simp: verify_def verify_with_backend_def Let_def encodable_def check_shard_size_def)
  next
    case False
    then have "fst (verify_rows (selected_backend host) k codec (length (data ! 0)) data parity [0..<m] scratch) =
        (case find (\<lambda>row. out ! row \<noteq> parity ! row) [0..<m] of None \<Rightarrow> VerifyOk | Some row \<Rightarrow> Mismatch (k + row))"
      using verify_rows_find [OF ok, of "[0..<m]" scratch] scratch out by simp
    with False ok checks scratch show ?thesis
      by (intro exI [where x = "snd (verify_rows (selected_backend host) k codec (length (data ! 0)) data parity [0..<m] scratch)"])
        (auto simp: verify_def verify_with_backend_def Let_def encodable_def check_shard_size_def prod_eq_iff)
  qed
qed

lemma encode_overwrites:
  assumes "encode host codec data parity = Inr out" and "encode host codec data parity' = Inr out'"
  shows "out = out'"
proof (rule nth_equalityI)
  note one = encode_codeword [OF assms(1)] and two = encode_codeword [OF assms(2)]
  show "length out = length out'" using one two by simp
  fix i assume "i < length out"
  then have i: "i < m" using one by simp
  have len: "length data = k" using assms(1) by (simp add: encode_Inr encodable_def)
  have "gf_of (out ! i ! p) = gf_of (out' ! i ! p)" if "p < length (data ! 0)" for p
  proof -
    have "gf_of (xs ! i ! p) = row_dot k (encode_matrix codec) (k + i) data p"
      if "cauchy.codeword data (data @ xs)" for xs
      using codeword_iff [THEN iffD1, OF that, rule_format, of "k + i" p] \<open>p < length (data ! 0)\<close> i len
      by (simp add: n_eq nth_append)
    with one(3) two(3) show ?thesis by simp
  qed
  then show "out ! i = out' ! i"
    using one(1,2) two(1,2) i by (intro nth_equalityI) (auto simp: equal_lengths_nth gf_of_eq_iff)
qed

lemma encode_again: "encode host codec data parity = Inr out \<Longrightarrow> encode host codec data out = Inr out"
proof -
  assume enc: "encode host codec data parity = Inr out"
  then have "encodable data out" using encode_codeword [OF enc] by (simp add: encode_Inr encodable_def)
  then obtain out' where "encode host codec data out = Inr out'" by (metis encode_Inr)
  with encode_overwrites [OF enc this] show ?thesis by simp
qed

lemma verify_encoded:
  assumes "encode host codec data parity = Inr out" and "m * length (data ! 0) \<le> length scratch"
    and "m * length (data ! 0) < 2 ^ 64"
  shows "\<exists>scratch'. verify host codec data out scratch = Inr (VerifyOk, scratch')"
  using verify_encode [OF encode_again [OF assms(1)], of scratch] assms(2,3)
  by (simp add: find_None_iff [THEN iffD2])

lemma check_sizes_not_singular: "check_sizes s f xs \<noteq> Inl SingularMatrix"
  by (induction s f xs rule: check_sizes.induct) auto

lemma check_present_not_singular: "check_present t prev xs \<noteq> Inl SingularMatrix"
  by (induction t prev xs rule: check_present.induct) (auto split: option.splits)

lemma check_recover_not_singular: "check_recover t ps rs xs \<noteq> Inl SingularMatrix"
  by (induction t ps rs xs rule: check_recover.induct) auto

lemma reconstruct_not_singular: "reconstruct host codec present datas recover outputs \<noteq> Inl SingularMatrix"
proof
  assume "reconstruct host codec present datas recover outputs = Inl SingularMatrix"
  then have "k \<le> length present" and pres: "check_present n None (List.enumerate 0 present) = Inr ()"
    and rec: "check_recover n (index_set present) 0 recover = Inr ()"
    and sing: "reconstruct_shards (selected_backend host) k (encode_matrix codec) present datas recover outputs = Inl SingularMatrix"
    by (auto simp: reconstruct_def reconstruct_with_backend_def Let_def and_then_Inl_iff
        check_sizes_not_singular check_present_not_singular check_recover_not_singular check_shard_size_def n_eq
        split: if_splits)
  moreover have "n \<le> 64" using config_bounds(2) by (simp add: MAX_TOTAL_SHARDS_def)
  ultimately have "distinct present" "\<forall>i \<in> set present. i < n" "k \<le> length present"
    "distinct recover" "\<forall>i \<in> set recover. i < n"
    by (auto simp: check_present_ok_iff check_recover_ok_iff strict_sorted_iff)
  then obtain out where "reconstruct_shards (selected_backend host) k (encode_matrix codec) present datas recover outputs = Inr out"
    using reconstruct_shards_rows by metis
  with sing show False by simp
qed

end

definition default_codec :: ErasureCodec where
  "default_codec = projr (ErasureCodec_new EcConfig_default)"

lemma ErasureCodec_new_config: "ErasureCodec_new c = Inr codec \<Longrightarrow> config codec = c"
  by (auto simp: ErasureCodec_new_def Let_def EcConfig_validate_def)

lemma ErasureCodec_new_erasure_codec: "ErasureCodec_new c = Inr codec \<Longrightarrow> erasure_codec codec"
  by (simp add: ErasureCodec_new_config erasure_codec_def)

lemma default_codec_new: "ErasureCodec_new EcConfig_default = Inr default_codec"
  by (simp add: default_codec_def ErasureCodec_new_def default_config.config_ok Let_def)

interpretation standard: erasure_codec default_codec
  by (rule ErasureCodec_new_erasure_codec [OF default_codec_new])

lemma default_codec_config: "config default_codec = EcConfig_default"
  by (rule ErasureCodec_new_config [OF default_codec_new])

lemma default_codec_shape [simp]:
  "unat (data_shards (config default_codec)) = 4" "unat (parity_shards (config default_codec)) = 2"
  "total_shards (config default_codec) = 6"
  by (simp_all add: default_codec_config EcConfig_default_def total_shards_def)

end
