(* ===== verification/EC_Properties.thy ===== *)
theory EC_Properties
  imports EC_Recovery
begin

text \<open>
  What the erasure codec (\<^verbatim>\<open>crates/ec\<close>) promises its callers: any \<open>k\<close> shards recover all others, the
  recovery matrix always exists, verification reports exactly the first parity row that differs from the
  encoding, the accepted inputs, and that the start-up smoke test passes.
\<close>

text \<open>A host to run the witnesses on.\<close>

definition host0 :: Host where
  "host0 = \<lparr>target = X86_64, has_avx512_x86_64 = False, has_avx2_x86_64 = True, has_neon_aarch64 = False,
            override_name = None\<rparr>"

lemma reconstructible:
  assumes "ErasureCodec_new c = Inr codec" and "encode host codec data buffers = Inr parity"
    and "sorted_wrt (<) present" and "\<forall>i \<in> set present. i < total_shards c"
    and "unat (data_shards c) \<le> length present"
    and "distinct recover" and "\<forall>i \<in> set recover. i < total_shards c \<and> i \<notin> set present"
    and "length outputs = length recover" and "\<forall>out \<in> set outputs. length out = length (data ! 0)"
  shows "erasure_codec.recoverable codec present (map ((!) (data @ parity)) present) recover outputs"
proof -
  note codec = ErasureCodec_new_erasure_codec [OF assms(1)] ErasureCodec_new_config [OF assms(1)]
  let ?shards = "data @ parity"
  have shard: "length (?shards ! i) = length (data ! 0)" if "i < total_shards c" for i
    using that erasure_codec.encode_coded [OF codec(1) assms(2)]
    by (simp add: erasure_codec.coded_def [OF codec(1)] codec(2) equal_lengths_nth)
  have size: "length (data ! 0) \<le> 2 ^ 31 - 1"
    using assms(2) by (simp add: erasure_codec.encode_Inr [OF codec(1)] erasure_codec.encodable_def [OF codec(1)])
  have "0 < unat (data_shards c)"
    using valid_config.config_bounds(1) assms(1)
    by (auto simp: ErasureCodec_new_def EcConfig_validate_def valid_config_def)
  then have "0 < length present" using assms(5) by linarith
  with assms(4) have "length (map ((!) ?shards) present ! 0) = length (data ! 0)" by (simp add: shard)
  then show ?thesis
    using assms(3-) size by (auto simp: erasure_codec.recoverable_def [OF codec(1)] codec(2) equal_lengths_def shard)
qed

text \<open>
  C1. Reconstruction: whichever \<open>k\<close> or more of the \<open>k + m\<close> shards are at hand, in increasing order of
  index, \<open>reconstruct\<close> writes exactly the requested missing shards, data or parity.
\<close>

theorem reconstruct_recovers_shards:
  assumes "ErasureCodec_new c = Inr codec" and "encode host codec data buffers = Inr parity"
    and "shards = data @ parity"
    and "sorted_wrt (<) present" and "\<forall>i \<in> set present. i < total_shards c"
    and "unat (data_shards c) \<le> length present"
    and "distinct recover" and "\<forall>i \<in> set recover. i < total_shards c \<and> i \<notin> set present"
    and "length outputs = length recover" and "\<forall>out \<in> set outputs. length out = length (data ! 0)"
  shows "reconstruct host codec present (map ((!) shards) present) recover outputs = Inr (map ((!) shards) recover)"
  using erasure_codec.reconstruct_coded [OF ErasureCodec_new_erasure_codec [OF assms(1)]
      reconstructible [OF assms(1,2,4-)] erasure_codec.encode_coded [OF _ assms(2)]]
    ErasureCodec_new_erasure_codec [OF assms(1)]
  unfolding assms(3) by blast

text \<open>
  Four data and two parity shards: shards 1 and 4 are lost and rebuilt from the others.
\<close>

theorem reconstruct_recovers_shards_witness:
  "\<exists>parity. encode host0 default_codec [[1, 2], [3, 4], [5, 6], [7, 8]] [[0, 0], [0, 0]] = Inr parity \<and>
     reconstruct host0 default_codec [0, 2, 3, 5] [[1, 2], [5, 6], [7, 8], parity ! 1] [4, 1] [[0, 0], [0, 0]]
       = Inr [parity ! 0, [3, 4]]"
proof -
  let ?data = "[[1, 2], [3, 4], [5, 6], [7, 8]] :: bytes list"
  have "standard.encodable ?data [[0, 0], [0, 0]]"
    by (simp add: standard.encodable_def equal_lengths_def)
  then obtain parity where enc: "encode host0 default_codec ?data [[0, 0], [0, 0]] = Inr parity"
    by (metis standard.encode_Inr)
  have len: "length parity = 2" using standard.encode_codeword(1) [OF enc] by simp
  have shape: "total_shards EcConfig_default = 6" "unat (data_shards EcConfig_default) = 4"
    by (simp_all add: total_shards_def EcConfig_default_def)
  have "reconstruct host0 default_codec [0, 2, 3, 5] (map ((!) (?data @ parity)) [0, 2, 3, 5]) [4, 1] [[0, 0], [0, 0]]
      = Inr (map ((!) (?data @ parity)) [4, 1])"
    by (rule reconstruct_recovers_shards [OF default_codec_new enc refl]) (simp_all add: shape)
  with enc len show ?thesis by (simp add: nth_append)
qed

text \<open>
  C2. The rows of any \<open>k\<close> shards form a regular matrix, so whatever the arguments \<open>reconstruct\<close> never
  fails with \<open>SingularMatrix\<close>.
\<close>

theorem reconstruct_never_singular:
  assumes "ErasureCodec_new c = Inr codec"
  shows "reconstruct host codec present datas recover outputs \<noteq> Inl SingularMatrix"
  by (rule erasure_codec.reconstruct_not_singular [OF ErasureCodec_new_erasure_codec [OF assms]])

theorem reconstruct_never_singular_witness:
  "ErasureCodec_new EcConfig_default = Inr default_codec \<and>
   reconstruct host0 default_codec [2, 3, 4, 5] [[1], [2], [3], [4]] [0, 1] [[0], [0]] \<noteq> Inl SingularMatrix"
  using reconstruct_never_singular [OF default_codec_new] default_codec_new by blast

text \<open>
  \<open>reconstruct\<close> returns shards exactly when the counts match, \<open>k\<close> or more shards are at hand in strictly
  increasing order and within range, the requested ones are distinct, within range and not at hand, and
  all buffers have one size that fits the limit.
\<close>

theorem reconstruct_accepts_iff:
  assumes "ErasureCodec_new c = Inr codec"
  shows "(\<exists>out. reconstruct host codec present datas recover outputs = Inr out) \<longleftrightarrow>
     length present = length datas \<and> length recover = length outputs \<and>
     unat (data_shards c) \<le> length present \<and>
     (\<forall>i \<in> set present. i < total_shards c) \<and> sorted_wrt (<) present \<and>
     (\<forall>i \<in> set recover. i < total_shards c \<and> i \<notin> set present) \<and> distinct recover \<and>
     length (datas ! 0) \<le> 2 ^ 31 - 1 \<and>
     (\<forall>s \<in> set (datas @ outputs). length s = length (datas ! 0))"
proof -
  note codec = ErasureCodec_new_erasure_codec [OF assms] ErasureCodec_new_config [OF assms]
  have "(\<exists>out. reconstruct host codec present datas recover outputs = Inr out)
      \<longleftrightarrow> erasure_codec.recoverable codec present datas recover outputs"
    using erasure_codec.reconstruct_succeeds [OF codec(1)] erasure_codec.reconstruct_Inr [OF codec(1)] by blast
  then show ?thesis
    by (auto simp: erasure_codec.recoverable_def [OF codec(1)] codec(2) equal_lengths_def)
qed

theorem reconstruct_accepts_iff_witness:
  "(\<exists>out. reconstruct host0 default_codec [0, 2, 3, 5] [[1], [2], [3], [4]] [1] [[0]] = Inr out) \<and>
   \<not> (\<exists>out. reconstruct host0 default_codec [0, 2, 3, 5] [[1], [2], [3], [4]] [2] [[0]] = Inr out)"
  using reconstruct_accepts_iff [OF default_codec_new]
  by (simp add: total_shards_def EcConfig_default_def)

text \<open>The parity byte at position \<open>p\<close> of parity shard \<open>i\<close>, written as one sum over the data shards.\<close>

definition parity_reference :: "nat \<Rightarrow> bytes list \<Rightarrow> nat \<Rightarrow> nat \<Rightarrow> u8" where
  "parity_reference k data i p =
     fold (\<lambda>c acc. acc XOR gf_mul (gf_inv (word_of_nat ((k + i) XOR c))) (data ! c ! p)) [0..<k] 0"

lemma parity_reference_row:
  assumes "erasure_codec codec" and "k = unat (data_shards (config codec))" and "k + i < total_shards (config codec)"
  shows "gf_of (parity_reference k data i p) = row_dot k (encode_matrix codec) (k + i) data p"
proof -
  have "encode_matrix codec ! ((k + i) * k + c) = gf_inv (word_of_nat ((k + i) XOR c))" if "c < k" for c
    using gen_cauchy1_matrix_entries [of k "total_shards (config codec)"] assms that
    by (simp add: erasure_codec.matrix_eq [OF assms(1), symmetric] total_shards_def)
  then show ?thesis by (simp add: parity_reference_def fold_xor_products row_dot_def)
qed

text \<open>
  C3. \<open>encode\<close> succeeds exactly on \<open>k\<close> data shards and \<open>m\<close> buffers of one size within the limit, and the
  table-driven, unrolled routine then writes the Cauchy sum of the data bytes to every parity byte,
  whatever the buffers held.
\<close>

theorem encode_eq_reference:
  assumes "ErasureCodec_new c = Inr codec"
    and "k = unat (data_shards c)" and "m = unat (parity_shards c)" and "s = length (data ! 0)"
  shows "case encode host codec data buffers of
      Inl _ \<Rightarrow> \<not> (length data = k \<and> length buffers = m \<and> s \<le> 2 ^ 31 - 1 \<and> (\<forall>x \<in> set (data @ buffers). length x = s))
    | Inr parity \<Rightarrow> (length data = k \<and> length buffers = m \<and> s \<le> 2 ^ 31 - 1 \<and> (\<forall>x \<in> set (data @ buffers). length x = s)) \<and>
        parity = map (\<lambda>i. map (parity_reference k data i) [0..<s]) [0..<m]"
proof -
  note codec = ErasureCodec_new_erasure_codec [OF assms(1)] ErasureCodec_new_config [OF assms(1)]
  have ok: "erasure_codec.encodable codec data buffers \<longleftrightarrow>
      length data = k \<and> length buffers = m \<and> s \<le> 2 ^ 31 - 1 \<and> (\<forall>x \<in> set (data @ buffers). length x = s)"
    by (auto simp: erasure_codec.encodable_def [OF codec(1)] codec(2) assms(2-) equal_lengths_def)
  have "parity = map (\<lambda>i. map (parity_reference k data i) [0..<s]) [0..<m]"
    if enc: "encode host codec data buffers = Inr parity" for parity
  proof -
    note code = erasure_codec.encode_codeword [OF codec(1) enc, unfolded codec(2), folded assms(2-)]
    have n: "total_shards c = k + m" by (simp add: total_shards_def assms(2,3))
    have data: "length data = k"
      using enc ok by (simp add: erasure_codec.encode_Inr [OF codec(1)])
    have "parity ! i ! p = parity_reference k data i p" if i: "i < m" and p: "p < s" for i p
    proof -
      have "gf_of ((data @ parity) ! (k + i) ! p) = row_dot k (encode_matrix codec) (k + i) data p"
        using erasure_codec.codeword_iff [OF codec(1), of data "data @ parity", unfolded codec(2), folded assms(2-)]
          code(3) i p n by simp
      moreover have "gf_of (parity_reference k data i p) = row_dot k (encode_matrix codec) (k + i) data p"
        using i n by (intro parity_reference_row [OF codec(1)]) (simp_all add: codec(2) assms(2))
      ultimately show ?thesis using data by (metis gf_of_eq_iff nth_append_length_plus)
    qed
    then show ?thesis using code(1,2) by (intro nth_equalityI) (auto simp: equal_lengths_nth)
  qed
  with ok show ?thesis
    using erasure_codec.encode_Inr [OF codec(1), of host data buffers] by (auto split: sum.splits)
qed

theorem encode_eq_reference_witness:
  "encode host0 default_codec [[1, 2], [3, 4], [5, 6], [7, 8]] [[9, 9], [9, 9]] =
     Inr (map (\<lambda>i. map (parity_reference 4 [[1, 2], [3, 4], [5, 6], [7, 8]] i) [0..<2]) [0..<2])"
proof -
  have "[0..<2] = [0, Suc 0]" by (simp add: upt_rec)
  then show ?thesis
    using encode_eq_reference [OF default_codec_new refl refl refl,
        of "[[1, 2], [3, 4], [5, 6], [7, 8]]" "[[9, 9], [9, 9]]" host0]
    by (simp add: EcConfig_default_def split: sum.splits)
qed

text \<open>
  C5. \<open>verify\<close> accepts exactly the parity that \<open>encode\<close> would write for the data, and otherwise names the
  first parity shard that differs.
\<close>

theorem verify_reports_first_difference:
  assumes "ErasureCodec_new c = Inr codec" and "encode host codec data parity = Inr expected"
    and "verify_scratch_size codec (length (data ! 0)) \<le> length scratch"
  shows "\<exists>scratch'. verify host codec data parity scratch = Inr
    (case find (\<lambda>row. expected ! row \<noteq> parity ! row) [0..<unat (parity_shards c)] of
       None \<Rightarrow> VerifyOk
     | Some row \<Rightarrow> Mismatch (unat (data_shards c) + row), scratch')"
proof -
  note codec = ErasureCodec_new_erasure_codec [OF assms(1)] ErasureCodec_new_config [OF assms(1)]
  have "unat (parity_shards c) \<le> 2 ^ 8 - 1" using byte_less [of "parity_shards c"] by simp
  moreover have "length (data ! 0) \<le> 2 ^ 31 - 1"
    using assms(2) by (simp add: erasure_codec.encode_Inr [OF codec(1)] erasure_codec.encodable_def [OF codec(1)])
  ultimately have "unat (parity_shards c) * length (data ! 0) \<le> (2 ^ 8 - 1) * (2 ^ 31 - 1)" by (rule mult_le_mono)
  then have "unat (parity_shards c) * length (data ! 0) < 2 ^ 64" by simp
  with erasure_codec.verify_encode [OF codec(1) assms(2), unfolded codec(2), of scratch] assms(3) show ?thesis
    by (simp add: codec(2) verify_scratch_size_def)
qed

theorem verify_reports_first_difference_witness:
  "\<exists>parity scratch'. encode host0 default_codec [[1], [3], [5], [7]] [[0], [0]] = Inr parity \<and>
     verify host0 default_codec [[1], [3], [5], [7]] parity [0, 0] = Inr (VerifyOk, scratch')"
proof -
  let ?data = "[[1], [3], [5], [7]] :: bytes list"
  have "standard.encodable ?data [[0], [0]]"
    by (simp add: standard.encodable_def equal_lengths_def)
  then obtain parity where enc: "encode host0 default_codec ?data [[0], [0]] = Inr parity"
    by (metis standard.encode_Inr)
  have "find (\<lambda>row. parity ! row \<noteq> parity ! row) xs = None" for xs :: "nat list"
    by (simp add: find_None_iff)
  with enc verify_reports_first_difference [OF default_codec_new standard.encode_again [OF enc], of "[0, 0]"]
  show ?thesis by (auto simp: verify_scratch_size_def)
qed

text \<open>
  Minimum distance: two encodings whose shards agree at \<open>k\<close> positions carry the same data, so any two
  different stripes differ in more than \<open>m\<close> shards.
\<close>

theorem k_shards_determine_data:
  assumes "ErasureCodec_new c = Inr codec"
    and "encode host codec data buffers = Inr parity" and "encode host' codec data' buffers' = Inr parity'"
    and "length (data ! 0) = length (data' ! 0)"
    and "sorted_wrt (<) present" and "\<forall>i \<in> set present. i < total_shards c"
    and "unat (data_shards c) \<le> length present"
    and "\<forall>i \<in> set present. (data @ parity) ! i = (data' @ parity') ! i"
  shows "data = data' \<and> parity = parity'"
proof -
  note codec = ErasureCodec_new_erasure_codec [OF assms(1)] ErasureCodec_new_config [OF assms(1)]
  let ?S = "data @ parity" and ?S' = "data' @ parity'"
  note code = erasure_codec.encode_coded [OF codec(1) assms(2)] erasure_codec.encode_coded [OF codec(1) assms(3)]
  have len: "length ?S = total_shards c" "length ?S' = total_shards c"
    using code by (simp_all add: erasure_codec.coded_def [OF codec(1)] codec(2))
  have "?S ! t = ?S' ! t" if t: "t < total_shards c" for t
  proof (cases "t \<in> set present")
    case True
    with assms(8) show ?thesis by simp
  next
    case False
    let ?in = "map ((!) ?S) present" and ?out = "[replicate (length (data ! 0)) 0]"
    from assms(8) have same: "?in = map ((!) ?S') present" by simp
    have ok: "erasure_codec.recoverable codec present ?in [t] ?out"
      using reconstructible [OF assms(1,2,5,6,7), of "[t]" ?out] False t by simp
    have "Inr [?S ! t] = reconstruct host codec present ?in [t] ?out"
      using erasure_codec.reconstruct_coded [OF codec(1) ok code(1)] by simp
    also have "\<dots> = Inr [?S' ! t]"
      using erasure_codec.reconstruct_coded [OF codec(1) ok [unfolded same] code(2)] unfolding same by simp
    finally show ?thesis by simp
  qed
  then have "?S = ?S'" using len by (intro nth_equalityI) auto
  moreover have "length data = length data'"
    using assms(2,3) by (simp add: erasure_codec.encode_Inr [OF codec(1)] erasure_codec.encodable_def [OF codec(1)])
  ultimately show ?thesis by simp
qed

text \<open>The first four shards agree, so the parity does, whatever the buffers held before.\<close>

theorem k_shards_determine_data_witness:
  "\<exists>parity parity'. encode host0 default_codec [[1], [3], [5], [7]] [[0], [0]] = Inr parity \<and>
     encode host0 default_codec [[1], [3], [5], [7]] [[9], [8]] = Inr parity' \<and> parity = parity'"
proof -
  let ?data = "[[1], [3], [5], [7]] :: bytes list"
  have "standard.encodable ?data [[0], [0]]" "standard.encodable ?data [[9], [8]]"
    by (simp_all add: standard.encodable_def equal_lengths_def)
  then obtain parity parity' where enc: "encode host0 default_codec ?data [[0], [0]] = Inr parity"
    "encode host0 default_codec ?data [[9], [8]] = Inr parity'"
    using standard.encode_Inr [of host0 ?data "[[0], [0]]"] standard.encode_Inr [of host0 ?data "[[9], [8]]"] by blast
  have "?data = ?data \<and> parity = parity'"
    by (rule k_shards_determine_data [OF default_codec_new enc, of "[0, 1, 2, 3]"])
      (simp_all add: total_shards_def EcConfig_default_def)
  with enc show ?thesis by blast
qed

lemma default_shape:
  "unat (data_shards EcConfig_default) = 4" "unat (parity_shards EcConfig_default) = 2"
  "total_shards EcConfig_default = 6"
  by (simp_all add: EcConfig_default_def total_shards_def)

text \<open>The calls of the smoke test, for data of any shard size.\<close>

lemma smoke_test_calls:
  assumes "length data = 4" and "equal_lengths s data" and "s \<le> 2 ^ 31 - 1"
  obtains parity scratch where
    "encode host default_codec data (map (\<lambda>_. replicate s 0) [0..<2]) = Inr parity"
    "verify host default_codec data parity (replicate (verify_scratch_size default_codec s) 0) = Inr (VerifyOk, scratch)"
    "reconstruct host default_codec [0, 2, 3, 4] [data ! 0, data ! 2, data ! 3, parity ! 0] [1, 4 + 1]
       (replicate 2 (replicate s 0)) = Inr [data ! 1, parity ! 1]"
proof -
  have s: "length (data ! 0) = s" using assms(1,2) by (simp add: equal_lengths_nth)
  let ?buffers = "map (\<lambda>_. replicate s (0::u8)) [0..<2]"
  have "standard.encodable data ?buffers" using assms s by (simp add: standard.encodable_def equal_lengths_def)
  then obtain parity where enc: "encode host default_codec data ?buffers = Inr parity"
    by (metis standard.encode_Inr)
  then have parity: "length parity = 2" using standard.encode_codeword(1) [OF enc] by simp
  have small: "2 * s < 2 ^ 64" using assms(3) by simp
  obtain scratch where ver: "verify host default_codec data parity (replicate (verify_scratch_size default_codec s) 0)
      = Inr (VerifyOk, scratch)"
    using standard.verify_encoded [OF enc, of "replicate (verify_scratch_size default_codec s) 0"] s small
    by (auto simp: verify_scratch_size_def)
  have "reconstruct host default_codec [0, 2, 3, 4] (map ((!) (data @ parity)) [0, 2, 3, 4]) [1, 5] (replicate 2 (replicate s 0))
      = Inr (map ((!) (data @ parity)) [1, 5])"
    by (rule standard.reconstruct_coded [OF reconstructible [OF default_codec_new enc] standard.encode_coded [OF enc]])
      (simp_all add: default_shape s)
  then have "reconstruct host default_codec [0, 2, 3, 4] [data ! 0, data ! 2, data ! 3, parity ! 0] [1, 4 + 1]
      (replicate 2 (replicate s 0)) = Inr [data ! 1, parity ! 1]"
    using assms(1) parity by (simp add: nth_append)
  with enc ver that show ?thesis by blast
qed

text \<open>The smoke test that runs before the first codec is built succeeds.\<close>

theorem self_test_passes: "self_test host = Inr ()"
proof -
  have new: "EcConfig_new 4 2 = Inr EcConfig_default"
    by (simp add: EcConfig_new_def EcConfig_default_def validate_parts_def MAX_TOTAL_SHARDS_def)
  obtain data :: "bytes list" where
    data: "data = map (\<lambda>i. map (\<lambda>j. word_of_nat ((i * 37 + j * 13 + 7) AND 0xFF)) [0..<256]) [0..<4]" by blast
  have "length data = 4" "equal_lengths 256 data"
    by (simp_all add: data equal_lengths_def del: upt_rec_numeral)
  moreover have "(256::nat) \<le> 2 ^ 31 - 1" by simp
  ultimately obtain parity scratch where
    "encode host default_codec data (map (\<lambda>_. replicate 256 0) [0..<2]) = Inr parity"
    "verify host default_codec data parity (replicate (verify_scratch_size default_codec 256) 0) = Inr (VerifyOk, scratch)"
    "reconstruct host default_codec [0, 2, 3, 4] [data ! 0, data ! 2, data ! 3, parity ! 0] [1, 4 + 1]
       (replicate 2 (replicate 256 0)) = Inr [data ! 1, parity ! 1]"
    by (rule smoke_test_calls)
  then show ?thesis
    unfolding self_test_def new and_then.simps default_codec_new Let_def default_shape data [symmetric]
    by (simp only: and_then.simps prod.case VerifyResult.case nth_Cons_0 nth_Cons_Suc One_nat_def not_not simp_thms if_False)
qed

text \<open>
  C7. The choice of a backend does not show: the Neon, AVX2 and AVX-512 routines, which look up nibbles
  register by register, write for every matrix and every input the bytes the scalar routines write.
\<close>

theorem vector_backends_agree:
  assumes "length data = k" and "\<forall>s \<in> set (data @ outputs). length s = n"
    and "length coeffs = length outputs * k"
  shows "encode_rows b k (build_mul_tables coeffs) (build_nibble_tables coeffs) (build_nibble_tables coeffs) data outputs
           = encode_rows_scalar k (build_mul_tables coeffs) data outputs \<and>
         apply_matrix_rows b k coeffs data outputs = apply_matrix_rows_scalar k coeffs data outputs"
  using assms encode_rows_backend [of data k n outputs coeffs b] apply_matrix_rows_backend [of data k n outputs coeffs b]
  by (simp add: equal_lengths_def)

theorem vector_backends_agree_witness:
  "encode_rows Avx2X86_64 2 (build_mul_tables [1, 1]) (build_nibble_tables [1, 1]) (build_nibble_tables [1, 1])
     [[1, 2], [4, 8]] [[0, 0]] = encode_rows_scalar 2 (build_mul_tables [1, 1]) [[1, 2], [4, 8]] [[0, 0]] \<and>
   apply_matrix_rows NeonAarch64 2 [1, 1] [[1, 2], [4, 8]] [[0, 0]] = [[5, 10]]"
proof -
  have "apply_matrix_rows_scalar 2 [1, 1] [[1, 2], [4, 8]] [[0, 0]] = [[5, 10]]"
    by (simp add: apply_matrix_rows_scalar_def apply_matrix_row_def slice_def write_with_coeff_def
        xor_with_coeff_def xor_with_slice_def unrolled_loop.simps tail_loop.simps)
  then show ?thesis
    using vector_backends_agree [of "[[1, 2], [4, 8]]" 2 "[[0, 0]]" 2 "[1, 1]" Avx2X86_64]
      vector_backends_agree [of "[[1, 2], [4, 8]]" 2 "[[0, 0]]" 2 "[1, 1]" NeonAarch64]
    by simp
qed

end
