(* ===== verification/F64.thy ===== *)
theory F64
  imports Argmin_Prelude
begin

text \<open>
  IEEE 754 binary64 values as their bit patterns, with the comparisons the sources use. A pattern that is
  not a NaN is placed on the integers in sign-magnitude order, so that both zeros coincide.
\<close>

type_synonym f64 = u64

definition f64_magnitude :: "f64 \<Rightarrow> nat" where
  "f64_magnitude x = unat x mod 2 ^ 63"

definition f64_is_nan :: "f64 \<Rightarrow> bool" where
  "f64_is_nan x \<longleftrightarrow> f64_magnitude x > 0x7ff0000000000000"

definition f64_is_finite :: "f64 \<Rightarrow> bool" where
  "f64_is_finite x \<longleftrightarrow> f64_magnitude x < 0x7ff0000000000000"

definition f64_rank :: "f64 \<Rightarrow> int" where
  "f64_rank x = (if unat x < 2 ^ 63 then int (f64_magnitude x) else - int (f64_magnitude x))"

definition f64_less :: "f64 \<Rightarrow> f64 \<Rightarrow> bool" where
  "f64_less x y \<longleftrightarrow> \<not> f64_is_nan x \<and> \<not> f64_is_nan y \<and> f64_rank x < f64_rank y"

definition f64_eq :: "f64 \<Rightarrow> f64 \<Rightarrow> bool" where
  "f64_eq x y \<longleftrightarrow> \<not> f64_is_nan x \<and> \<not> f64_is_nan y \<and> f64_rank x = f64_rank y"

definition f64_zero :: f64 where "f64_zero = 0"

definition f64_infinity :: f64 where "f64_infinity = 0x7ff0000000000000"

definition f64_neg_infinity :: f64 where "f64_neg_infinity = 0xfff0000000000000"

lemma f64_less_rank: "\<not> f64_is_nan x \<Longrightarrow> \<not> f64_is_nan y \<Longrightarrow> f64_less x y \<longleftrightarrow> f64_rank x < f64_rank y"
  by (simp add: f64_less_def)

lemma not_nan_neg_infinity [simp]: "\<not> f64_is_nan f64_neg_infinity"
  by (simp add: f64_is_nan_def f64_magnitude_def f64_neg_infinity_def)

lemma f64_rank_neg_infinity: "f64_rank f64_neg_infinity = - 0x7ff0000000000000"
  by (simp add: f64_rank_def f64_magnitude_def f64_neg_infinity_def)

lemma f64_zero_facts: "\<not> f64_is_nan f64_zero" "f64_rank f64_zero = 0"
  by (simp_all add: f64_is_nan_def f64_rank_def f64_magnitude_def f64_zero_def)

lemma f64_positive_facts:
  assumes "f64_less f64_zero x"
  shows "\<not> f64_is_nan x" and "0 < f64_rank x"
  using assms by (simp_all add: f64_less_def f64_zero_facts)

lemma f64_is_finite_not_nan: "f64_is_finite x \<Longrightarrow> \<not> f64_is_nan x"
  by (simp add: f64_is_finite_def f64_is_nan_def)

lemma f64_nonzero_weight:
  "f64_is_finite x \<Longrightarrow> \<not> f64_less x f64_zero \<Longrightarrow> \<not> f64_eq x f64_zero \<longleftrightarrow> f64_less f64_zero x"
  by (auto simp: f64_less_def f64_eq_def f64_zero_facts f64_is_finite_not_nan)

end
