(* ===== verification/Placement.thy ===== *)
theory Placement
  imports F64
begin

text \<open>
  Shard placement (\<^verbatim>\<open>crates/placement\<close>): topology keys, the cluster map, placement constraints and the
  streaming selection of \<open>Placer::place\<close>. The hash function (package rapidhash) and the correctly rounded
  \<open>-log(u) / weight\<close> are parameters of the model. The fixed-size buffers of \<open>place\<close> are the lists of their
  valid prefixes.
\<close>

section \<open>Topology\<close>

type_synonym Level = u8

definition Level_ZONE :: Level where "Level_ZONE = 16"
definition Level_RACK :: Level where "Level_RACK = 32"
definition Level_MACHINE :: Level where "Level_MACHINE = 48"
definition Level_DISK :: Level where "Level_DISK = 64"

type_synonym TopologyKey = "(Level \<times> u32) list"

datatype TopologyError = DuplicateLevel Level

text \<open>The scan over \<open>windows(2)\<close> of a sorted vector.\<close>

fun first_duplicate :: "('a \<Rightarrow> 'k) \<Rightarrow> 'a list \<Rightarrow> 'a option" where
  "first_duplicate key (x # y # rest) =
     (if key x = key y then Some x else first_duplicate key (y # rest))"
| "first_duplicate key rest = None"

definition TopologyKey_new :: "(Level \<times> u32) list \<Rightarrow> (TopologyError, TopologyKey) result" where
  "TopologyKey_new segments =
     (let v = sort_key fst segments
      in case first_duplicate fst v of
           Some (level, _) \<Rightarrow> Inl (DuplicateLevel level)
         | None \<Rightarrow> Inr v)"

definition TopologyKey_rack :: "u32 \<Rightarrow> TopologyKey" where
  "TopologyKey_rack rack = [(Level_RACK, rack)]"

definition TopologyKey_rack_machine :: "u32 \<Rightarrow> u32 \<Rightarrow> TopologyKey" where
  "TopologyKey_rack_machine rack machine = [(Level_RACK, rack), (Level_MACHINE, machine)]"

definition TopologyKey_level :: "TopologyKey \<Rightarrow> Level \<Rightarrow> u32 option" where
  "TopologyKey_level self kind = map_option snd (find (\<lambda>(l, _). l = kind) self)"

section \<open>Cluster map and configuration\<close>

definition MAX_SHARDS :: nat where "MAX_SHARDS = 32"

type_synonym NodeId = u32

record NodeInfo =
  node_id :: NodeId
  location :: TopologyKey
  weight :: f64

datatype PlacementError =
    EmptyCluster
  | DuplicateNodeId u32
  | InvalidWeight u32 f64
  | InvalidTotalShards
  | TooFewNodes nat nat
  | ConstraintUnsatisfiable nat nat
  | OutputLengthMismatch nat nat

type_synonym ClusterMap = "NodeInfo list"

fun check_weights :: "NodeInfo list \<Rightarrow> (PlacementError, unit) result" where
  "check_weights [] = Inr ()"
| "check_weights (n # rest) =
     (if \<not> f64_is_finite (weight n) \<or> f64_less (weight n) f64_zero
      then Inl (InvalidWeight (node_id n) (weight n)) else check_weights rest)"

definition ClusterMap_new :: "NodeInfo list \<Rightarrow> (PlacementError, ClusterMap) result" where
  "ClusterMap_new nodes =
     (if nodes = [] then Inl EmptyCluster
      else and_then (check_weights nodes) (\<lambda>_.
        let sorted = sort_key node_id nodes
        in case first_duplicate node_id sorted of
             Some n \<Rightarrow> Inl (DuplicateNodeId (node_id n))
           | None \<Rightarrow> Inr sorted))"

definition active_node_count :: "ClusterMap \<Rightarrow> nat" where
  "active_node_count self = length (filter (\<lambda>n. f64_less f64_zero (weight n)) self)"

definition distinct_count :: "ClusterMap \<Rightarrow> Level \<Rightarrow> nat" where
  "distinct_count self level =
     length (fold (\<lambda>n seen. case TopologyKey_level (location n) level of
                 Some v \<Rightarrow> if v \<in> set seen then seen else seen @ [v]
               | None \<Rightarrow> seen)
       (filter (\<lambda>n. f64_less f64_zero (weight n)) self) [])"

record PlacementConfig =
  config_total_shards :: nat

definition validate_total_shards :: "nat \<Rightarrow> (PlacementError, unit) result" where
  "validate_total_shards n = (if n = 0 \<or> n > MAX_SHARDS then Inl InvalidTotalShards else Inr ())"

definition PlacementConfig_new :: "nat \<Rightarrow> (PlacementError, PlacementConfig) result" where
  "PlacementConfig_new n = and_then (validate_total_shards n) (\<lambda>_. Inr \<lparr>config_total_shards = n\<rparr>)"

definition PlacementConfig_validate :: "PlacementConfig \<Rightarrow> (PlacementError, PlacementConfig) result" where
  "PlacementConfig_validate self = and_then (validate_total_shards (config_total_shards self)) (\<lambda>_. Inr self)"

section \<open>Constraints\<close>

datatype Admission = Global | Constrained | Excluded

record PlacementConstraint =
  group_key :: "NodeInfo \<Rightarrow> u64"
  admit :: "nat \<Rightarrow> NodeInfo \<Rightarrow> Admission"

definition level_cap :: "Level \<Rightarrow> nat \<Rightarrow> PlacementConstraint" where
  "level_cap level cap_max =
     \<lparr>group_key = (\<lambda>node. case TopologyKey_level (location node) level of Some v \<Rightarrow> ucast v | None \<Rightarrow> - 1),
      admit = (\<lambda>same_group_count new_node.
        if TopologyKey_level (location new_node) level = None then Global
        else if same_group_count < cap_max then Global else Constrained)\<rparr>"

definition rack_cap :: "nat \<Rightarrow> PlacementConstraint" where
  "rack_cap cap_max = level_cap Level_RACK cap_max"

definition PlacementConstraint_none :: PlacementConstraint where
  "PlacementConstraint_none = \<lparr>group_key = (\<lambda>_. 0), admit = (\<lambda>_ _. Global)\<rparr>"

section \<open>Scores\<close>

text \<open>
  The functions the score is made of: \<open>hash_bytes\<close> is \<open>rapidhash_v3_micro\<close> with the fixed secrets, and
  \<open>neg_log_over u w\<close> is \<open>-deterministic_log_u53(u) / w\<close>.
\<close>

record Scoring =
  hash_bytes :: "bytes \<Rightarrow> u64"
  neg_log_over :: "u64 \<Rightarrow> f64 \<Rightarrow> f64"

definition to_le_bytes_u32 :: "u32 \<Rightarrow> bytes" where
  "to_le_bytes_u32 x = map (\<lambda>i. ucast (drop_bit (8 * i) x)) [0..<4]"

definition STACK_KEY_LIMIT :: nat where "STACK_KEY_LIMIT = 512 + 4"

definition hash_key_node :: "Scoring \<Rightarrow> bytes \<Rightarrow> NodeId \<Rightarrow> u64" where
  "hash_key_node sc key nid =
     (let node_id_bytes = to_le_bytes_u32 nid;
          total_len = length key + length node_id_bytes
      in if total_len \<le> STACK_KEY_LIMIT
         then let data = replicate STACK_KEY_LIMIT 0;
                  data = key @ drop (length key) data;
                  data = take (length key) data @ node_id_bytes @ drop total_len data
              in hash_bytes sc (take total_len data)
         else hash_bytes sc (key @ node_id_bytes))"

definition Unit53_from_hash :: "u64 \<Rightarrow> u64" where
  "Unit53_from_hash hash = drop_bit 11 hash + 1"

definition score :: "Scoring \<Rightarrow> bytes \<Rightarrow> NodeId \<Rightarrow> f64 \<Rightarrow> f64" where
  "score sc key nid w =
     (let h = hash_key_node sc key nid; u = Unit53_from_hash h in neg_log_over sc u w)"

section \<open>The placer\<close>

record Candidate =
  cand_score :: f64
  cand_node :: NodeId
  cand_group :: u64

record Placer =
  placer_config :: PlacementConfig
  placer_nodes :: "(NodeInfo \<times> u64) list"
  placer_admit :: "nat \<Rightarrow> NodeInfo \<Rightarrow> Admission"

definition Placer_new :: "PlacementConfig \<Rightarrow> ClusterMap \<Rightarrow> PlacementConstraint \<Rightarrow> (PlacementError, Placer) result" where
  "Placer_new config cluster constraint =
     and_then (PlacementConfig_validate config) (\<lambda>config.
       let active = active_node_count cluster; shards = config_total_shards config in
       if active < shards then Inl (TooFewNodes shards active)
       else let nodes = map (\<lambda>n. (n, group_key constraint n)) cluster
            in Inr \<lparr>placer_config = config, placer_nodes = nodes, placer_admit = admit constraint\<rparr>)"

text \<open>The group counters: the entries \<open>gc[..gc_len]\<close>.\<close>

type_synonym GroupCounts = "(u64 \<times> u8) list"

fun gc_get :: "GroupCounts \<Rightarrow> u64 \<Rightarrow> u8" where
  "gc_get [] gk = 0"
| "gc_get ((key, count) # rest) gk = (if key = gk then count else gc_get rest gk)"

fun gc_inc :: "GroupCounts \<Rightarrow> u64 \<Rightarrow> GroupCounts" where
  "gc_inc [] gk = [(gk, 1)]"
| "gc_inc ((key, count) # rest) gk =
     (if key = gk then (key, count + 1) # rest else (key, count) # gc_inc rest gk)"

fun gc_dec :: "GroupCounts \<Rightarrow> u64 \<Rightarrow> GroupCounts" where
  "gc_dec [] gk = []"
| "gc_dec ((key, count) # rest) gk =
     (if key = gk then if count \<le> 1 then rest else (key, count - 1) # rest
      else (key, count) # gc_dec rest gk)"

definition find_worst :: "Candidate list \<Rightarrow> nat" where
  "find_worst cands =
     fst (fold (\<lambda>(i, cand) (worst_idx, worst_score).
           if f64_less worst_score (cand_score cand) then (i, cand_score cand) else (worst_idx, worst_score))
         (drop 1 (List.enumerate 0 cands)) (0, cand_score (cands ! 0)))"

definition find_worst_in_group :: "Candidate list \<Rightarrow> u64 \<Rightarrow> nat option" where
  "find_worst_in_group cands gk =
     fst (fold (\<lambda>(i, cand) (worst_idx, worst_score).
           if cand_group cand = gk \<and> f64_less worst_score (cand_score cand) then (Some i, cand_score cand)
           else (worst_idx, worst_score))
         (List.enumerate 0 cands) (None, f64_neg_infinity))"

text \<open>One round of the loop over the nodes.\<close>

definition place_node ::
  "(NodeId \<Rightarrow> f64 \<Rightarrow> f64) \<Rightarrow> (nat \<Rightarrow> NodeInfo \<Rightarrow> Admission) \<Rightarrow> nat \<Rightarrow> NodeInfo \<times> u64 \<Rightarrow>
   Candidate list \<times> GroupCounts \<Rightarrow> Candidate list \<times> GroupCounts" where
  "place_node score_of admit_fn shards n st =
     (let (node, gk) = n; (cands, gc) = st in
      if f64_eq (weight node) f64_zero then (cands, gc)
      else
        let s = score_of (node_id node) (weight node);
            same_group = unat (gc_get gc gk);
            fresh = \<lparr>cand_score = s, cand_node = node_id node, cand_group = gk\<rparr>
        in case admit_fn same_group node of
             Excluded \<Rightarrow> (cands, gc)
           | Global \<Rightarrow>
               if length cands < shards then (cands @ [fresh], gc_inc gc gk)
               else let wi = find_worst cands in
                 if f64_less s (cand_score (cands ! wi))
                 then (cands[wi := fresh], gc_inc (gc_dec gc (cand_group (cands ! wi))) gk)
                 else (cands, gc)
           | Constrained \<Rightarrow>
               (case find_worst_in_group cands gk of
                  Some wi \<Rightarrow>
                    if f64_less s (cand_score (cands ! wi)) then (cands[wi := fresh], gc) else (cands, gc)
                | None \<Rightarrow> (cands, gc)))"

definition place :: "Scoring \<Rightarrow> Placer \<Rightarrow> bytes \<Rightarrow> NodeId list \<Rightarrow> (PlacementError, NodeId list) result" where
  "place sc self key out =
     (let shards = config_total_shards (placer_config self) in
      if length out \<noteq> shards then Inl (OutputLengthMismatch (length out) shards)
      else
        let (cands, gc) = fold (place_node (score sc key) (placer_admit self) shards) (placer_nodes self) ([], [])
        in if length cands < shards then Inl (ConstraintUnsatisfiable shards (length cands))
           else Inr (map cand_node (take shards cands)))"

end
