(* ===== verification/Placement_Selection.thy ===== *)
theory Placement_Selection
  imports Placement "HOL-Library.Multiset"
begin

text \<open>
  Why the streaming selection of \<open>Placer::place\<close> is right: the group counters meet a counter contract,
  the selected nodes stay within the caps, and every node left out was dominated, so that no admissible
  choice has more nodes below any score.
\<close>

section \<open>Selections under group capacities\<close>

text \<open>
  A selection \<open>xs\<close> from the nodes \<open>D\<close> seen so far: within the group capacities, and every node left out is
  no better than what was kept, in its own full group or in the full buffer.
\<close>

definition group_count :: "('a \<Rightarrow> 'g) \<Rightarrow> 'a list \<Rightarrow> 'g \<Rightarrow> nat" where
  "group_count g xs h = count (image_mset g (mset xs)) h"

definition left_out :: "('a \<Rightarrow> int) \<Rightarrow> ('a \<Rightarrow> 'g) \<Rightarrow> ('g \<Rightarrow> nat) \<Rightarrow> nat \<Rightarrow> 'a list \<Rightarrow> 'a \<Rightarrow> bool" where
  "left_out s g cap room xs x \<longleftrightarrow>
     group_count g xs (g x) = cap (g x) \<and> (\<forall>y \<in> set xs. g y = g x \<longrightarrow> s y \<le> s x) \<or>
     length xs = room \<and> (\<forall>y \<in> set xs. s y \<le> s x)"

definition selection :: "('a \<Rightarrow> int) \<Rightarrow> ('a \<Rightarrow> 'g) \<Rightarrow> ('g \<Rightarrow> nat) \<Rightarrow> nat \<Rightarrow> 'a set \<Rightarrow> 'a list \<Rightarrow> bool" where
  "selection s g cap room D xs \<longleftrightarrow>
     distinct xs \<and> set xs \<subseteq> D \<and> length xs \<le> room \<and> (\<forall>h. group_count g xs h \<le> cap h) \<and>
     (\<forall>x \<in> D - set xs. left_out s g cap room xs x)"

lemma group_count_snoc: "group_count g (xs @ [n]) h = group_count g xs h + (if g n = h then 1 else 0)"
  by (simp add: group_count_def)

lemma group_count_update:
  assumes "w < length xs"
  shows "group_count g (xs[w := n]) h + (if g (xs ! w) = h then 1 else 0) = group_count g xs h + (if g n = h then 1 else 0)"
proof -
  have "xs ! w \<in># mset xs" using assms by simp
  then have "mset (xs[w := n]) + {#xs ! w#} = mset xs + {#n#}" using assms by (simp add: mset_update)
  then have "image_mset g (mset (xs[w := n])) + {#g (xs ! w)#} = image_mset g (mset xs) + {#g n#}"
    by (metis image_mset_single image_mset_union)
  then have "count (image_mset g (mset (xs[w := n])) + {#g (xs ! w)#}) h = count (image_mset g (mset xs) + {#g n#}) h"
    by simp
  then show ?thesis by (simp add: group_count_def split: if_splits)
qed

lemma group_count_card:
  "distinct xs \<Longrightarrow> group_count g xs h = card {x \<in> set xs. g x = h}"
proof (induction xs)
  case Nil
  then show ?case by (simp add: group_count_def)
next
  case (Cons a xs)
  have "{x \<in> set (a # xs). g x = h} =
      (if g a = h then insert a {x \<in> set xs. g x = h} else {x \<in> set xs. g x = h})" by auto
  with Cons show ?case by (simp add: group_count_def)
qed

lemma selection_append:
  assumes "selection s g cap room D xs" and "n \<notin> D"
    and "length xs < room" "group_count g xs (g n) < cap (g n)"
  shows "selection s g cap room (insert n D) (xs @ [n])"
  using assms unfolding selection_def left_out_def
  by (auto simp: group_count_snoc less_Suc_eq_le)

lemma selection_replace_worst:
  assumes sel: "selection s g cap room D xs" and n: "n \<notin> D"
    and full: "length xs = room" "group_count g xs (g n) < cap (g n)"
    and w: "w < length xs" "\<forall>y \<in> set xs. s y \<le> s (xs ! w)" "s n < s (xs ! w)"
  shows "selection s g cap room (insert n D) (xs[w := n])"
proof -
  from sel have dist: "distinct xs" and sub: "set xs \<subseteq> D" and caps: "\<And>h. group_count g xs h \<le> cap h"
    and out: "\<And>x. x \<in> D \<Longrightarrow> x \<notin> set xs \<Longrightarrow> left_out s g cap room xs x"
    by (auto simp: selection_def)
  have set: "set (xs[w := n]) = insert n (set xs - {xs ! w})" by (rule set_update_distinct [OF dist w(1)])
  have "distinct (xs[w := n])" using dist n sub by (intro distinct_list_update) auto
  moreover have "group_count g (xs[w := n]) h \<le> cap h" for h
    using group_count_update [OF w(1), of g n h] caps [of h] full(2) by (auto split: if_splits)
  moreover have "left_out s g cap room (xs[w := n]) x" if x: "x \<in> D" "x \<notin> set (xs[w := n])" for x
  proof (cases "s (xs ! w) \<le> s x")
    case True
    then show ?thesis using w full by (auto simp: left_out_def set intro: order_trans)
  next
    case False
    then have "x \<noteq> xs ! w" by auto
    then have "x \<notin> set xs" using x n set by auto
    from out [OF x(1) this] False w full(1)
    have at_cap: "group_count g xs (g x) = cap (g x)" "\<forall>y \<in> set xs. g y = g x \<longrightarrow> s y \<le> s x"
      by (auto simp: left_out_def)
    then have "g (xs ! w) \<noteq> g x" "g n \<noteq> g x" using False w(1) full(2) by auto
    then show ?thesis using at_cap group_count_update [OF w(1), of g n "g x"] by (auto simp: left_out_def set)
  qed
  ultimately show ?thesis using sub full(1) by (auto simp: selection_def set)
qed

lemma selection_skip:
  assumes "selection s g cap room D xs" and "left_out s g cap room xs n"
  shows "selection s g cap room (insert n D) xs"
  using assms by (auto simp: selection_def)

lemma selection_replace_in_group:
  assumes sel: "selection s g cap room D xs" and n: "n \<notin> D"
    and full: "group_count g xs (g n) = cap (g n)"
    and w: "w < length xs" "g (xs ! w) = g n" "\<forall>y \<in> set xs. g y = g n \<longrightarrow> s y \<le> s (xs ! w)" "s n < s (xs ! w)"
  shows "selection s g cap room (insert n D) (xs[w := n])"
proof -
  from sel have dist: "distinct xs" and sub: "set xs \<subseteq> D" and caps: "\<And>h. group_count g xs h \<le> cap h"
    and len: "length xs \<le> room"
    and out: "\<And>x. x \<in> D \<Longrightarrow> x \<notin> set xs \<Longrightarrow> left_out s g cap room xs x"
    by (auto simp: selection_def)
  have set: "set (xs[w := n]) = insert n (set xs - {xs ! w})" by (rule set_update_distinct [OF dist w(1)])
  have same: "group_count g (xs[w := n]) h = group_count g xs h" for h
    using group_count_update [OF w(1), of g n h] w(2) by (auto split: if_splits)
  have "distinct (xs[w := n])" using dist n sub by (intro distinct_list_update) auto
  moreover have "left_out s g cap room (xs[w := n]) x" if x: "x \<in> D" "x \<notin> set (xs[w := n])" for x
  proof (cases "x = xs ! w")
    case True
    then show ?thesis using w full by (auto simp: left_out_def set same)
  next
    case False
    then have "x \<notin> set xs" using x n set by auto
    from out [OF x(1) this] consider
        (grp) "group_count g xs (g x) = cap (g x)" "\<forall>y \<in> set xs. g y = g x \<longrightarrow> s y \<le> s x"
      | (buf) "length xs = room" "\<forall>y \<in> set xs. s y \<le> s x"
      unfolding left_out_def by blast
    then show ?thesis
    proof cases
      case grp
      with w nth_mem [OF w(1)] have "g n = g x \<Longrightarrow> s n \<le> s x" by force
      with grp show ?thesis by (auto simp: left_out_def set same)
    next
      case buf
      with w(4) nth_mem [OF w(1)] have "s n \<le> s x" by (meson less_imp_le order_trans)
      with buf show ?thesis by (auto simp: left_out_def set)
    qed
  qed
  ultimately show ?thesis using sub len caps by (auto simp: selection_def set same)
qed

text \<open>
  No admissible choice has more nodes of rank at most \<open>t\<close> than the selection.
\<close>

lemma card_by_group:
  assumes "finite A" and "g ` A \<subseteq> G" and "finite G"
  shows "card A = (\<Sum>h \<in> G. card {x \<in> A. g x = h})"
  using sum.group [OF assms(1,3,2), of "\<lambda>_. 1::nat"] by simp

lemma selection_dominates:
  assumes sel: "selection s g cap room D xs" and S: "finite S" "S \<subseteq> D" "card S \<le> room"
    and caps: "\<And>h. card {x \<in> S. g x = h} \<le> cap h"
  shows "card {x \<in> S. s x \<le> t} \<le> card {x \<in> set xs. s x \<le> t}"
proof (cases "\<exists>x \<in> S - set xs. s x \<le> t \<and> length xs = room \<and> (\<forall>y \<in> set xs. s y \<le> s x)")
  case True
  then have "{y \<in> set xs. s y \<le> t} = set xs" "card (set xs) = room"
    using sel by (auto simp: selection_def distinct_card)
  moreover have "card {x \<in> S. s x \<le> t} \<le> card S" using S(1) by (intro card_mono) auto
  ultimately show ?thesis using S(3) by simp
next
  case False
  let ?A = "{x \<in> S. s x \<le> t}" and ?B = "{x \<in> set xs. s x \<le> t}" and ?G = "g ` (S \<union> set xs)"
  have dist: "distinct xs" using sel by (simp add: selection_def)
  have "card {x \<in> ?A. g x = h} \<le> card {x \<in> ?B. g x = h}" for h
  proof (cases "\<exists>x \<in> ?A - set xs. g x = h")
    case True
    then obtain x where x: "x \<in> S" "x \<notin> set xs" "s x \<le> t" "g x = h" by auto
    with sel S(2) have "left_out s g cap room xs x" by (auto simp: selection_def)
    with x False have "group_count g xs h = cap h" "\<forall>y \<in> set xs. g y = h \<longrightarrow> s y \<le> t"
      by (auto simp: left_out_def intro: order_trans)
    then have "{x \<in> ?B. g x = h} = {x \<in> set xs. g x = h}" "card {x \<in> set xs. g x = h} = cap h"
      using group_count_card [OF dist, of g h] by auto
    moreover have "card {x \<in> ?A. g x = h} \<le> card {x \<in> S. g x = h}" using S(1) by (intro card_mono) auto
    ultimately show ?thesis using caps [of h] by simp
  next
    case False
    then show ?thesis by (intro card_mono) auto
  qed
  then have "(\<Sum>h \<in> ?G. card {x \<in> ?A. g x = h}) \<le> (\<Sum>h \<in> ?G. card {x \<in> ?B. g x = h})" by (intro sum_mono)
  moreover have "card ?A = (\<Sum>h \<in> ?G. card {x \<in> ?A. g x = h})" "card ?B = (\<Sum>h \<in> ?G. card {x \<in> ?B. g x = h})"
    using S(1) by (intro card_by_group; auto)+
  ultimately show ?thesis by simp
qed

section \<open>Group counters\<close>

text \<open>
  What \<open>place\<close> relies on: a counter per group that stays exact as long as no count passes \<open>limit\<close>.
\<close>

locale group_counter =
  fixes wf :: "'m \<Rightarrow> bool" and val :: "'m \<Rightarrow> 'g \<Rightarrow> nat" and inc dec :: "'m \<Rightarrow> 'g \<Rightarrow> 'm"
    and empty :: 'm and limit :: nat
  assumes wf_empty: "wf empty" and val_empty: "val empty h = 0"
    and wf_inc: "wf m \<Longrightarrow> val m g < limit \<Longrightarrow> wf (inc m g)"
    and val_inc: "wf m \<Longrightarrow> val m g < limit \<Longrightarrow> val (inc m g) h = (if h = g then val m h + 1 else val m h)"
    and wf_dec: "wf m \<Longrightarrow> wf (dec m g)"
    and val_dec: "wf m \<Longrightarrow> val (dec m g) h = (if h = g then val m h - 1 else val m h)"
begin

definition tracks :: "('a \<Rightarrow> 'g) \<Rightarrow> 'a list \<Rightarrow> 'm \<Rightarrow> bool" where
  "tracks g xs m \<longleftrightarrow> wf m \<and> (\<forall>h. val m h = group_count g xs h)"

lemma tracks_empty: "tracks g [] empty"
  by (simp add: tracks_def wf_empty val_empty group_count_def)

lemma group_count_le_length: "group_count g xs h \<le> length xs"
  unfolding group_count_def by (metis count_le_size size_image_mset size_mset)

lemma tracks_push:
  assumes "tracks g xs m" and "length xs < limit"
  shows "tracks g (xs @ [n]) (inc m (g n))"
proof -
  have "val m (g n) < limit" using assms group_count_le_length [of g xs "g n"] by (simp add: tracks_def)
  with assms show ?thesis by (auto simp: tracks_def wf_inc val_inc group_count_snoc)
qed

lemma tracks_replace:
  assumes "tracks g xs m" and "w < length xs" and "length xs \<le> limit"
  shows "tracks g (xs[w := n]) (inc (dec m (g (xs ! w))) (g n))"
proof -
  have upd: "group_count g (xs[w := n]) h + (if g (xs ! w) = h then 1 else 0) = group_count g xs h + (if g n = h then 1 else 0)"
    for h by (rule group_count_update [OF assms(2)])
  have pos: "0 < group_count g xs (g (xs ! w))"
    using assms(2) by (auto simp: group_count_def count_greater_zero_iff)
  let ?m = "dec m (g (xs ! w))"
  have m: "wf ?m" "\<And>h. val ?m h = (if h = g (xs ! w) then group_count g xs h - 1 else group_count g xs h)"
    using assms(1) by (auto simp: tracks_def wf_dec val_dec)
  have "val ?m (g n) < limit"
  proof (cases "g n = g (xs ! w)")
    case True
    then show ?thesis using m pos group_count_le_length [of g xs "g n"] assms(3) by simp
  next
    case False
    then have "group_count g xs (g n) + 1 = group_count g (xs[w := n]) (g n)" using upd [of "g n"] by simp
    also have "\<dots> \<le> length xs" using group_count_le_length [of g "xs[w := n]"] by simp
    finally show ?thesis using m False assms(3) by simp
  qed
  then have inc: "wf (inc ?m (g n))" "\<And>h. val (inc ?m (g n)) h = (if h = g n then val ?m h + 1 else val ?m h)"
    using m by (auto simp: wf_inc val_inc)
  have "val (inc ?m (g n)) h = group_count g (xs[w := n]) h" for h
    using inc(2) [of h] m(2) [of h] upd [of h] pos by (auto split: if_splits)
  with inc(1) show ?thesis by (simp add: tracks_def)
qed

lemma tracks_replace_same:
  assumes "tracks g xs m" and "w < length xs" and "g (xs ! w) = g n"
  shows "tracks g (xs[w := n]) m"
  using assms group_count_update [OF assms(2), of g n] by (auto simp: tracks_def)

end

text \<open>The association list of \<open>place\<close>: one entry per group, none with a zero count.\<close>

definition gc_wf :: "GroupCounts \<Rightarrow> bool" where
  "gc_wf gc \<longleftrightarrow> distinct (map fst gc) \<and> (\<forall>(key, n) \<in> set gc. n \<noteq> 0)"

lemma gc_get_absent: "gk \<notin> fst ` set gc \<Longrightarrow> gc_get gc gk = 0"
  by (induction gc) auto

lemma gc_inc_keys: "fst ` set (gc_inc gc gk) = insert gk (fst ` set gc)"
  by (induction gc gk rule: gc_inc.induct) auto

lemma gc_dec_keys: "fst ` set (gc_dec gc gk) \<subseteq> fst ` set gc"
  by (induction gc gk rule: gc_dec.induct) auto

lemma gc_dec_fresh: "k \<notin> fst ` set gc \<Longrightarrow> k \<notin> fst ` set (gc_dec gc gk)"
  using gc_dec_keys by blast

lemma unat_suc_u8: "unat x < 255 \<Longrightarrow> unat (x + 1) = unat x + 1" for x :: u8
  using unat_add_no_wrap [of x 1] by simp

lemma gc_inc_spec:
  assumes "gc_wf gc" and "unat (gc_get gc gk) < 255"
  shows "gc_wf (gc_inc gc gk)" and "unat (gc_get (gc_inc gc gk) h) = (if h = gk then unat (gc_get gc h) + 1 else unat (gc_get gc h))"
proof -
  have nz: "x + 1 \<noteq> 0" if "unat x < 255" for x :: u8 using unat_suc_u8 [OF that] by auto
  show "gc_wf (gc_inc gc gk)"
    using assms by (induction gc gk rule: gc_inc.induct) (auto simp: gc_wf_def gc_inc_keys nz)
  show "unat (gc_get (gc_inc gc gk) h) = (if h = gk then unat (gc_get gc h) + 1 else unat (gc_get gc h))"
    using assms(2) by (induction gc) (auto simp: unat_suc_u8)
qed

lemma gc_dec_spec:
  assumes "gc_wf gc"
  shows "gc_wf (gc_dec gc gk)" and "unat (gc_get (gc_dec gc gk) h) = (if h = gk then unat (gc_get gc h) - 1 else unat (gc_get gc h))"
proof -
  have dec: "unat (x - 1) = unat x - 1" "x - 1 \<noteq> 0" if "\<not> x \<le> 1" for x :: u8
    using that by (auto simp: word_le_nat_alt unat_sub_if_size)
  show "gc_wf (gc_dec gc gk)"
    using assms by (induction gc gk rule: gc_dec.induct) (auto simp: gc_wf_def gc_dec_fresh dec)
  show "unat (gc_get (gc_dec gc gk) h) = (if h = gk then unat (gc_get gc h) - 1 else unat (gc_get gc h))"
    using assms
    by (induction gc) (auto simp: gc_wf_def gc_get_absent dec word_le_nat_alt)
qed

interpretation gc: group_counter gc_wf "\<lambda>m g. unat (gc_get m g)" gc_inc gc_dec "[]" 255
  by unfold_locales (simp_all add: gc_inc_spec gc_dec_spec, simp add: gc_wf_def)

lemma gc_length_bound:
  assumes "gc.tracks g xs gc"
  shows "length gc \<le> length xs"
proof -
  from assms have wf: "gc_wf gc" and val: "\<And>h. unat (gc_get gc h) = group_count g xs h"
    by (auto simp: gc.tracks_def)
  have "gc_get gc key = n" if "(key, n) \<in> set gc" for key n
    using wf that by (induction gc) (auto simp: gc_wf_def rev_image_eqI)
  moreover have "\<exists>n. (key, n) \<in> set gc \<and> n \<noteq> 0" if "key \<in> fst ` set gc" for key
    using wf that by (auto simp: gc_wf_def)
  ultimately have "0 < group_count g xs key" if "key \<in> fst ` set gc" for key
    using that val [of key] by (metis unat_gt_0)
  then have "fst ` set gc \<subseteq> g ` set xs"
    by (force simp: group_count_def count_greater_zero_iff)
  then have "card (fst ` set gc) \<le> card (g ` set xs)" by (intro card_mono) auto
  also have "\<dots> \<le> length xs" by (metis card_image_le card_length finite_set le_trans)
  finally show ?thesis using wf by (metis gc_wf_def distinct_card length_map set_map)
qed

section \<open>The worst candidate\<close>

lemma enumerate_snoc: "List.enumerate 0 (xs @ [x]) = List.enumerate 0 xs @ [(length xs, x)]"
  by (simp add: enumerate_append_eq)

definition proper :: "Candidate \<Rightarrow> bool" where
  "proper c \<longleftrightarrow> \<not> f64_is_nan (cand_score c) \<and> 0 \<le> f64_rank (cand_score c)"

lemma find_worst_spec:
  assumes "cands \<noteq> []" and "list_all proper cands"
  shows "find_worst cands < length cands \<and>
    (\<forall>c \<in> set cands. f64_rank (cand_score c) \<le> f64_rank (cand_score (cands ! find_worst cands)))"
proof -
  let ?f = "\<lambda>(i, cand) (worst_idx, worst_score).
      if f64_less worst_score (cand_score cand) then (i, cand_score cand) else (worst_idx, worst_score)"
  have "xs \<noteq> [] \<Longrightarrow> list_all proper xs \<Longrightarrow>
      (case fold ?f (drop 1 (List.enumerate 0 xs)) (0, cand_score (xs ! 0)) of (wi, ws) \<Rightarrow>
        wi < length xs \<and> ws = cand_score (xs ! wi) \<and> (\<forall>c \<in> set xs. f64_rank (cand_score c) \<le> f64_rank ws))" for xs
  proof (induction xs rule: rev_induct)
    case Nil
    then show ?case by simp
  next
    case (snoc x xs)
    show ?case
    proof (cases "xs = []")
      case False
      then have "drop 1 (List.enumerate 0 (xs @ [x])) = drop 1 (List.enumerate 0 xs) @ [(length xs, x)]"
        by (simp add: enumerate_snoc Suc_le_eq)
      moreover obtain wi ws where f: "fold ?f (drop 1 (List.enumerate 0 xs)) (0, cand_score (xs ! 0)) = (wi, ws)"
        by (cases "fold ?f (drop 1 (List.enumerate 0 xs)) (0, cand_score (xs ! 0))") auto
      moreover from snoc False f have wi: "wi < length xs" "ws = cand_score (xs ! wi)"
        "\<forall>c \<in> set xs. f64_rank (cand_score c) \<le> f64_rank ws" by auto
      moreover have "\<not> f64_is_nan ws" "\<not> f64_is_nan (cand_score x)"
        using snoc.prems(2) wi by (auto simp: proper_def list_all_iff)
      ultimately show ?thesis using False by (auto simp: nth_append f64_less_rank intro: order_trans less_imp_le)
    qed simp
  qed
  from this [OF assms] show ?thesis
    unfolding find_worst_def by (auto split: prod.splits)
qed

lemma find_worst_in_group_spec:
  assumes "list_all proper cands"
  shows "case find_worst_in_group cands gk of
      None \<Rightarrow> \<forall>c \<in> set cands. cand_group c \<noteq> gk
    | Some wi \<Rightarrow> wi < length cands \<and> cand_group (cands ! wi) = gk \<and>
        (\<forall>c \<in> set cands. cand_group c = gk \<longrightarrow> f64_rank (cand_score c) \<le> f64_rank (cand_score (cands ! wi)))"
proof -
  let ?f = "\<lambda>(i, cand) (worst_idx, worst_score).
      if cand_group cand = gk \<and> f64_less worst_score (cand_score cand) then (Some i, cand_score cand)
      else (worst_idx, worst_score)"
  have "list_all proper xs \<Longrightarrow>
      (case fold ?f (List.enumerate 0 xs) (None, f64_neg_infinity) of
         (None, ws) \<Rightarrow> ws = f64_neg_infinity \<and> (\<forall>c \<in> set xs. cand_group c \<noteq> gk)
       | (Some wi, ws) \<Rightarrow> wi < length xs \<and> cand_group (xs ! wi) = gk \<and> ws = cand_score (xs ! wi) \<and>
           (\<forall>c \<in> set xs. cand_group c = gk \<longrightarrow> f64_rank (cand_score c) \<le> f64_rank ws))" for xs
  proof (induction xs rule: rev_induct)
    case Nil
    then show ?case by simp
  next
    case (snoc x xs)
    obtain wo ws where f: "fold ?f (List.enumerate 0 xs) (None, f64_neg_infinity) = (wo, ws)"
      by (cases "fold ?f (List.enumerate 0 xs) (None, f64_neg_infinity)") auto
    have xs: "list_all proper xs" using snoc.prems by simp
    have x: "\<not> f64_is_nan (cand_score x)" "0 \<le> f64_rank (cand_score x)"
      using snoc.prems by (auto simp: proper_def)
    show ?case
    proof (cases wo)
      case None
      then have "ws = f64_neg_infinity" "\<forall>c \<in> set xs. cand_group c \<noteq> gk" using snoc xs f by auto
      then show ?thesis using f None x by (auto simp: enumerate_snoc nth_append f64_less_rank f64_rank_neg_infinity)
    next
      case (Some wi)
      then have wi: "wi < length xs" "cand_group (xs ! wi) = gk" "ws = cand_score (xs ! wi)"
        "\<forall>c \<in> set xs. cand_group c = gk \<longrightarrow> f64_rank (cand_score c) \<le> f64_rank ws"
        using snoc xs f by auto
      moreover have "\<not> f64_is_nan ws" using xs wi by (auto simp: proper_def list_all_iff)
      ultimately show ?thesis using f Some x
        by (auto simp: enumerate_snoc nth_append f64_less_rank intro: order_trans less_imp_le)
    qed
  qed
  from this [OF assms] show ?thesis
    unfolding find_worst_in_group_def by (auto split: prod.splits option.splits)
qed

section \<open>Partition constraints\<close>

text \<open>
  The contract \<open>place\<close> asks of a constraint: a fixed group per node, a fixed capacity per group, and
  admission below it. Counts never pass \<open>MAX_SHARDS\<close>, so a capacity above it is no limit.
\<close>

locale partition_constraint =
  fixes c :: PlacementConstraint and cap :: "u64 \<Rightarrow> nat"
  assumes admit_law: "k \<le> MAX_SHARDS \<Longrightarrow> admit c k node = (if k < cap (group_key c node) then Global else Constrained)"
begin

definition rank_of :: "(NodeId \<Rightarrow> f64 \<Rightarrow> f64) \<Rightarrow> NodeInfo \<Rightarrow> int" where
  "rank_of score_of n = f64_rank (score_of (node_id n) (weight n))"

definition scored :: "(NodeId \<Rightarrow> f64 \<Rightarrow> f64) \<Rightarrow> NodeInfo \<Rightarrow> bool" where
  "scored score_of n \<longleftrightarrow> \<not> f64_is_nan (score_of (node_id n) (weight n)) \<and> 0 \<le> rank_of score_of n"

definition cand_of :: "(NodeId \<Rightarrow> f64 \<Rightarrow> f64) \<Rightarrow> NodeInfo \<Rightarrow> Candidate" where
  "cand_of score_of n = \<lparr>cand_score = score_of (node_id n) (weight n), cand_node = node_id n, cand_group = group_key c n\<rparr>"

definition loop_inv :: "(NodeId \<Rightarrow> f64 \<Rightarrow> f64) \<Rightarrow> nat \<Rightarrow> NodeInfo set \<Rightarrow> Candidate list \<times> GroupCounts \<Rightarrow> bool" where
  "loop_inv score_of shards D st \<longleftrightarrow>
     (\<exists>xs. fst st = map (cand_of score_of) xs \<and> gc.tracks (group_key c) xs (snd st) \<and>
           selection (rank_of score_of) (group_key c) cap shards D xs)"

lemma worst_of_nodes:
  assumes "xs \<noteq> []" and "\<forall>x \<in> set xs. scored score_of x"
  shows "find_worst (map (cand_of score_of) xs) < length xs"
    and "\<forall>y \<in> set xs. rank_of score_of y \<le> rank_of score_of (xs ! find_worst (map (cand_of score_of) xs))"
proof -
  have "list_all proper (map (cand_of score_of) xs)"
    using assms(2) by (auto simp: list_all_iff proper_def cand_of_def scored_def rank_of_def)
  from find_worst_spec [OF _ this] assms(1)
  show "find_worst (map (cand_of score_of) xs) < length xs"
    and "\<forall>y \<in> set xs. rank_of score_of y \<le> rank_of score_of (xs ! find_worst (map (cand_of score_of) xs))"
    by (auto simp: cand_of_def rank_of_def)
qed

lemma worst_in_group_of_nodes:
  assumes "\<forall>x \<in> set xs. scored score_of x"
  shows "case find_worst_in_group (map (cand_of score_of) xs) gk of
      None \<Rightarrow> \<forall>y \<in> set xs. group_key c y \<noteq> gk
    | Some wi \<Rightarrow> wi < length xs \<and> group_key c (xs ! wi) = gk \<and>
        (\<forall>y \<in> set xs. group_key c y = gk \<longrightarrow> rank_of score_of y \<le> rank_of score_of (xs ! wi))"
proof -
  have "list_all proper (map (cand_of score_of) xs)"
    using assms by (auto simp: list_all_iff proper_def cand_of_def scored_def rank_of_def)
  from find_worst_in_group_spec [OF this, of gk] show ?thesis
    by (auto simp: cand_of_def rank_of_def split: option.splits)
qed

text \<open>One round keeps the invariant, with the node counted among those seen unless its weight is zero.\<close>

lemma score_less:
  assumes "\<forall>x \<in> set xs. scored score_of x" and "scored score_of n" and "y \<in> set xs"
  shows "f64_less (score_of (node_id n) (weight n)) (score_of (node_id y) (weight y)) \<longleftrightarrow>
    rank_of score_of n < rank_of score_of y"
  using assms by (auto simp: scored_def rank_of_def f64_less_rank)

lemma fresh_cand:
  "\<lparr>cand_score = score_of (node_id n) (weight n), cand_node = node_id n, cand_group = group_key c n\<rparr> = cand_of score_of n"
  by (simp add: cand_of_def)

lemma loop_inv_skip:
  assumes "gc.tracks (group_key c) xs gc" and "selection (rank_of score_of) (group_key c) cap shards D xs"
    and "left_out (rank_of score_of) (group_key c) cap shards xs n"
  shows "loop_inv score_of shards (insert n D) (map (cand_of score_of) xs, gc)"
  using assms(1) selection_skip [OF assms(2,3)] by (auto simp: loop_inv_def)

text \<open>A node whose group has room.\<close>

lemma place_node_global:
  assumes tr: "gc.tracks (group_key c) xs gc" and sel: "selection (rank_of score_of) (group_key c) cap shards D xs"
    and n: "n \<notin> D" and shards: "0 < shards" "shards \<le> MAX_SHARDS"
    and okx: "\<forall>x \<in> set xs. scored score_of x" and okn: "scored score_of n" and weight: "\<not> f64_eq (weight n) f64_zero"
    and below: "group_count (group_key c) xs (group_key c n) < cap (group_key c n)"
    and adm: "admit c (unat (gc_get gc (group_key c n))) n = Global"
  shows "loop_inv score_of shards (insert n D)
     (place_node score_of (admit c) shards (n, group_key c n) (map (cand_of score_of) xs, gc))"
proof -
  let ?s = "rank_of score_of" and ?g = "group_key c" and ?cand = "cand_of score_of"
  from sel have len: "length xs \<le> shards" by (simp add: selection_def)
  note less = score_less [OF okx okn]
  have lim: "length xs < 255" "length xs \<le> 255" using len shards by (auto simp: MAX_SHARDS_def)
  show ?thesis
  proof (cases "length xs < shards")
    case True
    then show ?thesis
      using weight adm selection_append [OF sel n True below] gc.tracks_push [OF tr lim(1), of n]
      by (auto simp: place_node_def fresh_cand Let_def loop_inv_def intro!: exI [of _ "xs @ [n]"])
  next
    case False
    with len have full: "length xs = shards" by simp
    let ?w = "find_worst (map ?cand xs)"
    have w: "?w < length xs" "\<forall>y \<in> set xs. ?s y \<le> ?s (xs ! ?w)"
      using worst_of_nodes [OF _ okx] full shards(1) by auto
    show ?thesis
    proof (cases "?s n < ?s (xs ! ?w)")
      case True
      have "place_node score_of (admit c) shards (n, ?g n) (map ?cand xs, gc)
          = (map ?cand (xs[?w := n]), gc_inc (gc_dec gc (?g (xs ! ?w))) (?g n))"
        using weight full True w(1) less [of "xs ! ?w"]
        by (simp add: place_node_def adm fresh_cand Let_def map_update) (simp add: cand_of_def)
      then show ?thesis
        using selection_replace_worst [OF sel n full below w True] gc.tracks_replace [OF tr w(1) lim(2), of n]
        by (auto simp: loop_inv_def)
    next
      case skip: False
      have "place_node score_of (admit c) shards (n, ?g n) (map ?cand xs, gc) = (map ?cand xs, gc)"
        using weight full skip w(1) less [of "xs ! ?w"]
        by (simp add: place_node_def adm fresh_cand Let_def) (simp add: cand_of_def)
      moreover have "left_out ?s ?g cap shards xs n"
        using full w(2) skip by (auto simp: left_out_def intro: order_trans)
      ultimately show ?thesis using loop_inv_skip [OF tr sel] by simp
    qed
  qed
qed

text \<open>A node whose group is full.\<close>

lemma place_node_constrained:
  assumes tr: "gc.tracks (group_key c) xs gc" and sel: "selection (rank_of score_of) (group_key c) cap shards D xs"
    and n: "n \<notin> D"
    and okx: "\<forall>x \<in> set xs. scored score_of x" and okn: "scored score_of n" and weight: "\<not> f64_eq (weight n) f64_zero"
    and at: "group_count (group_key c) xs (group_key c n) = cap (group_key c n)"
    and adm: "admit c (unat (gc_get gc (group_key c n))) n = Constrained"
  shows "loop_inv score_of shards (insert n D)
     (place_node score_of (admit c) shards (n, group_key c n) (map (cand_of score_of) xs, gc))"
proof -
  let ?s = "rank_of score_of" and ?g = "group_key c" and ?cand = "cand_of score_of"
  note less = score_less [OF okx okn] and worst = worst_in_group_of_nodes [OF okx, of "?g n"]
  show ?thesis
  proof (cases "find_worst_in_group (map ?cand xs) (?g n)")
    case None
    then have "place_node score_of (admit c) shards (n, ?g n) (map ?cand xs, gc) = (map ?cand xs, gc)"
      using weight by (simp add: place_node_def adm Let_def)
    moreover have "left_out ?s ?g cap shards xs n" using None worst at by (auto simp: left_out_def)
    ultimately show ?thesis using loop_inv_skip [OF tr sel] by simp
  next
    case (Some w)
    then have w: "w < length xs" "?g (xs ! w) = ?g n" "\<forall>y \<in> set xs. ?g y = ?g n \<longrightarrow> ?s y \<le> ?s (xs ! w)"
      using worst by auto
    show ?thesis
    proof (cases "?s n < ?s (xs ! w)")
      case True
      have "place_node score_of (admit c) shards (n, ?g n) (map ?cand xs, gc) = (map ?cand (xs[w := n]), gc)"
        using weight Some True w(1) less [of "xs ! w"]
        by (simp add: place_node_def adm fresh_cand Let_def map_update) (simp add: cand_of_def)
      then show ?thesis
        using selection_replace_in_group [OF sel n at w True] gc.tracks_replace_same [OF tr w(1,2)]
        by (auto simp: loop_inv_def)
    next
      case skip: False
      have "place_node score_of (admit c) shards (n, ?g n) (map ?cand xs, gc) = (map ?cand xs, gc)"
        using weight Some skip w(1) less [of "xs ! w"]
        by (simp add: place_node_def adm fresh_cand Let_def) (simp add: cand_of_def)
      moreover have "left_out ?s ?g cap shards xs n"
        using at w(3) skip by (auto simp: left_out_def intro: order_trans)
      ultimately show ?thesis using loop_inv_skip [OF tr sel] by simp
    qed
  qed
qed

lemma place_node_inv:
  assumes inv: "loop_inv score_of shards D st" and n: "n \<notin> D" and shards: "0 < shards" "shards \<le> MAX_SHARDS"
    and ok: "\<forall>m \<in> D. scored score_of m" "\<not> f64_eq (weight n) f64_zero \<Longrightarrow> scored score_of n"
  shows "loop_inv score_of shards (if f64_eq (weight n) f64_zero then D else insert n D)
     (place_node score_of (admit c) shards (n, group_key c n) st)"
proof (cases "f64_eq (weight n) f64_zero")
  case True
  with inv show ?thesis by (simp add: place_node_def case_prod_unfold)
next
  case False
  let ?g = "group_key c"
  from inv obtain xs gc where st: "st = (map (cand_of score_of) xs, gc)" and tr: "gc.tracks ?g xs gc"
    and sel: "selection (rank_of score_of) ?g cap shards D xs" by (cases st) (auto simp: loop_inv_def)
  from sel have len: "length xs \<le> shards" and okx: "\<forall>x \<in> set xs. scored score_of x"
    and caps: "group_count ?g xs (?g n) \<le> cap (?g n)"
    using ok(1) by (auto simp: selection_def)
  have val: "unat (gc_get gc (?g n)) = group_count ?g xs (?g n)" using tr by (simp add: gc.tracks_def)
  have "group_count ?g xs (?g n) \<le> MAX_SHARDS" using gc.group_count_le_length [of ?g xs "?g n"] len shards by simp
  note adm = admit_law [OF this, of n]
  show ?thesis
  proof (cases "group_count ?g xs (?g n) < cap (?g n)")
    case True
    with adm val have "admit c (unat (gc_get gc (?g n))) n = Global" by simp
    from place_node_global [OF tr sel n shards okx ok(2) [OF False] False True this] False st show ?thesis by simp
  next
    case at: False
    with adm val have "admit c (unat (gc_get gc (?g n))) n = Constrained" by simp
    from place_node_constrained [OF tr sel n okx ok(2) [OF False] False _ this] at caps False st show ?thesis by simp
  qed
qed

end

end
