(* ===== verification/Placement_Properties.thy ===== *)
theory Placement_Properties
  imports Placement_Selection
begin

text \<open>
  What placement promises: distinct active nodes within the caps, the best admissible choice at every
  score, failure only where no admissible choice exists, and no movement when a node that holds no shard
  leaves. The scores are assumed to be non-negative numbers, which \<open>-log(u) / w\<close> is for \<open>u\<close> in
  \<open>[2^-53, 1]\<close> and a positive finite weight.
\<close>

section \<open>The cluster map\<close>

lemma first_duplicate_None:
  "sorted (map key xs) \<Longrightarrow> first_duplicate key xs = None \<longleftrightarrow> distinct (map key xs)"
proof (induction key xs rule: first_duplicate.induct)
  case (1 key x y rest)
  then show ?case by (auto simp: less_le)
qed auto

lemma check_weights_ok:
  "check_weights nodes = Inr u \<longleftrightarrow> (\<forall>n \<in> set nodes. f64_is_finite (weight n) \<and> \<not> f64_less (weight n) f64_zero)"
  by (induction nodes) (auto split: if_splits)

lemma ClusterMap_new_Inr:
  "ClusterMap_new nodes = Inr cluster \<longleftrightarrow>
     nodes \<noteq> [] \<and> (\<forall>n \<in> set nodes. f64_is_finite (weight n) \<and> \<not> f64_less (weight n) f64_zero) \<and>
     distinct (map node_id nodes) \<and> cluster = sort_key node_id nodes"
proof -
  have "distinct (map node_id (sort_key node_id nodes)) \<longleftrightarrow> distinct (map node_id nodes)"
    by (metis mset_map mset_sort mset_eq_imp_distinct_iff)
  moreover have "first_duplicate node_id (sort_key node_id nodes) = None \<longleftrightarrow> distinct (map node_id (sort_key node_id nodes))"
    by (rule first_duplicate_None) simp
  ultimately show ?thesis
    by (auto simp: ClusterMap_new_def check_weights_ok Let_def split: option.splits if_splits)
qed

text \<open>
  \<open>ClusterMap::new\<close> accepts exactly the non-empty node lists with finite, non-negative weights and
  distinct identifiers, and stores them in strictly increasing order of identifier.
\<close>

theorem ClusterMap_new_sorted:
  "(\<exists>cluster. ClusterMap_new nodes = Inr cluster \<and> mset cluster = mset nodes \<and> sorted_wrt (<) (map node_id cluster)) \<longleftrightarrow>
     nodes \<noteq> [] \<and> (\<forall>n \<in> set nodes. f64_is_finite (weight n) \<and> 0 \<le> f64_rank (weight n)) \<and> distinct (map node_id nodes)"
proof -
  have "\<not> f64_less w f64_zero \<longleftrightarrow> 0 \<le> f64_rank w" if "f64_is_finite w" for w
    using that by (auto simp: f64_less_def f64_zero_facts f64_is_finite_not_nan)
  then have "(\<forall>n \<in> set nodes. f64_is_finite (weight n) \<and> \<not> f64_less (weight n) f64_zero) \<longleftrightarrow>
      (\<forall>n \<in> set nodes. f64_is_finite (weight n) \<and> 0 \<le> f64_rank (weight n))" by blast
  moreover have "sorted_wrt (<) (map node_id (sort_key node_id nodes))" if "distinct (map node_id nodes)"
    using that by (metis distinct_map distinct_sort mset_eq_imp_distinct_iff mset_map mset_sort sorted_sort_key strict_sorted_iff)
  ultimately show ?thesis by (auto simp: ClusterMap_new_Inr)
qed

section \<open>The loop over the nodes\<close>

text \<open>The nodes that can hold a shard.\<close>

definition active :: "NodeInfo list \<Rightarrow> NodeInfo set" where
  "active nodes = {n \<in> set nodes. f64_less f64_zero (weight n)}"

text \<open>The nodes behind the identifiers \<open>place\<close> returns.\<close>

definition chosen :: "NodeInfo list \<Rightarrow> NodeId list \<Rightarrow> NodeInfo set" where
  "chosen nodes ids = {n \<in> active nodes. node_id n \<in> set ids}"

text \<open>What is relied on of \<open>-deterministic_log_u53(u) / w\<close>: it is a number and not negative.\<close>

definition scoring_ok :: "Scoring \<Rightarrow> bool" where
  "scoring_ok sc \<longleftrightarrow> (\<forall>u w. 1 \<le> unat u \<and> unat u \<le> 2 ^ 53 \<and> f64_is_finite w \<and> f64_less f64_zero w \<longrightarrow>
     \<not> f64_is_nan (neg_log_over sc u w) \<and> 0 \<le> f64_rank (neg_log_over sc u w))"

lemma Unit53_range: "1 \<le> unat (Unit53_from_hash h) \<and> unat (Unit53_from_hash h) \<le> 2 ^ 53"
proof -
  have "unat h < 2 ^ 64" using unsigned_less [of h] by simp
  then have "unat (drop_bit 11 h) < 2 ^ 53"
    by (simp add: drop_bit_eq_div unat_div less_mult_imp_div_less)
  then show ?thesis using unat_add_no_wrap [of "drop_bit 11 h" 1] by (simp add: Unit53_from_hash_def)
qed

text \<open>With injective scores the number of members below every score determines a set.\<close>

lemma count_below_step:
  fixes s :: "'a \<Rightarrow> int"
  assumes "finite X" "X \<subseteq> A" "inj_on s A" "x \<in> A"
  shows "card {n \<in> X. s n \<le> s x} = card {n \<in> X. s n < s x} + (if x \<in> X then 1 else 0)"
proof -
  have "n = x \<or> s n < s x" if "n \<in> X" "s n \<le> s x" for n
    using that assms(2-4) by (metis inj_onD order_le_less subsetD)
  then have "{n \<in> X. s n \<le> s x} = (if x \<in> X then insert x {n \<in> X. s n < s x} else {n \<in> X. s n < s x})"
    by force
  then show ?thesis using assms(1) by simp
qed

lemma counts_determine:
  fixes s :: "'a \<Rightarrow> int"
  assumes "inj_on s A" "finite A" "X \<subseteq> A" "Y \<subseteq> A" and "\<And>t. card {n \<in> X. s n \<le> t} = card {n \<in> Y. s n \<le> t}"
  shows "X = Y"
proof -
  have "x \<in> X \<longleftrightarrow> x \<in> Y" if "x \<in> A" for x
    using count_below_step [of X A s x] count_below_step [of Y A s x] assms(1-4) assms(5) [of "s x"]
      assms(5) [of "s x - 1"] that finite_subset [OF _ assms(2)]
    by (auto split: if_splits)
  then show ?thesis using assms(3,4) by blast
qed

context partition_constraint
begin

lemma place_loop_inv:
  assumes "distinct ns" and "0 < shards" and "shards \<le> MAX_SHARDS"
    and "\<forall>n \<in> set ns. \<not> f64_eq (weight n) f64_zero \<longrightarrow> scored score_of n"
  shows "loop_inv score_of shards {n \<in> set ns. \<not> f64_eq (weight n) f64_zero}
     (fold (place_node score_of (admit c) shards) (map (\<lambda>n. (n, group_key c n)) ns) ([], []))"
  using assms
proof (induction ns rule: rev_induct)
  case Nil
  then show ?case by (simp add: loop_inv_def gc.tracks_empty selection_def group_count_def)
next
  case (snoc n ns)
  let ?D = "{n \<in> set ns. \<not> f64_eq (weight n) f64_zero}"
  have "{m \<in> set (ns @ [n]). \<not> f64_eq (weight m) f64_zero} =
      (if f64_eq (weight n) f64_zero then ?D else insert n ?D)" by auto
  moreover have "loop_inv score_of shards ?D
      (fold (place_node score_of (admit c) shards) (map (\<lambda>n. (n, group_key c n)) ns) ([], []))"
    using snoc by auto
  note place_node_inv [OF this, of n]
  ultimately show ?case using snoc.prems by simp
qed

lemma placer_facts:
  assumes cluster: "ClusterMap_new nodes = Inr cluster" and placer: "Placer_new cfg cluster c = Inr placer"
    and sc: "scoring_ok sc"
  shows "0 < config_total_shards cfg" and "config_total_shards cfg \<le> MAX_SHARDS"
    and "placer = \<lparr>placer_config = cfg, placer_nodes = map (\<lambda>n. (n, group_key c n)) cluster, placer_admit = admit c\<rparr>"
    and "{n \<in> set cluster. \<not> f64_eq (weight n) f64_zero} = active nodes"
    and "\<forall>n \<in> set cluster. \<not> f64_eq (weight n) f64_zero \<longrightarrow> scored (score sc key) n"
    and "distinct cluster"
proof -
  from cluster have nodes: "\<forall>n \<in> set nodes. f64_is_finite (weight n) \<and> \<not> f64_less (weight n) f64_zero"
    and dist: "distinct (map node_id nodes)" and cl: "cluster = sort_key node_id nodes"
    by (auto simp: ClusterMap_new_Inr)
  from placer show "0 < config_total_shards cfg" and "config_total_shards cfg \<le> MAX_SHARDS"
    and "placer = \<lparr>placer_config = cfg, placer_nodes = map (\<lambda>n. (n, group_key c n)) cluster, placer_admit = admit c\<rparr>"
    by (auto simp: Placer_new_def PlacementConfig_validate_def validate_total_shards_def Let_def split: if_splits)
  show act: "{n \<in> set cluster. \<not> f64_eq (weight n) f64_zero} = active nodes"
    using nodes f64_nonzero_weight by (auto simp: cl active_def)
  have "scored (score sc key) n" if "n \<in> active nodes" for n
  proof -
    have "f64_is_finite (weight n)" "f64_less f64_zero (weight n)" using that nodes by (auto simp: active_def)
    with sc Unit53_range [of "hash_key_node sc key (node_id n)"] show ?thesis
      unfolding scoring_ok_def scored_def rank_of_def score_def Let_def by blast
  qed
  then show "\<forall>n \<in> set cluster. \<not> f64_eq (weight n) f64_zero \<longrightarrow> scored (score sc key) n" using act by blast
  show "distinct cluster" using dist by (simp add: cl distinct_map)
qed

lemma place_result:
  assumes cluster: "ClusterMap_new nodes = Inr cluster" and placer: "Placer_new cfg cluster c = Inr placer"
    and sc: "scoring_ok sc"
  obtains xs where "selection (rank_of (score sc key)) (group_key c) cap (config_total_shards cfg) (active nodes) xs"
    and "\<And>out. place sc placer key out =
      (if length out \<noteq> config_total_shards cfg then Inl (OutputLengthMismatch (length out) (config_total_shards cfg))
       else if length xs < config_total_shards cfg then Inl (ConstraintUnsatisfiable (config_total_shards cfg) (length xs))
       else Inr (map node_id xs))"
proof -
  let ?shards = "config_total_shards cfg" and ?score = "score sc key"
  let ?st = "fold (place_node ?score (admit c) ?shards) (map (\<lambda>n. (n, group_key c n)) cluster) ([], [])"
  note facts = placer_facts [OF cluster placer sc]
  have "loop_inv ?score ?shards (active nodes) ?st"
    using place_loop_inv [of cluster ?shards ?score] facts by simp
  then obtain xs gc where loop: "?st = (map (cand_of ?score) xs, gc)"
    and sel: "selection (rank_of ?score) (group_key c) cap ?shards (active nodes) xs"
    by (cases ?st) (auto simp: loop_inv_def)
  have "length xs \<le> ?shards" using sel by (simp add: selection_def)
  then have "place sc placer key out =
      (if length out \<noteq> ?shards then Inl (OutputLengthMismatch (length out) ?shards)
       else if length xs < ?shards then Inl (ConstraintUnsatisfiable ?shards (length xs))
       else Inr (map node_id xs))" for out
    by (auto simp: place_def facts(3) loop cand_of_def comp_def)
  with sel that show ?thesis by blast
qed

text \<open>Every round leaves the buffers within their fixed sizes.\<close>

lemma place_buffers:
  assumes cluster: "ClusterMap_new nodes = Inr cluster" and placer: "Placer_new cfg cluster c = Inr placer"
    and sc: "scoring_ok sc"
    and st: "fold (place_node (score sc key) (placer_admit placer) (config_total_shards cfg)) (take k (placer_nodes placer)) ([], []) = (cands, gc)"
  shows "length gc \<le> length cands" and "length cands \<le> config_total_shards cfg" and "config_total_shards cfg \<le> MAX_SHARDS"
proof -
  note facts = placer_facts [OF cluster placer sc]
  have "loop_inv (score sc key) (config_total_shards cfg) {n \<in> set (take k cluster). \<not> f64_eq (weight n) f64_zero} (cands, gc)"
    using place_loop_inv [of "take k cluster" "config_total_shards cfg" "score sc key"] facts st
    by (simp add: take_map) (meson in_set_takeD)
  then obtain xs where "cands = map (cand_of (score sc key)) xs" "gc.tracks (group_key c) xs gc"
    "selection (rank_of (score sc key)) (group_key c) cap (config_total_shards cfg) {n \<in> set (take k cluster). \<not> f64_eq (weight n) f64_zero} xs"
    by (auto simp: loop_inv_def)
  then show "length gc \<le> length cands" and "length cands \<le> config_total_shards cfg" and "config_total_shards cfg \<le> MAX_SHARDS"
    using gc_length_bound facts(2) by (auto simp: selection_def)
qed

definition admissible :: "nat \<Rightarrow> NodeInfo list \<Rightarrow> NodeInfo set \<Rightarrow> bool" where
  "admissible shards nodes S \<longleftrightarrow> S \<subseteq> active nodes \<and> card S \<le> shards \<and>
     (\<forall>h. card {n \<in> S. group_key c n = h} \<le> cap h)"

lemma finite_active: "finite (active nodes)"
  by (simp add: active_def)

lemma active_id_inj: "ClusterMap_new nodes = Inr cluster \<Longrightarrow> inj_on node_id (active nodes)"
  by (auto simp: ClusterMap_new_Inr distinct_map active_def intro: inj_on_subset)

lemma chosen_selection:
  assumes "ClusterMap_new nodes = Inr cluster" and "selection s g k room (active nodes) xs"
  shows "chosen nodes (map node_id xs) = set xs"
  using assms(2) active_id_inj [OF assms(1)] by (auto simp: chosen_def selection_def inj_on_def subset_iff)

lemma place_Inr_admissible:
  assumes cluster: "ClusterMap_new nodes = Inr cluster" and placer: "Placer_new cfg cluster c = Inr placer"
    and sc: "scoring_ok sc" and res: "place sc placer key out = Inr ids"
  shows "length ids = config_total_shards cfg" and "distinct ids" and "set ids \<subseteq> node_id ` active nodes"
    and "admissible (config_total_shards cfg) nodes (chosen nodes ids)"
    and "admissible (config_total_shards cfg) nodes S \<Longrightarrow>
      card {n \<in> S. rank_of (score sc key) n \<le> t} \<le> card {n \<in> chosen nodes ids. rank_of (score sc key) n \<le> t}"
proof -
  obtain xs where sel: "selection (rank_of (score sc key)) (group_key c) cap (config_total_shards cfg) (active nodes) xs"
    and pl: "\<And>out. place sc placer key out =
      (if length out \<noteq> config_total_shards cfg then Inl (OutputLengthMismatch (length out) (config_total_shards cfg))
       else if length xs < config_total_shards cfg then Inl (ConstraintUnsatisfiable (config_total_shards cfg) (length xs))
       else Inr (map node_id xs))"
    using place_result [OF cluster placer sc] by blast
  from res pl have ids: "ids = map node_id xs" and len: "\<not> length xs < config_total_shards cfg" by (auto split: if_splits)
  from sel have xs: "distinct xs" "set xs \<subseteq> active nodes" "length xs \<le> config_total_shards cfg"
    and caps: "\<And>h. group_count (group_key c) xs h \<le> cap h" by (auto simp: selection_def)
  have ch: "chosen nodes ids = set xs" unfolding ids by (rule chosen_selection [OF cluster sel])
  show "length ids = config_total_shards cfg" using xs len by (simp add: ids)
  show "distinct ids" using xs active_id_inj [OF cluster] by (auto simp: ids distinct_map intro: inj_on_subset)
  show "set ids \<subseteq> node_id ` active nodes" using xs by (auto simp: ids)
  show "admissible (config_total_shards cfg) nodes (chosen nodes ids)"
    using xs caps group_count_card [OF xs(1), of "group_key c"] by (simp add: ch admissible_def distinct_card)
  show "card {n \<in> S. rank_of (score sc key) n \<le> t} \<le> card {n \<in> chosen nodes ids. rank_of (score sc key) n \<le> t}"
    if "admissible (config_total_shards cfg) nodes S"
    using that selection_dominates [OF sel, of S t] finite_subset [OF _ finite_active]
    by (auto simp: admissible_def ch)
qed

lemma place_Inl_unsatisfiable:
  assumes cluster: "ClusterMap_new nodes = Inr cluster" and placer: "Placer_new cfg cluster c = Inr placer"
    and sc: "scoring_ok sc" and out: "length out = config_total_shards cfg" and res: "place sc placer key out = Inl e"
  shows "\<exists>filled. e = ConstraintUnsatisfiable (config_total_shards cfg) filled \<and> filled < config_total_shards cfg \<and>
    (\<exists>S. admissible (config_total_shards cfg) nodes S \<and> card S = filled) \<and>
    (\<forall>S. admissible (config_total_shards cfg) nodes S \<longrightarrow> card S \<le> filled)"
proof -
  obtain xs where sel: "selection (rank_of (score sc key)) (group_key c) cap (config_total_shards cfg) (active nodes) xs"
    and pl: "\<And>out. place sc placer key out =
      (if length out \<noteq> config_total_shards cfg then Inl (OutputLengthMismatch (length out) (config_total_shards cfg))
       else if length xs < config_total_shards cfg then Inl (ConstraintUnsatisfiable (config_total_shards cfg) (length xs))
       else Inr (map node_id xs))"
    using place_result [OF cluster placer sc] by blast
  have "card S \<le> length xs" if S: "admissible (config_total_shards cfg) nodes S" for S
  proof -
    have fin: "finite S" using S finite_subset [OF _ finite_active] by (auto simp: admissible_def)
    then obtain t where t: "\<forall>n \<in> S. rank_of (score sc key) n \<le> t"
      by (metis finite_imageI finite_nat_set_iff_bounded_le imageI Max_ge)
    then have "{n \<in> S. rank_of (score sc key) n \<le> t} = S" by auto
    then have "card S \<le> card {n \<in> set xs. rank_of (score sc key) n \<le> t}"
      using selection_dominates [OF sel fin, of t] S by (simp add: admissible_def)
    also have "\<dots> \<le> card (set xs)" by (intro card_mono) auto
    finally show ?thesis using card_length [of xs] by simp
  qed
  moreover have "admissible (config_total_shards cfg) nodes (set xs)" "card (set xs) = length xs"
    using sel group_count_card [of xs "group_key c"] by (auto simp: selection_def admissible_def distinct_card)
  ultimately show ?thesis using res pl out by (auto split: if_splits)
qed

lemma place_Inr_if_admissible:
  assumes cluster: "ClusterMap_new nodes = Inr cluster" and placer: "Placer_new cfg cluster c = Inr placer"
    and sc: "scoring_ok sc" and out: "length out = config_total_shards cfg"
    and S: "admissible (config_total_shards cfg) nodes S" "card S = config_total_shards cfg"
  shows "\<exists>ids. place sc placer key out = Inr ids"
  using place_Inl_unsatisfiable [OF cluster placer sc out] S by (cases "place sc placer key out") force+

text \<open>Two admissible choices that dominate one another are the same one, if no two scores are equal.\<close>

lemma place_node_removal:
  assumes cluster: "ClusterMap_new nodes = Inr cluster" and placer: "Placer_new cfg cluster c = Inr placer"
    and cluster': "ClusterMap_new nodes' = Inr cluster'" and placer': "Placer_new cfg cluster' c = Inr placer'"
    and sc: "scoring_ok sc" and res: "place sc placer key out = Inr ids"
    and sub: "active nodes' \<subseteq> active nodes" and kept: "chosen nodes ids \<subseteq> active nodes'"
    and inj: "inj_on (rank_of (score sc key)) (active nodes)"
  shows "\<exists>ids'. place sc placer' key out = Inr ids' \<and> set ids' = set ids"
proof -
  let ?shards = "config_total_shards cfg" and ?s = "rank_of (score sc key)" and ?X = "chosen nodes ids"
  note old = place_Inr_admissible [OF cluster placer sc res]
  have X: "admissible ?shards nodes' ?X" using old(4) kept by (simp add: admissible_def)
  have ids: "node_id ` ?X = set ids" using old(3) by (auto simp: chosen_def)
  have "card ?X = ?shards"
    using ids card_image [of node_id ?X] active_id_inj [OF cluster] distinct_card [OF old(2)] old(1)
    by (metis (mono_tags) X admissible_def inj_on_subset old(4))
  moreover have "length out = ?shards"
    using res placer_facts(3) [OF cluster placer sc] by (simp add: place_def Let_def split: if_splits)
  ultimately obtain ids' where res': "place sc placer' key out = Inr ids'"
    using place_Inr_if_admissible [OF cluster' placer' sc _ X] by blast
  note new = place_Inr_admissible [OF cluster' placer' sc res']
  let ?Y = "chosen nodes' ids'"
  have Y: "admissible ?shards nodes ?Y" using new(4) sub by (auto simp: admissible_def)
  have "card {n \<in> ?X. ?s n \<le> t} = card {n \<in> ?Y. ?s n \<le> t}" for t
    using old(5) [OF Y, of t] new(5) [OF X, of t] by simp
  then have "?X = ?Y"
    using old(4) Y by (intro counts_determine [OF inj finite_active]) (auto simp: admissible_def)
  moreover have "node_id ` ?Y = set ids'" using new(3) by (auto simp: chosen_def)
  ultimately show ?thesis using res' ids by auto
qed

end

section \<open>The constraints of the crate\<close>

definition level_cap_of :: "nat \<Rightarrow> u64 \<Rightarrow> nat" where
  "level_cap_of cap_max h = (if h = - 1 then MAX_SHARDS + 1 else cap_max)"

lemma u32_less: "unat v < 2 ^ 32" for v :: u32
  using unsigned_less [of v] by simp

lemma unat_ucast_u32: "unat (ucast v :: u64) = unat v" for v :: u32
  using u32_less [of v] by (simp add: unsigned_ucast_eq take_bit_nat_eq_self)

lemma ucast_u32_inj: "ucast v = (ucast v' :: u64) \<longleftrightarrow> v = v'" for v v' :: u32
  by (metis unat_ucast_u32 unsigned_word_eqI)

lemma ucast_u32_not_max: "ucast v \<noteq> (- 1 :: u64)" for v :: u32
proof
  assume "ucast v = (- 1 :: u64)"
  then have "unat v = unat (- 1 :: u64)" using unat_ucast_u32 [of v] by simp
  then show False using u32_less [of v] by (simp add: unsigned_minus_1_eq_mask mask_eq_exp_minus_1)
qed

interpretation level: partition_constraint "level_cap l cap_max" "level_cap_of cap_max" for l cap_max
  by unfold_locales
    (auto simp: level_cap_def level_cap_of_def ucast_u32_not_max split: option.splits)

interpretation unconstrained: partition_constraint PlacementConstraint_none "\<lambda>_. MAX_SHARDS + 1"
  by unfold_locales (simp add: PlacementConstraint_none_def)

text \<open>A set of nodes that respects the cap at a topology level.\<close>

definition within_level_cap :: "Level \<Rightarrow> nat \<Rightarrow> nat \<Rightarrow> NodeInfo list \<Rightarrow> NodeInfo set \<Rightarrow> bool" where
  "within_level_cap l cap_max shards nodes S \<longleftrightarrow> S \<subseteq> active nodes \<and> card S \<le> shards \<and>
     (\<forall>v. card {n \<in> S. TopologyKey_level (location n) l = Some v} \<le> cap_max)"

lemma level_admissible:
  assumes "shards \<le> MAX_SHARDS"
  shows "level.admissible l cap_max shards nodes S \<longleftrightarrow> within_level_cap l cap_max shards nodes S"
proof -
  have key: "group_key (level_cap l cap_max) n = h \<longleftrightarrow>
      (case TopologyKey_level (location n) l of Some v \<Rightarrow> ucast v = h | None \<Rightarrow> h = - 1)" for n h
    by (auto simp: level_cap_def split: option.splits)
  have group: "{n \<in> S. group_key (level_cap l cap_max) n = ucast v} = {n \<in> S. TopologyKey_level (location n) l = Some v}"
    for v :: u32
    unfolding key by (auto simp: ucast_u32_not_max ucast_u32_inj split: option.splits)
  show ?thesis
  proof
    assume A: "level.admissible l cap_max shards nodes S"
    have "card {n \<in> S. TopologyKey_level (location n) l = Some v} \<le> cap_max" for v
    proof -
      from A have "card {n \<in> S. group_key (level_cap l cap_max) n = ucast v} \<le> level_cap_of cap_max (ucast v)"
        unfolding level.admissible_def by blast
      then show ?thesis unfolding group by (simp add: level_cap_of_def ucast_u32_not_max)
    qed
    with A show "within_level_cap l cap_max shards nodes S"
      by (simp add: level.admissible_def within_level_cap_def)
  next
    assume S: "within_level_cap l cap_max shards nodes S"
    then have fin: "finite S" using level.finite_active finite_subset by (auto simp: within_level_cap_def)
    have "card {n \<in> S. group_key (level_cap l cap_max) n = h} \<le> level_cap_of cap_max h" for h
    proof (cases "\<exists>v :: u32. h = ucast v")
      case True
      then show ?thesis using S group ucast_u32_not_max by (auto simp: within_level_cap_def level_cap_of_def)
    next
      case other: False
      show ?thesis
      proof (cases "h = - 1")
        case True
        have "card {n \<in> S. group_key (level_cap l cap_max) n = h} \<le> card S" using fin by (intro card_mono) auto
        then show ?thesis using S assms True by (simp add: within_level_cap_def level_cap_of_def)
      next
        case False
        then have "{n \<in> S. group_key (level_cap l cap_max) n = h} = {}"
          using other unfolding key by (auto split: option.splits)
        then show ?thesis by (simp only: card.empty le0)
      qed
    qed
    with S show "level.admissible l cap_max shards nodes S"
      by (simp add: level.admissible_def within_level_cap_def)
  qed
qed

section \<open>Properties\<close>

text \<open>A small cluster for the witnesses: four nodes in two racks, with scores that follow the identifiers.\<close>

definition sc0 :: Scoring where
  "sc0 = \<lparr>hash_bytes = (\<lambda>data. push_bit 11 (ucast (data ! 0))), neg_log_over = (\<lambda>u w. u)\<rparr>"

definition node0 :: "u32 \<Rightarrow> u32 \<Rightarrow> NodeInfo" where
  "node0 i rack = \<lparr>node_id = i, location = TopologyKey_rack rack, weight = 0x3ff0000000000000\<rparr>"

definition nodes0 :: "NodeInfo list" where
  "nodes0 = [node0 4 1, node0 1 0, node0 2 0, node0 3 0]"

definition cluster0 :: ClusterMap where
  "cluster0 = [node0 1 0, node0 2 0, node0 3 0, node0 4 1]"

definition placer0 :: Placer where
  "placer0 = \<lparr>placer_config = \<lparr>config_total_shards = 2\<rparr>, placer_nodes = [(node0 1 0, 0), (node0 2 0, 0), (node0 3 0, 0), (node0 4 1, 1)],
     placer_admit = admit (rack_cap 1)\<rparr>"

lemma scoring_ok_sc0: "scoring_ok sc0"
  by (auto simp: scoring_ok_def sc0_def f64_is_nan_def f64_rank_def f64_magnitude_def)

lemma weight0: "f64_is_finite 0x3ff0000000000000" "\<not> f64_less 0x3ff0000000000000 f64_zero"
  "f64_less f64_zero 0x3ff0000000000000" "\<not> f64_eq 0x3ff0000000000000 f64_zero"
  by (simp_all add: f64_is_finite_def f64_eq_def f64_less_def f64_is_nan_def f64_rank_def f64_magnitude_def f64_zero_def)

lemma cluster0_new: "ClusterMap_new nodes0 = Inr cluster0"
  by (simp add: ClusterMap_new_def nodes0_def cluster0_def node0_def weight0 word_le_nat_alt)

lemma placer0_new: "Placer_new \<lparr>config_total_shards = 2\<rparr> cluster0 (level_cap Level_RACK 1) = Inr placer0"
  by (simp add: Placer_new_def PlacementConfig_validate_def validate_total_shards_def MAX_SHARDS_def
      active_node_count_def cluster0_def node0_def weight0
      placer0_def level_cap_def rack_cap_def TopologyKey_level_def TopologyKey_rack_def Let_def)

lemma score0: "score sc0 [] i w = drop_bit 11 (push_bit 11 (ucast (ucast i :: u8))) + 1"
  by (simp add: score_def sc0_def hash_key_node_def to_le_bytes_u32_def STACK_KEY_LIMIT_def Unit53_from_hash_def Let_def
      nth_append)

lemma less0: "f64_less x y \<longleftrightarrow> x < y" if "x < 0x1000000000000000" "y < 0x1000000000000000"
  using that by (simp add: f64_less_def f64_is_nan_def f64_rank_def f64_magnitude_def word_less_nat_alt)
    (simp flip: word_less_nat_alt add: word_less_def)

lemma place0: "place sc0 placer0 [] [0, 0] = Inr [1, 4]"
proof -
  have s: "score sc0 [] 1 w = 2" "score sc0 [] 2 w = 3" "score sc0 [] 3 w = 4" "score sc0 [] 4 w = 5" for w
    by (simp_all add: score0)
  let ?step = "place_node (score sc0 []) (admit (rack_cap 1)) 2"
  let ?c1 = "\<lparr>cand_score = 2, cand_node = 1, cand_group = 0\<rparr>" and ?c4 = "\<lparr>cand_score = 5, cand_node = 4, cand_group = 1\<rparr>"
  have adm: "admit (rack_cap (Suc 0)) k (node0 i r) = (if k < 1 then Global else Constrained)" for k i r
    by (simp add: rack_cap_def level_cap_def node0_def TopologyKey_level_def TopologyKey_rack_def)
  have w: "weight (node0 i r) = 0x3ff0000000000000" "node_id (node0 i r) = i" for i r by (simp_all add: node0_def)
  have fw: "find_worst_in_group [?c1] 0 = Some 0"
    by (simp add: find_worst_in_group_def f64_less_def f64_is_nan_def f64_rank_def f64_magnitude_def f64_neg_infinity_def)
  have "?step (node0 1 0, 0) ([], []) = ([?c1], [(0, 1)])"
    by (simp add: place_node_def adm w weight0 s Let_def)
  moreover have "?step (node0 2 0, 0) ([?c1], [(0, 1)]) = ([?c1], [(0, 1)])"
    "?step (node0 3 0, 0) ([?c1], [(0, 1)]) = ([?c1], [(0, 1)])"
    by (simp_all add: place_node_def adm w weight0 s fw less0 Let_def)
  moreover have "?step (node0 4 1, 1) ([?c1], [(0, 1)]) = ([?c1, ?c4], [(0, 1), (1, 1)])"
    by (simp add: place_node_def adm w weight0 s Let_def)
  ultimately show ?thesis by (simp add: place_def placer0_def)
qed

theorem ClusterMap_new_sorted_witness:
  "\<exists>cluster. ClusterMap_new nodes0 = Inr cluster \<and> mset cluster = mset nodes0 \<and> sorted_wrt (<) (map node_id cluster)"
  unfolding ClusterMap_new_sorted by (simp add: nodes0_def node0_def f64_is_finite_def f64_rank_def f64_magnitude_def)

text \<open>
  C8. A placement under a cap of \<open>cap_max\<close> shards per value of a topology level (\<open>level_cap\<close>, with \<open>rack_cap\<close>
  its instance for racks) fills every shard, on distinct nodes of positive weight, with no more than
  \<open>cap_max\<close> of them at the same value of the level.
\<close>

theorem place_within_cap:
  assumes "ClusterMap_new nodes = Inr cluster" and "Placer_new cfg cluster (level_cap l cap_max) = Inr placer"
    and "scoring_ok sc" and "place sc placer key out = Inr ids"
  shows "length ids = config_total_shards cfg \<and> distinct ids \<and> set ids \<subseteq> node_id ` active nodes \<and>
    within_level_cap l cap_max (config_total_shards cfg) nodes (chosen nodes ids)"
  using level.place_Inr_admissible(1-4) [OF assms] level_admissible [OF level.placer_facts(2) [OF assms(1-3)]] by blast

theorem place_within_cap_witness:
  "place sc0 placer0 [] [0, 0] = Inr [1, 4] \<and> within_level_cap Level_RACK 1 2 nodes0 (chosen nodes0 [1, 4])"
  using place_within_cap [OF cluster0_new placer0_new scoring_ok_sc0 place0] place0 by simp

text \<open>
  C9. The placement is the best one: at every score \<open>t\<close>, no set of nodes within the cap has more members
  that score \<open>t\<close> or better than the chosen one has.
\<close>

theorem place_optimal:
  assumes "ClusterMap_new nodes = Inr cluster" and "Placer_new cfg cluster (level_cap l cap_max) = Inr placer"
    and "scoring_ok sc" and "place sc placer key out = Inr ids"
    and "within_level_cap l cap_max (config_total_shards cfg) nodes S"
  shows "card {n \<in> S. f64_rank (score sc key (node_id n) (weight n)) \<le> t} \<le>
    card {n \<in> chosen nodes ids. f64_rank (score sc key (node_id n) (weight n)) \<le> t}"
  using level.place_Inr_admissible(5) [OF assms(1-4)] assms(5)
    level_admissible [OF level.placer_facts(2) [OF assms(1-3)]] by (simp add: level.rank_of_def)

theorem place_optimal_witness:
  "card {n \<in> {node0 3 0}. f64_rank (score sc0 [] (node_id n) (weight n)) \<le> 4} \<le>
     card {n \<in> chosen nodes0 [1, 4]. f64_rank (score sc0 [] (node_id n) (weight n)) \<le> 4}"
proof -
  have "card {n \<in> {node0 3 0}. P n} \<le> Suc 0" for P
    by (rule order_trans [OF card_mono [of "{node0 3 0}"]]) auto
  then have "within_level_cap Level_RACK 1 2 nodes0 {node0 3 0}"
    by (simp add: within_level_cap_def active_def nodes0_def) (simp add: node0_def weight0)
  then show ?thesis
    by (intro place_optimal [OF cluster0_new placer0_new scoring_ok_sc0 place0]) simp
qed



text \<open>
  C12. Without a constraint every placement succeeds: \<open>Placer::new\<close> has already refused clusters with fewer
  active nodes than shards.
\<close>

theorem place_unconstrained_succeeds:
  assumes cluster: "ClusterMap_new nodes = Inr cluster" and placer: "Placer_new cfg cluster PlacementConstraint_none = Inr placer"
    and sc: "scoring_ok sc" and out: "length out = config_total_shards cfg"
  shows "\<exists>ids. place sc placer key out = Inr ids \<and> distinct ids \<and> length ids = config_total_shards cfg"
proof -
  let ?shards = "config_total_shards cfg"
  note facts = unconstrained.placer_facts [OF cluster placer sc]
  have "active nodes = set (filter (\<lambda>n. f64_less f64_zero (weight n)) cluster)"
    using cluster by (auto simp: active_def ClusterMap_new_Inr)
  then have "card (active nodes) = active_node_count cluster"
    using facts(6) by (simp only: active_node_count_def distinct_card distinct_filter)
  with placer have "?shards \<le> card (active nodes)"
    by (auto simp: Placer_new_def PlacementConfig_validate_def validate_total_shards_def Let_def split: if_splits)
  then obtain S where S: "S \<subseteq> active nodes" "card S = ?shards" "finite S"
    by (rule obtain_subset_with_card_n)
  have "unconstrained.admissible ?shards nodes S"
    unfolding unconstrained.admissible_def using S facts(2) card_mono [of S]
    by (force intro: order_trans [of _ "card S"])
  from unconstrained.place_Inr_if_admissible [OF cluster placer sc out this S(2)]
  show ?thesis using unconstrained.place_Inr_admissible(1,2) [OF cluster placer sc] by blast
qed

theorem place_unconstrained_succeeds_witness:
  "\<exists>placer. Placer_new \<lparr>config_total_shards = 2\<rparr> cluster0 PlacementConstraint_none = Inr placer \<and>
     (\<exists>ids. place sc0 placer [] [0, 0] = Inr ids \<and> distinct ids \<and> length ids = 2)"
proof -
  obtain placer where p: "Placer_new \<lparr>config_total_shards = 2\<rparr> cluster0 PlacementConstraint_none = Inr placer"
    by (simp add: Placer_new_def PlacementConfig_validate_def validate_total_shards_def MAX_SHARDS_def
      active_node_count_def cluster0_def node0_def weight0)
  from place_unconstrained_succeeds [OF cluster0_new p scoring_ok_sc0, of "[0, 0]" "[]"] p show ?thesis by simp
qed

text \<open>
  C11. Placement moves nothing without need: if a node that holds no shard of the key leaves the cluster
  and no two nodes have the same score, the key is placed on the same nodes as before.
\<close>

theorem place_minimal_disruption:
  assumes "ClusterMap_new nodes = Inr cluster" and "Placer_new cfg cluster (level_cap l cap_max) = Inr placer"
    and "ClusterMap_new (filter (\<lambda>n. node_id n \<noteq> gone) nodes) = Inr cluster'"
    and "Placer_new cfg cluster' (level_cap l cap_max) = Inr placer'"
    and "scoring_ok sc" and "place sc placer key out = Inr ids" and "gone \<notin> set ids"
    and "inj_on (\<lambda>n. f64_rank (score sc key (node_id n) (weight n))) (active nodes)"
  shows "\<exists>ids'. place sc placer' key out = Inr ids' \<and> set ids' = set ids"
proof -
  have "level.rank_of (score sc key) = (\<lambda>n. f64_rank (score sc key (node_id n) (weight n)))"
    by (rule ext) (rule level.rank_of_def)
  with assms(7,8) show ?thesis
    by (intro level.place_node_removal [OF assms(1-6)]) (auto simp: active_def chosen_def)
qed

lemma cluster1_new: "ClusterMap_new (filter (\<lambda>n. node_id n \<noteq> 3) nodes0) = Inr [node0 1 0, node0 2 0, node0 4 1]"
  by (simp add: ClusterMap_new_def nodes0_def cluster0_def node0_def weight0 word_le_nat_alt)

theorem place_minimal_disruption_witness:
  "\<exists>placer' ids'. Placer_new \<lparr>config_total_shards = 2\<rparr> [node0 1 0, node0 2 0, node0 4 1] (level_cap Level_RACK 1) = Inr placer' \<and>
     place sc0 placer' [] [0, 0] = Inr ids' \<and> set ids' = {1, 4}"
proof -
  obtain placer' where p: "Placer_new \<lparr>config_total_shards = 2\<rparr> [node0 1 0, node0 2 0, node0 4 1] (level_cap Level_RACK 1) = Inr placer'"
    by (simp add: Placer_new_def PlacementConfig_validate_def validate_total_shards_def MAX_SHARDS_def
      active_node_count_def node0_def weight0)
  have "inj_on (\<lambda>n. f64_rank (score sc0 [] (node_id n) (weight n))) (active nodes0)"
    by (auto simp: inj_on_def active_def nodes0_def node0_def score0 f64_rank_def f64_magnitude_def)
  from place_minimal_disruption [OF cluster0_new placer0_new cluster1_new p scoring_ok_sc0 place0 _ this] p
  show ?thesis by simp
qed

text \<open>
  The fixed-size buffers of \<open>place\<close> never overflow: after any number of rounds there are no more group
  counters than candidates and no more candidates than shards, of which there are at most \<open>MAX_SHARDS\<close>.
\<close>

theorem place_buffers_in_bounds:
  assumes "ClusterMap_new nodes = Inr cluster" and "Placer_new cfg cluster (level_cap l cap_max) = Inr placer"
    and "scoring_ok sc"
    and "fold (place_node (score sc key) (placer_admit placer) (config_total_shards cfg)) (take k (placer_nodes placer)) ([], [])
      = (cands, gc)"
  shows "length gc \<le> length cands \<and> length cands \<le> config_total_shards cfg \<and> config_total_shards cfg \<le> MAX_SHARDS"
  using level.place_buffers [OF assms] by blast

theorem place_buffers_in_bounds_witness:
  "\<exists>cands gc. fold (place_node (score sc0 []) (placer_admit placer0) 2) (take 3 (placer_nodes placer0)) ([], []) = (cands, gc) \<and>
     length gc \<le> length cands \<and> length cands \<le> 2"
proof -
  obtain cands gc where
    f: "fold (place_node (score sc0 []) (placer_admit placer0) 2) (take 3 (placer_nodes placer0)) ([], []) = (cands, gc)"
    by (cases "fold (place_node (score sc0 []) (placer_admit placer0) 2) (take 3 (placer_nodes placer0)) ([], [])")
  with place_buffers_in_bounds [OF cluster0_new placer0_new scoring_ok_sc0, of "[]" 3 cands gc] show ?thesis by simp
qed

text \<open>
  The hash input of a key and a node is the key followed by the node identifier in little-endian
  order, on the stack-buffer path and on the heap path alike.
\<close>

lemma hash_key_node_concat: "hash_key_node sc key nid = hash_bytes sc (key @ to_le_bytes_u32 nid)"
  by (simp add: hash_key_node_def Let_def)

text \<open>
  \<open>TopologyKey::new\<close> accepts exactly the segment lists with distinct levels, and a lookup in the key
  finds what the segments say.
\<close>

lemma TopologyKey_new_lookup:
  "case TopologyKey_new segments of
     Inl (DuplicateLevel level) \<Rightarrow> \<not> distinct (map fst segments) \<and> level \<in> fst ` set segments
   | Inr k \<Rightarrow> distinct (map fst segments) \<and> TopologyKey_level k l = map_of segments l"
proof -
  let ?v = "sort_key fst segments"
  have dist: "distinct (map fst ?v) \<longleftrightarrow> distinct (map fst segments)"
    by (metis mset_map mset_sort mset_eq_imp_distinct_iff)
  have dup: "first_duplicate fst ?v = None \<longleftrightarrow> distinct (map fst ?v)"
    by (rule first_duplicate_None) simp
  have mem: "x \<in> set xs" if "first_duplicate f xs = Some x" for f :: "Level \<times> u32 \<Rightarrow> Level" and xs x
    using that by (induction f xs rule: first_duplicate.induct) (auto split: if_splits)
  have look: "TopologyKey_level k l = map_of k l" for k
    by (induction k) (auto simp: TopologyKey_level_def)
  show ?thesis
  proof (cases "first_duplicate fst ?v")
    case None
    then have "map_of ?v = map_of segments" using dist dup by (intro map_of_inject_set [THEN iffD2]) auto
    with None dist dup look show ?thesis by (simp add: TopologyKey_new_def)
  next
    case (Some p)
    with dist dup mem [OF Some] show ?thesis by (cases p) (force simp: TopologyKey_new_def)
  qed
qed

end
