(* ===== verification/Lease.thy ===== *)
theory Lease
  imports Argmin_Prelude
begin

text \<open>
  Clock and lease rules of the control plane (\<^verbatim>\<open>crates/storage/src/control_plane_lease.rs\<close>): the
  process clock-health monitor, the binding of an authority deadline to a monotonic clock, the bound on
  serving deadlines, the successor fence and the durable lease-grant horizon. Times are milliseconds in
  64-bit words. Methods that take \<open>&mut self\<close> return the new state with their result.
\<close>

section \<open>Errors\<close>

datatype LeaseClockError =
    TimestampOverflow string
  | AuthorityClockTooFarAhead u64 u64 u64
  | LocalClockUnhealthy u64
  | ClockHealthSourceUnavailable
  | ServingDeadlineOutOfBounds u64 u64 u64 u64

datatype LeaseHorizonError =
    HorizonTimestampOverflow string
  | PreviousHorizonStillActive u64 u64

definition CONTROL_PLANE_CLOCK_SKEW_BUDGET_MS :: u64 where
  "CONTROL_PLANE_CLOCK_SKEW_BUDGET_MS = 1000"

section \<open>Clock health of a process\<close>

record ProcessLeaseClockHealth =
  initial_wall_ms :: u64
  initial_clock_health_ms :: u64
  latest_wall_ms :: u64
  latest_clock_health_ms :: u64
  healthy :: bool

definition ProcessLeaseClockHealth_new :: "u64 \<Rightarrow> u64 option \<Rightarrow> (LeaseClockError, ProcessLeaseClockHealth) result" where
  "ProcessLeaseClockHealth_new local_wall_ms local_clock_health_ms =
     and_then (ok_or local_clock_health_ms ClockHealthSourceUnavailable) (\<lambda>local_clock_health_ms.
       Inr \<lparr>initial_wall_ms = local_wall_ms, initial_clock_health_ms = local_clock_health_ms,
            latest_wall_ms = local_wall_ms, latest_clock_health_ms = local_clock_health_ms, healthy = True\<rparr>)"

definition observe :: "ProcessLeaseClockHealth \<Rightarrow> u64 \<Rightarrow> u64 option \<Rightarrow> u64 \<Rightarrow> ProcessLeaseClockHealth \<times> bool" where
  "observe self local_wall_ms local_clock_health_ms skew_budget_ms =
     (let unhealthy = (self\<lparr>healthy := False\<rparr>, False) in
      if \<not> healthy self then (self, False)
      else case local_clock_health_ms of None \<Rightarrow> unhealthy
      | Some local_clock_health_ms \<Rightarrow>
        if local_clock_health_ms < latest_clock_health_ms self then unhealthy
        else case checked_sub local_wall_ms (initial_wall_ms self) of None \<Rightarrow> unhealthy
        | Some wall_elapsed_ms \<Rightarrow>
          (case checked_sub local_clock_health_ms (initial_clock_health_ms self) of None \<Rightarrow> unhealthy
           | Some monotonic_elapsed_ms \<Rightarrow>
             let ok = abs_diff wall_elapsed_ms monotonic_elapsed_ms \<le> skew_budget_ms;
                 self = self\<lparr>healthy := ok\<rparr>
             in if \<not> ok then (self, ok)
                else if latest_clock_health_ms self < local_clock_health_ms
                then (self\<lparr>latest_clock_health_ms := local_clock_health_ms, latest_wall_ms := local_wall_ms\<rparr>, ok)
                else (self\<lparr>latest_wall_ms := max (latest_wall_ms self) local_wall_ms\<rparr>, ok)))"

text \<open>The closure \<open>confirm\<close> is its result: \<open>None\<close> for \<open>Err(())\<close>, else the fresh wall and health sample.\<close>

definition observe_with_older_sample_confirmation ::
  "ProcessLeaseClockHealth \<Rightarrow> u64 \<Rightarrow> u64 option \<Rightarrow> u64 \<Rightarrow> (u64 \<times> u64 option) option \<Rightarrow> ProcessLeaseClockHealth \<times> bool" where
  "observe_with_older_sample_confirmation self local_wall_ms local_clock_health_ms skew_budget_ms confirm =
     (let sample_may_precede_latest =
        (case local_clock_health_ms of None \<Rightarrow> False
         | Some health_ms \<Rightarrow> health_ms < latest_clock_health_ms self \<or>
             health_ms = latest_clock_health_ms self \<and> local_wall_ms < latest_wall_ms self)
      in if sample_may_precede_latest
         then case confirm of
                None \<Rightarrow> (self\<lparr>healthy := False\<rparr>, False)
              | Some (confirmed_wall_ms, confirmed_clock_health_ms) \<Rightarrow>
                  observe self confirmed_wall_ms confirmed_clock_health_ms skew_budget_ms
         else observe self local_wall_ms local_clock_health_ms skew_budget_ms)"

text \<open>
  \<open>validate_process_lease_clock\<close> with the process-global monitor as the state \<open>global\<close>; \<open>overridden\<close> says
  that a test clock is installed.
\<close>

definition validate_process_lease_clock ::
  "bool \<Rightarrow> ProcessLeaseClockHealth option \<Rightarrow> u64 \<Rightarrow> u64 option \<Rightarrow> u64 \<Rightarrow> (u64 \<times> u64 option) option \<Rightarrow>
   ProcessLeaseClockHealth option \<times> (LeaseClockError, unit) result" where
  "validate_process_lease_clock overridden global local_wall_ms local_clock_health_ms skew_budget_ms confirm =
     (if overridden then (global, Inr ())
      else case (case global of Some health \<Rightarrow> Inr health
                 | None \<Rightarrow> ProcessLeaseClockHealth_new local_wall_ms local_clock_health_ms) of
             Inl e \<Rightarrow> (global, Inl e)
           | Inr health \<Rightarrow>
               (let (health, ok) = observe_with_older_sample_confirmation health local_wall_ms local_clock_health_ms
                                     skew_budget_ms confirm
                in (Some health,
                    if ok then Inr ()
                    else if local_clock_health_ms = None then Inl ClockHealthSourceUnavailable
                    else Inl (LocalClockUnhealthy skew_budget_ms))))"

section \<open>Leases bound to the monotonic clock\<close>

record BoundRouteMapLease =
  authority_valid_until_ms :: u64
  local_valid_until_monotonic_ms :: u64

definition BoundRouteMapLease_expired :: "u64 \<Rightarrow> u64 \<Rightarrow> BoundRouteMapLease" where
  "BoundRouteMapLease_expired authority_valid_until local_monotonic_ms =
     \<lparr>authority_valid_until_ms = authority_valid_until, local_valid_until_monotonic_ms = local_monotonic_ms\<rparr>"

definition bind :: "u64 \<Rightarrow> u64 \<Rightarrow> u64 \<Rightarrow> u64 \<Rightarrow> u64 \<Rightarrow> (LeaseClockError, BoundRouteMapLease) result" where
  "bind authority_issued_at_ms authority_valid_until local_wall_ms local_monotonic_ms skew_budget_ms =
     (if saturating_add local_wall_ms skew_budget_ms < authority_issued_at_ms
      then Inl (AuthorityClockTooFarAhead authority_issued_at_ms local_wall_ms skew_budget_ms)
      else let conservative_local_wall_deadline_ms = saturating_sub authority_valid_until skew_budget_ms;
               remaining_ms = saturating_sub conservative_local_wall_deadline_ms local_wall_ms
           in and_then (ok_or (checked_add local_monotonic_ms remaining_ms)
                 (TimestampOverflow ''local monotonic lease deadline'')) (\<lambda>local_valid_until.
                Inr \<lparr>authority_valid_until_ms = authority_valid_until, local_valid_until_monotonic_ms = local_valid_until\<rparr>))"

definition is_valid_at_monotonic :: "BoundRouteMapLease \<Rightarrow> u64 \<Rightarrow> bool" where
  "is_valid_at_monotonic self local_monotonic_ms \<longleftrightarrow> local_monotonic_ms < local_valid_until_monotonic_ms self"

section \<open>Serving deadlines\<close>

definition validate_serving_deadline_bound :: "u64 \<Rightarrow> u64 \<Rightarrow> u64 \<Rightarrow> u64 \<Rightarrow> (LeaseClockError, unit) result" where
  "validate_serving_deadline_bound serving_deadline_ms effective_committed_now_ms max_lease_ms skew_budget_ms =
     and_then (ok_or (Option.bind (checked_add effective_committed_now_ms max_lease_ms)
           (\<lambda>deadline_ms. checked_add deadline_ms skew_budget_ms)) (TimestampOverflow ''maximum serving deadline''))
       (\<lambda>maximum_deadline_ms.
         if maximum_deadline_ms < serving_deadline_ms
         then Inl (ServingDeadlineOutOfBounds serving_deadline_ms effective_committed_now_ms max_lease_ms skew_budget_ms)
         else Inr ())"

definition bounded_renewal_deadline :: "u64 option \<Rightarrow> u64 \<Rightarrow> u64 \<Rightarrow> u64 \<Rightarrow> u64 \<Rightarrow> (LeaseClockError, u64) result" where
  "bounded_renewal_deadline current_deadline_ms effective_committed_now_ms requested_lease_ms max_lease_ms skew_budget_ms =
     and_then (ok_or (checked_add effective_committed_now_ms (min requested_lease_ms max_lease_ms))
         (TimestampOverflow ''proposed serving deadline'')) (\<lambda>proposed_deadline_ms.
       let candidate_deadline_ms =
             (case current_deadline_ms of None \<Rightarrow> proposed_deadline_ms | Some current \<Rightarrow> max current proposed_deadline_ms)
       in and_then (validate_serving_deadline_bound candidate_deadline_ms effective_committed_now_ms max_lease_ms skew_budget_ms)
            (\<lambda>_. Inr candidate_deadline_ms))"

definition successor_activation_fence_satisfied :: "u64 \<Rightarrow> u64 \<Rightarrow> u64 \<Rightarrow> bool" where
  "successor_activation_fence_satisfied successor_authority_now_ms previous_primary_deadline_ms skew_budget_ms =
     (case checked_add previous_primary_deadline_ms skew_budget_ms of None \<Rightarrow> False
      | Some fenced_until_ms \<Rightarrow> fenced_until_ms \<le> successor_authority_now_ms)"

section \<open>The lease-grant horizon\<close>

record LeaseHorizonAuthorityBinding =
  clock_generation :: u64
  raft_term :: "u64 option"

definition LeaseHorizonAuthorityBinding_checked_new :: "u64 \<Rightarrow> u64 option \<Rightarrow> LeaseHorizonAuthorityBinding option" where
  "LeaseHorizonAuthorityBinding_checked_new generation term =
     (if generation = 0 \<or> term = Some 0 then None
      else Some \<lparr>clock_generation = generation, raft_term = term\<rparr>)"

record CommittedLeaseGrantHorizon =
  horizon_authority :: LeaseHorizonAuthorityBinding
  grant_not_after_ms :: u64

definition validate_rebinding ::
  "CommittedLeaseGrantHorizon \<Rightarrow> LeaseHorizonAuthorityBinding \<Rightarrow> u64 \<Rightarrow> u64 \<Rightarrow> (LeaseHorizonError, unit) result" where
  "validate_rebinding self authority authority_now_ms skew_budget_ms =
     (if horizon_authority self = authority then Inr ()
      else and_then (ok_or (checked_add (grant_not_after_ms self) skew_budget_ms)
             (HorizonTimestampOverflow ''previous lease horizon fence'')) (\<lambda>fenced_until_ms.
           if authority_now_ms < fenced_until_ms then Inl (PreviousHorizonStillActive authority_now_ms fenced_until_ms)
           else Inr ()))"

definition establish ::
  "CommittedLeaseGrantHorizon option \<Rightarrow> LeaseHorizonAuthorityBinding \<Rightarrow> u64 \<Rightarrow> u64 \<Rightarrow> u64 \<Rightarrow>
   (LeaseHorizonError, CommittedLeaseGrantHorizon) result" where
  "establish previous authority authority_now_ms horizon_duration_ms skew_budget_ms =
     and_then (ok_or (checked_add authority_now_ms horizon_duration_ms) (HorizonTimestampOverflow ''lease grant horizon''))
       (\<lambda>proposed_grant_not_after_ms.
         case previous of
           None \<Rightarrow> Inr \<lparr>horizon_authority = authority, grant_not_after_ms = proposed_grant_not_after_ms\<rparr>
         | Some previous \<Rightarrow>
             if horizon_authority previous = authority
             then Inr \<lparr>horizon_authority = authority,
                       grant_not_after_ms = max (grant_not_after_ms previous) proposed_grant_not_after_ms\<rparr>
             else and_then (validate_rebinding previous authority authority_now_ms skew_budget_ms) (\<lambda>_.
                    Inr \<lparr>horizon_authority = authority, grant_not_after_ms = proposed_grant_not_after_ms\<rparr>))"

end
