(* ===== verification/Fail_Closed.thy ===== *)
theory Fail_Closed
  imports Argmin_Prelude
begin

text \<open>
  Monitors that fail closed. A step of such a monitor that finds it closed leaves it closed and accepts
  nothing, so the inputs up to any accepted one were all met with the monitor open.
\<close>

fun run_steps :: "('i \<Rightarrow> 's \<Rightarrow> 's \<times> 'r) \<Rightarrow> 'i list \<Rightarrow> 's \<Rightarrow> 's \<times> 'r list" where
  "run_steps step [] s = (s, [])"
| "run_steps step (i # is) s =
     (let (s', r) = step i s; (s'', rs) = run_steps step is s' in (s'', r # rs))"

lemma length_run_steps: "length (snd (run_steps step is s)) = length is"
  by (induction "is" arbitrary: s) (auto simp: case_prod_unfold Let_def)

lemma run_steps_append:
  "run_steps step (is @ js) s =
     (let (s', rs) = run_steps step is s; (s'', rs') = run_steps step js s' in (s'', rs @ rs'))"
  by (induction "is" arbitrary: s) (auto simp: case_prod_unfold Let_def)

lemma run_steps_nth:
  "j < length is \<Longrightarrow>
     snd (run_steps step is s) ! j = snd (step (is ! j) (fst (run_steps step (take j is) s)))"
proof (induction "is" arbitrary: s j)
  case Nil
  then show ?case by simp
next
  case (Cons i "is")
  then show ?case by (cases j) (auto simp: case_prod_unfold Let_def)
qed

lemma run_steps_Suc:
  "j < length is \<Longrightarrow>
     fst (run_steps step (take (Suc j) is) s) = fst (step (is ! j) (fst (run_steps step (take j is) s)))"
  by (simp add: take_Suc_conv_app_nth run_steps_append case_prod_unfold Let_def)

locale fail_closed =
  fixes step :: "'i \<Rightarrow> 's \<Rightarrow> 's \<times> 'r" and is_open :: "'s \<Rightarrow> bool" and accepted :: "'r \<Rightarrow> bool"
  assumes closed: "\<not> is_open s \<Longrightarrow> \<not> is_open (fst (step i s)) \<and> \<not> accepted (snd (step i s))"
begin

lemma stays_closed: "\<not> is_open s \<Longrightarrow> \<not> is_open (fst (run_steps step is s))"
proof (induction "is" arbitrary: s)
  case (Cons i "is")
  then show ?case using closed [of s i] by (simp add: case_prod_unfold Let_def)
qed simp

lemma accepted_open:
  assumes "j < length is" and "accepted (snd (run_steps step is s) ! j)" and "i \<le> j"
  shows "is_open (fst (run_steps step (take i is) s))"
proof (rule ccontr)
  assume closed_i: "\<not> is_open (fst (run_steps step (take i is) s))"
  have "take j is = take i is @ drop i (take j is)" using assms(3) by (metis append_take_drop_id take_take min.absorb1)
  then have "\<not> is_open (fst (run_steps step (take j is) s))"
    using stays_closed [OF closed_i, of "drop i (take j is)"] by (metis (no_types, lifting) case_prod_unfold fst_conv run_steps_append)
  then show False using assms closed run_steps_nth [OF assms(1)] by metis
qed

end

end
