(* ===== verification/Lease_Properties.thy ===== *)
theory Lease_Properties
  imports Lease Fail_Closed
begin

text \<open>
  What the lease rules promise. The monitor of a process clock latches. A renewal neither shortens a
  deadline nor exceeds the bound. In a system of participants with wall clocks of their own, no consumer
  serves once a successor has passed the fence.
\<close>

section \<open>Clock health\<close>

text \<open>What an accepted sample establishes, for the monitor before and after it.\<close>

definition sample_within :: "ProcessLeaseClockHealth \<Rightarrow> u64 \<Rightarrow> u64 \<times> u64 option \<Rightarrow> bool" where
  "sample_within self skew_budget_ms sample \<longleftrightarrow>
     (\<exists>h. snd sample = Some h \<and> initial_wall_ms self \<le> fst sample \<and> initial_clock_health_ms self \<le> h \<and>
        \<bar>(uint (fst sample) - uint (initial_wall_ms self)) - (uint h - uint (initial_clock_health_ms self))\<bar> \<le> uint skew_budget_ms)"

lemma abs_diff_le_int:
  "abs_diff x y \<le> z \<longleftrightarrow> \<bar>uint x - uint y\<bar> \<le> uint (z :: 'a::len word)"
  unfolding word_le_nat_alt unat_abs_diff uint_nat by linarith

lemma uint_sub_le: "y \<le> x \<Longrightarrow> uint (x - y) = uint x - uint (y :: 'a::len word)"
  unfolding word_le_nat_alt uint_nat by (simp add: unat_sub word_le_nat_alt of_nat_diff)

lemma observe_initial:
  "initial_wall_ms (fst (observe self w h S)) = initial_wall_ms self"
  "initial_clock_health_ms (fst (observe self w h S)) = initial_clock_health_ms self"
  by (auto simp: observe_def Let_def split: option.splits)

lemma observe_latch: "\<not> healthy self \<Longrightarrow> observe self w h S = (self, False)"
  by (simp add: observe_def Let_def)

lemma observe_healthy: "healthy (fst (observe self w h S)) = snd (observe self w h S)"
  by (auto simp: observe_def Let_def split: option.splits)

lemma observe_accepts: "snd (observe self w h S) \<Longrightarrow> healthy self \<and> sample_within self S (w, h)"
  by (auto simp: observe_def Let_def sample_within_def checked_sub_def abs_diff_le_int uint_sub_le
      split: option.splits if_splits)

interpretation health: fail_closed "\<lambda>(w, h) self. observe self w h S" healthy "\<lambda>r. r" for S
  by unfold_locales (auto simp: observe_latch)

lemma observe_run_initial:
  "sample_within (fst (run_steps (\<lambda>(w, h) self. observe self w h S) samples self)) S = sample_within self S"
proof (induction samples arbitrary: self)
  case (Cons a samples)
  then show ?case by (auto simp: case_prod_unfold Let_def sample_within_def observe_initial fun_eq_iff)
qed simp

text \<open>
  The clock-health monitor of a process latches: if the sample at position \<open>j\<close> is accepted, every
  earlier sample was accepted too, and each of them has a wall clock that moved from the start by as much
  as the health clock, up to the skew budget.
\<close>

theorem observe_latches:
  assumes "j < length samples" and "snd (run_steps (\<lambda>(w, h) self. observe self w h S) samples self) ! j" and "i \<le> j"
  shows "snd (run_steps (\<lambda>(w, h) self. observe self w h S) samples self) ! i \<and> sample_within self S (samples ! i)"
proof -
  let ?step = "\<lambda>(w, h) self. observe self w h S"
  have i: "i < length samples" using assms by simp
  have "healthy (fst (run_steps ?step (take (Suc i) samples) self))"
  proof (cases "i = j")
    case True
    then show ?thesis
      using assms(2) run_steps_nth [OF i, of ?step self] run_steps_Suc [OF i, of ?step self]
      by (simp add: case_prod_unfold observe_healthy)
  next
    case False
    then show ?thesis using health.accepted_open [OF assms(1,2), of "Suc i"] assms(3) by simp
  qed
  then have acc: "snd (run_steps ?step samples self) ! i"
    using run_steps_nth [OF i, of ?step self] run_steps_Suc [OF i, of ?step self]
    by (simp add: case_prod_unfold observe_healthy)
  then have "sample_within (fst (run_steps ?step (take i samples) self)) S (samples ! i)"
    using observe_accepts [of _ "fst (samples ! i)" "snd (samples ! i)"] by (auto simp: run_steps_nth [OF i] case_prod_unfold)
  with acc show ?thesis by (simp add: observe_run_initial)
qed

theorem observe_latches_witness:
  "\<exists>self. ProcessLeaseClockHealth_new 10000 (Some 500) = Inr self \<and>
     snd (run_steps (\<lambda>(w, h) self. observe self w h 1000) [(10500, Some 1000), (10600, Some 1100)] self) ! 0 \<and>
     sample_within self 1000 (10500, Some 1000)"
proof -
  let ?self = "\<lparr>initial_wall_ms = 10000, initial_clock_health_ms = 500, latest_wall_ms = 10000,
    latest_clock_health_ms = 500, healthy = True\<rparr> :: ProcessLeaseClockHealth"
  have "snd (run_steps (\<lambda>(w, h) self. observe self w h 1000) [(10500, Some 1000), (10600, Some 1100)] ?self) ! 1"
    by (simp add: observe_def checked_sub_def abs_diff_def)
  from observe_latches [OF _ this, of 0] show ?thesis by (simp add: ProcessLeaseClockHealth_new_def)
qed

section \<open>Renewals\<close>

lemma validate_serving_deadline_bound_Inr:
  "validate_serving_deadline_bound d now max_lease S = Inr u \<longleftrightarrow>
     unat now + unat max_lease + unat S < 2 ^ 64 \<and> unat d \<le> unat now + unat max_lease + unat S"
proof -
  have m: "Option.bind (checked_add now max_lease) (\<lambda>deadline. checked_add deadline S) =
      (if unat now + unat max_lease + unat S < 2 ^ 64 then Some (now + max_lease + S) else None)"
    by (auto simp: checked_add_def unat_add_no_wrap split: if_splits)
  show ?thesis
  proof (cases "unat now + unat max_lease + unat S < 2 ^ 64")
    case True
    then have "unat (now + max_lease + S) = unat now + unat max_lease + unat S" by (simp add: unat_add_no_wrap)
    with True show ?thesis by (auto simp: validate_serving_deadline_bound_def m word_less_nat_alt)
  qed (simp add: validate_serving_deadline_bound_def m)
qed

lemma unat_max: "unat (max x y) = max (unat x) (unat (y :: 'a::len word))"
  by (auto simp: max_def word_le_nat_alt)

lemma unat_min: "unat (min x y) = min (unat x) (unat (y :: 'a::len word))"
  by (auto simp: min_def word_le_nat_alt)

lemma bounded_renewal_deadline_Inr:
  "bounded_renewal_deadline current now requested max_lease S = Inr d \<longleftrightarrow>
     unat d = max (case current of None \<Rightarrow> 0 | Some c \<Rightarrow> unat c) (unat now + min (unat requested) (unat max_lease)) \<and>
     unat d \<le> unat now + unat max_lease + unat S \<and> unat now + unat max_lease + unat S < 2 ^ 64"
  (is "_ \<longleftrightarrow> ?rhs")
proof -
  let ?p = "unat now + min (unat requested) (unat max_lease)"
  show ?thesis
  proof
    assume "bounded_renewal_deadline current now requested max_lease S = Inr d"
    then obtain p where "unat p = ?p" and "d = (case current of None \<Rightarrow> p | Some c \<Rightarrow> max c p)"
      and "validate_serving_deadline_bound d now max_lease S = Inr ()"
      by (auto simp: bounded_renewal_deadline_def checked_add_Some_iff unat_min Let_def)
    then show ?rhs by (auto simp: validate_serving_deadline_bound_Inr unat_max split: option.splits)
  next
    assume rhs: ?rhs
    have "min (unat requested) (unat max_lease) \<le> unat max_lease" by simp
    with rhs have "?p < 2 ^ 64" by linarith
    then have p: "unat (now + min requested max_lease) = ?p" by (simp add: unat_add_no_wrap unat_min)
    let ?d = "case current of None \<Rightarrow> now + min requested max_lease | Some c \<Rightarrow> max c (now + min requested max_lease)"
    have "unat ?d = unat d" using rhs p by (auto simp: unat_max split: option.splits)
    then have "?d = d" by (rule unsigned_word_eqI)
    moreover have "checked_add now (min requested max_lease) = Some (now + min requested max_lease)"
      using p by (simp add: checked_add_Some_iff unat_min)
    moreover have "validate_serving_deadline_bound d now max_lease S = Inr ()"
      unfolding validate_serving_deadline_bound_Inr using rhs by blast
    ultimately show "bounded_renewal_deadline current now requested max_lease S = Inr d"
      by (simp add: bounded_renewal_deadline_def)
  qed
qed

text \<open>
  A renewal succeeds exactly when its deadline stays within the committed time plus the longest lease
  and the skew budget. The deadline it grants is then the requested one, capped at the longest lease, or
  the current one where that is later: renewing never shortens a lease.
\<close>

theorem bounded_renewal_deadline_exact:
  "bounded_renewal_deadline current now requested max_lease S = Inr d \<longleftrightarrow>
     unat d = max (case current of None \<Rightarrow> 0 | Some c \<Rightarrow> unat c) (unat now + min (unat requested) (unat max_lease)) \<and>
     unat d \<le> unat now + unat max_lease + unat S \<and> unat now + unat max_lease + unat S < 2 ^ 64"
  by (rule bounded_renewal_deadline_Inr)

section \<open>Participants with clocks of their own\<close>

text \<open>
  The system the rules are for. Real time advances, and the monotonic clock of consumer \<open>c\<close> runs with it
  from \<open>mono_base\<close>. Wall clocks may step at will: at each event a participant reads real time plus an offset
  of the moment. \<open>grants\<close> are the deadlines issued, newest first, with the offset of the clock of their
  issuer. The documented assumption is that a consumer that binds a deadline and a successor that passes
  the fence are within the skew budget of the issuers of the deadlines concerned.
\<close>

record LeaseSystem =
  real_ms :: nat
  mono_base :: "nat \<Rightarrow> nat"
  grants :: "(u64 \<times> int) list"
  bound :: "nat \<Rightarrow> BoundRouteMapLease option"
  successor_active :: bool

definition current_deadline :: "LeaseSystem \<Rightarrow> u64 option" where
  "current_deadline s = (case grants s of [] \<Rightarrow> None | (d, off) # _ \<Rightarrow> Some d)"

definition monotonic_ms :: "LeaseSystem \<Rightarrow> nat \<Rightarrow> u64" where
  "monotonic_ms s c = of_nat (mono_base s c + real_ms s)"

inductive lease_step :: "u64 \<Rightarrow> u64 \<Rightarrow> LeaseSystem \<Rightarrow> LeaseSystem \<Rightarrow> bool" for S max_lease where
  Advance: "(\<And>c. mono_base s c + real_ms s + d < 2 ^ 64) \<Longrightarrow> lease_step S max_lease s (s\<lparr>real_ms := real_ms s + d\<rparr>)"
| Issue: "\<lbrakk>\<not> successor_active s; uint wall = int (real_ms s) + off;
     bounded_renewal_deadline (current_deadline s) wall requested max_lease S = Inr d\<rbrakk> \<Longrightarrow>
   lease_step S max_lease s (if current_deadline s = Some d then s else s\<lparr>grants := (d, off) # grants s\<rparr>)"
| Refresh: "\<lbrakk>(d, issuer) \<in> set (grants s); uint wall = int (real_ms s) + off; \<bar>off - issuer\<bar> \<le> uint S;
     bind issued d wall (monotonic_ms s c) S = Inr lease\<rbrakk> \<Longrightarrow>
   lease_step S max_lease s (s\<lparr>bound := (bound s)(c := Some lease)\<rparr>)"
| Restart: "lease_step S max_lease s (s\<lparr>bound := (bound s)(c := None)\<rparr>)"
| Activate: "\<lbrakk>current_deadline s = Some d; uint now = int (real_ms s) + off;
     \<forall>(_, issuer) \<in> set (grants s). \<bar>off - issuer\<bar> \<le> uint S; successor_activation_fence_satisfied now d S\<rbrakk> \<Longrightarrow>
   lease_step S max_lease s (s\<lparr>successor_active := True\<rparr>)"

inductive lease_reachable :: "u64 \<Rightarrow> u64 \<Rightarrow> LeaseSystem \<Rightarrow> bool" for S max_lease where
  Start: "\<lbrakk>\<And>c. mono_base s c + real_ms s < 2 ^ 64; grants s = []; bound s = (\<lambda>_. None); \<not> successor_active s\<rbrakk> \<Longrightarrow>
   lease_reachable S max_lease s"
| Step: "\<lbrakk>lease_reachable S max_lease s; lease_step S max_lease s s'\<rbrakk> \<Longrightarrow> lease_reachable S max_lease s'"

definition serving :: "LeaseSystem \<Rightarrow> nat \<Rightarrow> bool" where
  "serving s c = (case bound s c of None \<Rightarrow> False | Some lease \<Rightarrow> is_valid_at_monotonic lease (monotonic_ms s c))"

lemma bind_Inr:
  "bind issued d wall m S = Inr lease \<Longrightarrow> unat (local_valid_until_monotonic_ms lease) = unat m + (unat d - unat S - unat wall)"
  by (auto simp: bind_def Let_def checked_add_Some_iff unat_saturating_sub split: if_splits)

lemma fence_satisfied: "successor_activation_fence_satisfied now d S \<longleftrightarrow> unat d + unat S \<le> unat now"
proof (cases "checked_add d S")
  case None
  have "unat now < 2 ^ 64" using unsigned_less [of now] by simp
  with None checked_add_None_iff [of d S] show ?thesis by (auto simp: successor_activation_fence_satisfied_def)
next
  case (Some z)
  with checked_add_Some_iff [of d S z] show ?thesis by (simp add: successor_activation_fence_satisfied_def word_le_nat_alt)
qed

text \<open>The invariant: a bound lease ends, in real time, no later than its issuer sees the deadline.\<close>

definition lease_inv :: "LeaseSystem \<Rightarrow> bool" where
  "lease_inv s \<longleftrightarrow>
     (\<forall>c. mono_base s c + real_ms s < 2 ^ 64) \<and>
     (\<forall>d i d'. (d, i) \<in> set (grants s) \<longrightarrow> current_deadline s = Some d' \<longrightarrow> uint d \<le> uint d') \<and>
     (\<forall>c lease. bound s c = Some lease \<longrightarrow> (\<exists>d i. (d, i) \<in> set (grants s) \<and>
        uint (local_valid_until_monotonic_ms lease) - int (mono_base s c) \<le> max (int (real_ms s)) (uint d - i))) \<and>
     (\<forall>d i. successor_active s \<longrightarrow> (d, i) \<in> set (grants s) \<longrightarrow> uint d - i \<le> int (real_ms s))"

lemma lease_invI:
  assumes "\<And>c. mono_base s c + real_ms s < 2 ^ 64"
    and "\<And>d i d'. (d, i) \<in> set (grants s) \<Longrightarrow> current_deadline s = Some d' \<Longrightarrow> uint d \<le> uint d'"
    and "\<And>c lease. bound s c = Some lease \<Longrightarrow> \<exists>d i. (d, i) \<in> set (grants s) \<and>
        uint (local_valid_until_monotonic_ms lease) - int (mono_base s c) \<le> max (int (real_ms s)) (uint d - i)"
    and "\<And>d i. successor_active s \<Longrightarrow> (d, i) \<in> set (grants s) \<Longrightarrow> uint d - i \<le> int (real_ms s)"
  shows "lease_inv s"
  using assms unfolding lease_inv_def by blast

lemma lease_invD:
  assumes "lease_inv s"
  shows "mono_base s c + real_ms s < 2 ^ 64"
    and "(d, i) \<in> set (grants s) \<Longrightarrow> current_deadline s = Some d' \<Longrightarrow> uint d \<le> uint d'"
    and "bound s c = Some lease \<Longrightarrow> \<exists>d i. (d, i) \<in> set (grants s) \<and>
        uint (local_valid_until_monotonic_ms lease) - int (mono_base s c) \<le> max (int (real_ms s)) (uint d - i)"
    and "successor_active s \<Longrightarrow> (d, i) \<in> set (grants s) \<Longrightarrow> uint d - i \<le> int (real_ms s)"
  using assms unfolding lease_inv_def by blast+

lemma current_deadline_update [simp]:
  "current_deadline (s\<lparr>real_ms := t\<rparr>) = current_deadline s"
  "current_deadline (s\<lparr>bound := b\<rparr>) = current_deadline s"
  "current_deadline (s\<lparr>successor_active := a\<rparr>) = current_deadline s"
  "current_deadline (s\<lparr>grants := (d, off) # gs\<rparr>) = Some d"
  by (simp_all add: current_deadline_def)

lemma unat_monotonic_ms: "mono_base s c + real_ms s < 2 ^ 64 \<Longrightarrow> unat (monotonic_ms s c) = mono_base s c + real_ms s"
  by (simp add: monotonic_ms_def unsigned_of_nat take_bit_nat_eq_self del: of_nat_add)

lemma refresh_bound:
  assumes "mono_base s c + real_ms s < 2 ^ 64" and "uint wall = int (real_ms s) + off" and "\<bar>off - issuer\<bar> \<le> uint S"
    and "bind issued d wall (monotonic_ms s c) S = Inr lease"
  shows "uint (local_valid_until_monotonic_ms lease) - int (mono_base s c) \<le> max (int (real_ms s)) (uint d - issuer)"
  using bind_Inr [OF assms(4)] assms(2,3) unat_monotonic_ms [OF assms(1)] unfolding uint_nat by linarith

lemma lease_inv_Advance:
  assumes "lease_inv s" and "\<And>c. mono_base s c + real_ms s + d < 2 ^ 64"
  shows "lease_inv (s\<lparr>real_ms := real_ms s + d\<rparr>)"
proof (rule lease_invI)
  fix c lease assume "bound (s\<lparr>real_ms := real_ms s + d\<rparr>) c = Some lease"
  with lease_invD(3) [OF assms(1), of c lease] show "\<exists>e i. (e, i) \<in> set (grants (s\<lparr>real_ms := real_ms s + d\<rparr>)) \<and>
      uint (local_valid_until_monotonic_ms lease) - int (mono_base (s\<lparr>real_ms := real_ms s + d\<rparr>) c)
        \<le> max (int (real_ms (s\<lparr>real_ms := real_ms s + d\<rparr>))) (uint e - i)" by force
next
  fix e i assume "successor_active (s\<lparr>real_ms := real_ms s + d\<rparr>)" "(e, i) \<in> set (grants (s\<lparr>real_ms := real_ms s + d\<rparr>))"
  with lease_invD(4) [OF assms(1), of e i] show "uint e - i \<le> int (real_ms (s\<lparr>real_ms := real_ms s + d\<rparr>))" by simp
qed (use assms(2) lease_invD(2) [OF assms(1)] in \<open>simp_all add: add.assoc\<close>)

lemma lease_inv_Issue:
  assumes inv: "lease_inv s" and "\<not> successor_active s"
    and "bounded_renewal_deadline (current_deadline s) wall requested max_lease S = Inr d"
  shows "lease_inv (s\<lparr>grants := (d, off) # grants s\<rparr>)"
proof (rule lease_invI)
  have later: "uint d' \<le> uint d" if "current_deadline s = Some d'" for d'
    unfolding word_le_def [symmetric] word_le_nat_alt using assms(3) by (simp add: bounded_renewal_deadline_Inr that)
  fix e i d' assume "(e, i) \<in> set (grants (s\<lparr>grants := (d, off) # grants s\<rparr>))"
    "current_deadline (s\<lparr>grants := (d, off) # grants s\<rparr>) = Some d'"
  moreover have "uint e \<le> uint d" if "(e, i) \<in> set (grants s)"
  proof -
    from that obtain d'' where "current_deadline s = Some d''" by (cases "grants s") (auto simp: current_deadline_def)
    then show ?thesis using later lease_invD(2) [OF inv that] by fastforce
  qed
  ultimately show "uint e \<le> uint d'" by auto
next
  fix c lease assume "bound (s\<lparr>grants := (d, off) # grants s\<rparr>) c = Some lease"
  with lease_invD(3) [OF inv, of c lease] show "\<exists>e i. (e, i) \<in> set (grants (s\<lparr>grants := (d, off) # grants s\<rparr>)) \<and>
      uint (local_valid_until_monotonic_ms lease) - int (mono_base (s\<lparr>grants := (d, off) # grants s\<rparr>) c)
        \<le> max (int (real_ms (s\<lparr>grants := (d, off) # grants s\<rparr>))) (uint e - i)" by force
qed (use assms(2) lease_invD(1) [OF inv] in simp_all)

lemma lease_inv_bound:
  assumes inv: "lease_inv s"
    and "\<And>lease. upd = Some lease \<Longrightarrow> \<exists>d i. (d, i) \<in> set (grants s) \<and>
        uint (local_valid_until_monotonic_ms lease) - int (mono_base s c) \<le> max (int (real_ms s)) (uint d - i)"
  shows "lease_inv (s\<lparr>bound := (bound s)(c := upd)\<rparr>)"
  using assms(2) lease_invD [OF inv] by (intro lease_invI) (auto split: if_splits)

lemma lease_inv_Activate:
  assumes inv: "lease_inv s" and "current_deadline s = Some d" and now: "uint now = int (real_ms s) + off"
    and skew: "\<forall>(_, issuer) \<in> set (grants s). \<bar>off - issuer\<bar> \<le> uint S" and fence: "successor_activation_fence_satisfied now d S"
  shows "lease_inv (s\<lparr>successor_active := True\<rparr>)"
proof (rule lease_invI)
  fix e i assume "(e, i) \<in> set (grants (s\<lparr>successor_active := True\<rparr>))"
  with assms have "uint e \<le> uint d" "\<bar>off - i\<bar> \<le> uint S" using lease_invD(2) [OF inv, of e i d] by auto
  with now fence have "uint e - i \<le> int (real_ms s)"
    unfolding fence_satisfied uint_nat by linarith
  then show "uint e - i \<le> int (real_ms (s\<lparr>successor_active := True\<rparr>))" by simp
qed (use lease_invD(1-3) [OF inv] in simp_all)

lemma lease_inv_step: "lease_step S max_lease s s' \<Longrightarrow> lease_inv s \<Longrightarrow> lease_inv s'"
proof (induction rule: lease_step.induct)
  case (Refresh d issuer s wall off issued c lease)
  show ?case
    using refresh_bound [OF lease_invD(1) [OF Refresh(5)] Refresh(2-4)] Refresh(1)
    by (intro lease_inv_bound [OF Refresh(5)]) auto
qed (auto intro: lease_inv_Advance lease_inv_Issue lease_inv_bound lease_inv_Activate)

lemma lease_reachable_inv: "lease_reachable S max_lease s \<Longrightarrow> lease_inv s"
proof (induction rule: lease_reachable.induct)
  case (Start s)
  then show ?case by (intro lease_invI) simp_all
qed (rule lease_inv_step)

text \<open>
  C13. Once a successor has passed the activation fence, no consumer serves under a lease of the previous
  primary: neither one that bound its lease before, nor one that binds a delayed deadline afterwards, and
  however the wall clocks step between events.
\<close>

theorem no_serving_after_successor:
  assumes "lease_reachable S max_lease s" and "successor_active s"
  shows "\<not> serving s c"
proof
  assume "serving s c"
  then obtain lease where bnd: "bound s c = Some lease" and valid: "is_valid_at_monotonic lease (monotonic_ms s c)"
    by (auto simp: serving_def split: option.splits)
  note inv = lease_invD [OF lease_reachable_inv [OF assms(1)]]
  from inv(3) [OF bnd] obtain d i where "(d, i) \<in> set (grants s)"
    and "uint (local_valid_until_monotonic_ms lease) - int (mono_base s c) \<le> max (int (real_ms s)) (uint d - i)" by blast
  with inv(4) [OF assms(2)] have "uint (local_valid_until_monotonic_ms lease) - int (mono_base s c) \<le> int (real_ms s)" by force
  with valid unat_monotonic_ms [OF inv(1) [of c]] show False
    unfolding is_valid_at_monotonic_def word_less_nat_alt uint_nat by linarith
qed

definition lease_start :: LeaseSystem where
  "lease_start = \<lparr>real_ms = 100000, mono_base = (\<lambda>_. 0), grants = [], bound = (\<lambda>_. None), successor_active = False\<rparr>"

definition lease_end :: LeaseSystem where
  "lease_end = \<lparr>real_ms = 106000, mono_base = (\<lambda>_. 0), grants = [(105000, 0)],
     bound = (\<lambda>_. None)(0 := Some \<lparr>authority_valid_until_ms = 105000, local_valid_until_monotonic_ms = 104000\<rparr>),
     successor_active = True\<rparr>"

lemma lease_end_reachable: "lease_reachable 1000 10000 lease_end"
proof -
  let ?l = "\<lparr>authority_valid_until_ms = 105000, local_valid_until_monotonic_ms = 104000\<rparr> :: BoundRouteMapLease"
  let ?s1 = "lease_start\<lparr>grants := [(105000, 0)]\<rparr>" and ?s2 = "lease_start\<lparr>grants := [(105000, 0)], bound := (\<lambda>_. None)(0 := Some ?l)\<rparr>"
  let ?s3 = "?s2\<lparr>real_ms := 106000\<rparr>"
  have "bounded_renewal_deadline None 100000 5000 10000 1000 = Inr 105000"
    by (simp add: bounded_renewal_deadline_Inr)
  from Issue [of lease_start 100000 0 5000 10000 1000 105000] this
  have "lease_step 1000 10000 lease_start ?s1"
    by (simp add: lease_start_def current_deadline_def)
  moreover have "lease_step 1000 10000 ?s1 ?s2"
    using Refresh [of 105000 0 ?s1 100000 0 1000 100000 0 ?l 10000]
    by (simp add: lease_start_def bind_def monotonic_ms_def saturating_add_def saturating_sub_def checked_add_def)
  moreover have "lease_step 1000 10000 ?s2 ?s3"
    using Advance [of ?s2 6000 1000 10000] by (simp add: lease_start_def)
  moreover have "lease_step 1000 10000 ?s3 lease_end"
    using Activate [of ?s3 105000 106000 0 1000 10000] by (simp add: lease_start_def lease_end_def current_deadline_def fence_satisfied)
  moreover have "lease_reachable 1000 10000 lease_start" by (rule Start) (simp_all add: lease_start_def)
  ultimately show ?thesis using Step [of 1000 10000 lease_start ?s1] Step [of 1000 10000 ?s1 ?s2]
      Step [of 1000 10000 ?s2 ?s3] Step [of 1000 10000 ?s3 lease_end] by blast
qed

theorem no_serving_after_successor_witness:
  "lease_reachable 1000 10000 lease_end \<and> successor_active lease_end \<and> \<not> serving lease_end 0"
  using no_serving_after_successor [OF lease_end_reachable] lease_end_reachable by (simp add: lease_end_def)

section \<open>The lease-grant horizon\<close>

text \<open>
  A durable horizon never moves back, covers the duration it was established for, and passes to another
  authority only when the clock of that authority has reached the old horizon plus the skew budget.
\<close>

theorem establish_fences_previous:
  assumes "establish (Some p) authority now duration S = Inr h"
  shows "horizon_authority h = authority \<and> unat now + unat duration \<le> unat (grant_not_after_ms h) \<and>
    unat (grant_not_after_ms p) \<le> unat (grant_not_after_ms h) \<and>
    (authority \<noteq> horizon_authority p \<longrightarrow> unat (grant_not_after_ms p) + unat S \<le> unat now)"
  using assms
  by (auto simp: establish_def validate_rebinding_def checked_add_Some_iff unat_max word_less_nat_alt split: if_splits)

theorem establish_fences_previous_witness:
  "\<exists>h. establish (Some \<lparr>horizon_authority = \<lparr>clock_generation = 1, raft_term = None\<rparr>, grant_not_after_ms = 5000\<rparr>)
      \<lparr>clock_generation = 2, raft_term = None\<rparr> 7000 2000 1000 = Inr h \<and> unat (grant_not_after_ms h) \<ge> 9000"
proof -
  let ?p = "\<lparr>horizon_authority = \<lparr>clock_generation = 1, raft_term = None\<rparr>, grant_not_after_ms = 5000\<rparr> :: CommittedLeaseGrantHorizon"
  obtain h where h: "establish (Some ?p) \<lparr>clock_generation = 2, raft_term = None\<rparr> 7000 2000 1000 = Inr h"
    by (simp add: establish_def validate_rebinding_def checked_add_def)
  from establish_fences_previous [OF h] h show ?thesis by simp
qed

end
