(* ===== verification/Crc.thy ===== *)
theory Crc
  imports Argmin_Prelude
begin

text \<open>
  The scalar CRC routines of \<^verbatim>\<open>crates/checksum\<close> (\<^verbatim>\<open>crc64.rs\<close>, \<^verbatim>\<open>crc32.rs\<close>, \<^verbatim>\<open>crc32c.rs\<close>): the
  table construction, the slicing-by-16 loops, the combination of checksums by matrix exponentiation and
  the streaming hashers. The three files repeat the same helpers at their own width and polynomial, which
  are parameters here.
\<close>

section \<open>Tables\<close>

definition CRC64_POLY :: u64 where "CRC64_POLY = 0x9A6C9329AC4BC9B5"
definition CRC32_POLY :: u32 where "CRC32_POLY = 0xEDB88320"
definition CRC32C_POLY :: u32 where "CRC32C_POLY = 0x82F63B78"

definition crc_shift :: "'a::len word \<Rightarrow> 'a word \<Rightarrow> 'a word" where
  "crc_shift poly crc = (if crc AND 1 \<noteq> 0 then drop_bit 1 crc XOR poly else drop_bit 1 crc)"

definition first_table :: "'a::len word \<Rightarrow> 'a word list" where
  "first_table poly = map (\<lambda>i. (crc_shift poly ^^ 8) (of_nat i)) [0..<256]"

definition next_table :: "'a::len word list \<Rightarrow> 'a word list \<Rightarrow> 'a word list" where
  "next_table table0 previous =
     map (\<lambda>byte. let crc = previous ! byte in table0 ! unat (crc AND 0xFF) XOR drop_bit 8 crc) [0..<256]"

definition build_tables :: "'a::len word \<Rightarrow> 'a word list list" where
  "build_tables poly =
     fold (\<lambda>table_idx tables. tables @ [next_table (tables ! 0) (tables ! (table_idx - 1))]) [1..<16] [first_table poly]"

definition CRC64_TABLES :: "u64 list list" where "CRC64_TABLES = build_tables CRC64_POLY"
definition CRC32_TABLES :: "u32 list list" where "CRC32_TABLES = build_tables CRC32_POLY"
definition CRC32C_TABLES :: "u32 list list" where "CRC32C_TABLES = build_tables CRC32C_POLY"

section \<open>Slicing loops\<close>

definition read_u64_le :: "bytes \<Rightarrow> u64" where "read_u64_le data = from_le_bytes (take 8 data)"
definition read_u32_le :: "bytes \<Rightarrow> u32" where "read_u32_le data = from_le_bytes (take 4 data)"

definition table_byte :: "'a::len word list list \<Rightarrow> nat \<Rightarrow> 'a word \<Rightarrow> 'a word" where
  "table_byte tables k i = tables ! k ! unat i"

definition crc_byte_step :: "'a::len word list list \<Rightarrow> u8 \<Rightarrow> 'a word \<Rightarrow> 'a word" where
  "crc_byte_step tables byte state = tables ! 0 ! unat ((ucast state :: u8) XOR byte) XOR drop_bit 8 state"

function crc64_loop16 :: "u64 \<Rightarrow> bytes \<Rightarrow> u64 \<times> bytes" where
  "crc64_loop16 state remaining =
     (if 16 \<le> length remaining
      then let first = read_u64_le remaining;
               second = read_u64_le (drop 8 remaining);
               mixed = state XOR first;
               t = table_byte CRC64_TABLES;
               state = t 15 (mixed AND 0xFF)
                   XOR t 14 (drop_bit 8 mixed AND 0xFF)
                   XOR t 13 (drop_bit 16 mixed AND 0xFF)
                   XOR t 12 (drop_bit 24 mixed AND 0xFF)
                   XOR t 11 (drop_bit 32 mixed AND 0xFF)
                   XOR t 10 (drop_bit 40 mixed AND 0xFF)
                   XOR t 9 (drop_bit 48 mixed AND 0xFF)
                   XOR t 8 (drop_bit 56 mixed)
                   XOR t 7 (second AND 0xFF)
                   XOR t 6 (drop_bit 8 second AND 0xFF)
                   XOR t 5 (drop_bit 16 second AND 0xFF)
                   XOR t 4 (drop_bit 24 second AND 0xFF)
                   XOR t 3 (drop_bit 32 second AND 0xFF)
                   XOR t 2 (drop_bit 40 second AND 0xFF)
                   XOR t 1 (drop_bit 48 second AND 0xFF)
                   XOR t 0 (drop_bit 56 second)
           in crc64_loop16 state (drop 16 remaining)
      else (state, remaining))"
  by pat_completeness auto
termination by (relation "measure (length \<circ> snd)") auto

function crc64_loop8 :: "u64 \<Rightarrow> bytes \<Rightarrow> u64 \<times> bytes" where
  "crc64_loop8 state remaining =
     (if 8 \<le> length remaining
      then let mixed = state XOR read_u64_le remaining;
               t = table_byte CRC64_TABLES;
               state = t 7 (mixed AND 0xFF)
                   XOR t 6 (drop_bit 8 mixed AND 0xFF)
                   XOR t 5 (drop_bit 16 mixed AND 0xFF)
                   XOR t 4 (drop_bit 24 mixed AND 0xFF)
                   XOR t 3 (drop_bit 32 mixed AND 0xFF)
                   XOR t 2 (drop_bit 40 mixed AND 0xFF)
                   XOR t 1 (drop_bit 48 mixed AND 0xFF)
                   XOR t 0 (drop_bit 56 mixed)
           in crc64_loop8 state (drop 8 remaining)
      else (state, remaining))"
  by pat_completeness auto
termination by (relation "measure (length \<circ> snd)") auto

definition crc64_extend_scalar :: "u64 \<Rightarrow> bytes \<Rightarrow> u64" where
  "crc64_extend_scalar crc data =
     (let state = NOT crc;
          (state, remaining) = crc64_loop16 state data;
          (state, remaining) = crc64_loop8 state remaining
      in NOT (fold (crc_byte_step CRC64_TABLES) remaining state))"

function crc32_loop16 :: "u32 list list \<Rightarrow> u32 \<Rightarrow> bytes \<Rightarrow> u32 \<times> bytes" where
  "crc32_loop16 tables state remaining =
     (if 16 \<le> length remaining
      then let first = read_u32_le remaining;
               second = read_u32_le (drop 4 remaining);
               third = read_u32_le (drop 8 remaining);
               fourth = read_u32_le (drop 12 remaining);
               mixed = state XOR first;
               t = table_byte tables;
               state = t 15 (mixed AND 0xFF)
                   XOR t 14 (drop_bit 8 mixed AND 0xFF)
                   XOR t 13 (drop_bit 16 mixed AND 0xFF)
                   XOR t 12 (drop_bit 24 mixed)
                   XOR t 11 (second AND 0xFF)
                   XOR t 10 (drop_bit 8 second AND 0xFF)
                   XOR t 9 (drop_bit 16 second AND 0xFF)
                   XOR t 8 (drop_bit 24 second)
                   XOR t 7 (third AND 0xFF)
                   XOR t 6 (drop_bit 8 third AND 0xFF)
                   XOR t 5 (drop_bit 16 third AND 0xFF)
                   XOR t 4 (drop_bit 24 third)
                   XOR t 3 (fourth AND 0xFF)
                   XOR t 2 (drop_bit 8 fourth AND 0xFF)
                   XOR t 1 (drop_bit 16 fourth AND 0xFF)
                   XOR t 0 (drop_bit 24 fourth)
           in crc32_loop16 tables state (drop 16 remaining)
      else (state, remaining))"
  by pat_completeness auto
termination by (relation "measure (length \<circ> snd \<circ> snd)") auto

function crc32_loop4 :: "u32 list list \<Rightarrow> u32 \<Rightarrow> bytes \<Rightarrow> u32 \<times> bytes" where
  "crc32_loop4 tables state remaining =
     (if 4 \<le> length remaining
      then let mixed = state XOR read_u32_le remaining;
               t = table_byte tables;
               state = t 3 (mixed AND 0xFF)
                   XOR t 2 (drop_bit 8 mixed AND 0xFF)
                   XOR t 1 (drop_bit 16 mixed AND 0xFF)
                   XOR t 0 (drop_bit 24 mixed)
           in crc32_loop4 tables state (drop 4 remaining)
      else (state, remaining))"
  by pat_completeness auto
termination by (relation "measure (length \<circ> snd \<circ> snd)") auto

declare crc64_loop16.simps [simp del] crc64_loop8.simps [simp del]
  crc32_loop16.simps [simp del] crc32_loop4.simps [simp del]

definition crc32_extend_scalar :: "u32 \<Rightarrow> bytes \<Rightarrow> u32" where
  "crc32_extend_scalar crc data =
     (let state = NOT crc;
          (state, remaining) = crc32_loop16 CRC32_TABLES state data;
          (state, remaining) = crc32_loop4 CRC32_TABLES state remaining
      in NOT (fold (crc_byte_step CRC32_TABLES) remaining state))"

definition crc32c_update_scalar :: "u32 \<Rightarrow> bytes \<Rightarrow> u32" where
  "crc32c_update_scalar crc data =
     (let (crc, remaining) = crc32_loop16 CRC32C_TABLES crc data;
          (crc, remaining) = crc32_loop4 CRC32C_TABLES crc remaining
      in fold (crc_byte_step CRC32C_TABLES) remaining crc)"

section \<open>Checksums and hashers\<close>

definition crc64_checksum :: "bytes \<Rightarrow> u64" where "crc64_checksum data = crc64_extend_scalar 0 data"
definition crc32_checksum :: "bytes \<Rightarrow> u32" where "crc32_checksum data = crc32_extend_scalar 0 data"

definition crc32c_checksum :: "bytes \<Rightarrow> u32" where
  "crc32c_checksum data = (let crc = NOT 0; crc = crc32c_update_scalar crc data in crc XOR NOT 0)"

record Crc64Hasher = crc64_state :: u64
record Crc32Hasher = crc32_state :: u32
record Crc32cHasher = crc32c_state :: u32

definition Crc64Hasher_new :: Crc64Hasher where "Crc64Hasher_new = \<lparr>crc64_state = 0\<rparr>"
definition Crc64Hasher_update :: "Crc64Hasher \<Rightarrow> bytes \<Rightarrow> Crc64Hasher" where
  "Crc64Hasher_update self data = self\<lparr>crc64_state := crc64_extend_scalar (crc64_state self) data\<rparr>"
definition Crc64Hasher_finalize :: "Crc64Hasher \<Rightarrow> u64" where "Crc64Hasher_finalize self = crc64_state self"
definition Crc64Hasher_reset :: "Crc64Hasher \<Rightarrow> Crc64Hasher" where "Crc64Hasher_reset self = self\<lparr>crc64_state := 0\<rparr>"

definition Crc32Hasher_new :: Crc32Hasher where "Crc32Hasher_new = \<lparr>crc32_state = 0\<rparr>"
definition Crc32Hasher_update :: "Crc32Hasher \<Rightarrow> bytes \<Rightarrow> Crc32Hasher" where
  "Crc32Hasher_update self data = self\<lparr>crc32_state := crc32_extend_scalar (crc32_state self) data\<rparr>"
definition Crc32Hasher_finalize :: "Crc32Hasher \<Rightarrow> u32" where "Crc32Hasher_finalize self = crc32_state self"
definition Crc32Hasher_reset :: "Crc32Hasher \<Rightarrow> Crc32Hasher" where "Crc32Hasher_reset self = self\<lparr>crc32_state := 0\<rparr>"

definition Crc32cHasher_new :: Crc32cHasher where "Crc32cHasher_new = \<lparr>crc32c_state = NOT 0\<rparr>"
definition Crc32cHasher_update :: "Crc32cHasher \<Rightarrow> bytes \<Rightarrow> Crc32cHasher" where
  "Crc32cHasher_update self data = self\<lparr>crc32c_state := crc32c_update_scalar (crc32c_state self) data\<rparr>"
definition Crc32cHasher_finalize :: "Crc32cHasher \<Rightarrow> u32" where "Crc32cHasher_finalize self = crc32c_state self XOR NOT 0"
definition Crc32cHasher_reset :: "Crc32cHasher \<Rightarrow> Crc32cHasher" where "Crc32cHasher_reset self = self\<lparr>crc32c_state := NOT 0\<rparr>"

section \<open>Combination\<close>

lemma unat_drop_bit_one: "unat (drop_bit (Suc 0) vec) = unat vec div 2" for vec :: "'a::len word"
  unfolding unsigned_drop_bit_eq by (simp add: take_bit_nat_eq_self drop_bit_eq_div)

lemma unat_drop_one: "vec \<noteq> 0 \<Longrightarrow> unat (drop_bit (Suc 0) vec) < unat vec" for vec :: "'a::len word"
  by (simp add: unat_drop_bit_one unat_gt_0)

function gf2_matrix_times_loop :: "'a::len word list \<Rightarrow> 'a word \<Rightarrow> nat \<Rightarrow> 'a word \<Rightarrow> 'a word" where
  "gf2_matrix_times_loop mat vec i result =
     (if vec \<noteq> 0
      then gf2_matrix_times_loop mat (drop_bit 1 vec) (i + 1) (if vec AND 1 \<noteq> 0 then result XOR mat ! i else result)
      else result)"
  by pat_completeness auto
termination by (relation "measure (\<lambda>(_, vec, _, _). unat vec)") (auto simp: unat_drop_one)

declare gf2_matrix_times_loop.simps [simp del]

definition gf2_matrix_times :: "'a::len word list \<Rightarrow> 'a word \<Rightarrow> 'a word" where
  "gf2_matrix_times mat vec = gf2_matrix_times_loop mat vec 0 0"

definition gf2_matrix_square :: "'a::len word list \<Rightarrow> 'a word list" where
  "gf2_matrix_square mat = map (\<lambda>i. gf2_matrix_times mat (mat ! i)) [0..<LENGTH('a)]"

function combine_loop :: "'a::len word list \<Rightarrow> u64 \<Rightarrow> 'a word \<Rightarrow> 'a word" where
  "combine_loop odd_mat n crc =
     (let even_mat = gf2_matrix_square odd_mat;
          crc = (if n AND 1 \<noteq> 0 then gf2_matrix_times even_mat crc else crc);
          n = drop_bit 1 n
      in if n = 0 then crc
         else let odd_mat = gf2_matrix_square even_mat;
                  crc = (if n AND 1 \<noteq> 0 then gf2_matrix_times odd_mat crc else crc);
                  n = drop_bit 1 n
              in if n = 0 then crc else combine_loop odd_mat n crc)"
  by pat_completeness auto
termination
proof (relation "measure (\<lambda>(_, n, _). unat n)")
  fix odd_mat even_mat odd_mat' :: "'a::len word list" and n n' n'' :: u64 and crc crc' crc'' :: "'a word"
  assume "n' = drop_bit 1 n" "n' \<noteq> 0" "n'' = drop_bit 1 n'"
  moreover from this have "n \<noteq> 0" by auto
  ultimately show "((odd_mat', n'', crc''), odd_mat, n, crc) \<in> measure (\<lambda>(_, n, _). unat n)"
    using unat_drop_one [of n] unat_drop_one [of n'] by simp
qed simp

declare combine_loop.simps [simp del]

definition one_bit_matrix :: "'a::len word \<Rightarrow> 'a word list" where
  "one_bit_matrix poly = poly # map (\<lambda>i. push_bit (i - 1) 1) [1..<LENGTH('a)]"

definition crc_combine :: "'a::len word \<Rightarrow> 'a word \<Rightarrow> 'a word \<Rightarrow> u64 \<Rightarrow> 'a word" where
  "crc_combine poly crc_a crc_b len_b =
     (if len_b = 0 then crc_a
      else let odd_mat = one_bit_matrix poly;
               even_mat = gf2_matrix_square odd_mat;
               odd_mat = gf2_matrix_square even_mat
           in combine_loop odd_mat len_b crc_a XOR crc_b)"

definition crc64_combine :: "u64 \<Rightarrow> u64 \<Rightarrow> u64 \<Rightarrow> u64" where "crc64_combine = crc_combine CRC64_POLY"
definition crc32_combine :: "u32 \<Rightarrow> u32 \<Rightarrow> u64 \<Rightarrow> u32" where "crc32_combine = crc_combine CRC32_POLY"
definition crc32c_combine :: "u32 \<Rightarrow> u32 \<Rightarrow> u64 \<Rightarrow> u32" where "crc32c_combine = crc_combine CRC32C_POLY"

end
