(* ===== verification/Crc_Properties.thy ===== *)
theory Crc_Properties
  imports Crc
begin

text \<open>
  The CRC routines against the bit-by-bit definition. One shift of the register is linear over XOR, and a
  register whose low bits are zero just moves down. From these two facts follow the contents of the
  tables, the slicing loops and the matrices of the combination.
\<close>

section \<open>The shift register\<close>

lemma and_1_bit: "x AND 1 \<noteq> 0 \<longleftrightarrow> bit x 0" for x :: "'a::len word"
  by (simp add: and_one_eq odd_iff_mod_2_eq_one bit_0)

lemma crc_shift_xor: "crc_shift p (x XOR y) = crc_shift p x XOR crc_shift p y"
  unfolding crc_shift_def and_1_bit bit_xor_iff drop_bit_xor by (auto simp: ac_simps)

lemma crc_shift_zero [simp]: "crc_shift p 0 = 0"
  by (simp add: crc_shift_def)

abbreviation shifts :: "'a::len word \<Rightarrow> nat \<Rightarrow> 'a word \<Rightarrow> 'a word" where
  "shifts p n \<equiv> crc_shift p ^^ n"

lemma shifts_xor: "shifts p n (x XOR y) = shifts p n x XOR shifts p n y"
  by (induction n) (simp_all add: crc_shift_xor)

lemma shifts_zero [simp]: "shifts p n 0 = 0"
  by (induction n) simp_all

lemma shifts_shifts: "shifts p m (shifts p n x) = shifts p (m + n) x"
  by (simp add: funpow_add)

lemma shifts_low_zero: "take_bit n x = 0 \<Longrightarrow> shifts p n x = drop_bit n x"
proof (induction n arbitrary: x)
  case (Suc n)
  have "\<not> bit x 0" using Suc.prems by (metis bit_0_eq bit_take_bit_iff bot_apply bot_bool_def zero_less_Suc)
  then have step: "crc_shift p x = drop_bit 1 x" by (simp add: crc_shift_def and_1_bit)
  have "take_bit n (drop_bit 1 x) = 0"
    using Suc.prems by (metis drop_bit_of_0 drop_bit_take_bit diff_Suc_1 One_nat_def)
  from Suc.IH [OF this] show ?case by (simp add: step funpow_swap1 drop_bit_drop_bit)
qed simp

lemma split_low: "x = take_bit n x XOR push_bit n (drop_bit n x)" for x :: "'a::len word"
  by (rule bit_eqI) (auto simp: bit_simps)

text \<open>Shifting by whole bytes looks up the low byte and moves the rest down.\<close>

lemma shifts_slice:
  "shifts p (m + 8) x = shifts p (m + 8) (take_bit 8 x) XOR shifts p m (drop_bit 8 x)"
proof -
  have "take_bit 8 (push_bit 8 (drop_bit 8 x)) = 0" by (rule bit_eqI) (auto simp: bit_simps)
  then have "shifts p 8 (push_bit 8 (drop_bit 8 x)) = drop_bit 8 (push_bit 8 (drop_bit 8 x))" by (rule shifts_low_zero)
  also have "\<dots> = drop_bit 8 x" by (rule bit_eqI) (auto simp: bit_simps dest: bit_imp_le_length)
  finally have "shifts p (m + 8) (push_bit 8 (drop_bit 8 x)) = shifts p m (drop_bit 8 x)"
    by (simp flip: shifts_shifts)
  then show ?thesis by (metis split_low shifts_xor)
qed

section \<open>The tables\<close>

lemma mask_byte: "x AND 0xFF = take_bit 8 x" for x :: "'a::len word"
  by (simp add: take_bit_eq_mask mask_eq_exp_minus_1)

lemma take_byte_less: "unat (take_bit 8 x) < 256" for x :: "'a::len word"
  using take_bit_nat_less_exp [of 8 "unat x"] by (simp add: unsigned_take_bit_eq)

lemma first_table_nth: "i < 256 \<Longrightarrow> first_table p ! i = shifts p 8 (of_nat i)"
  by (simp add: first_table_def)

lemma lookup_low: "first_table p ! unat (take_bit 8 x) = shifts p 8 (take_bit 8 x)"
  by (simp add: first_table_nth take_byte_less)

lemma build_tables_prefix:
  assumes "1 \<le> n" and "n \<le> 16" and "k < n" and "i < 256"
  shows "(let tables = fold (\<lambda>table_idx tables. tables @ [next_table (tables ! 0) (tables ! (table_idx - 1))]) [1..<n] [first_table p]
     in length tables = n \<and> tables ! 0 = first_table p \<and> tables ! k ! i = shifts p (8 * k + 8) (of_nat i))"
  using assms
proof (induction n arbitrary: k i rule: nat_induct_at_least)
  case base
  then show ?case by (simp add: first_table_nth)
next
  case (Suc n)
  let ?step = "\<lambda>table_idx tables. tables @ [next_table (tables ! 0) (tables ! (table_idx - 1))]"
  let ?t = "fold ?step [1..<n] [first_table p]"
  have t: "length ?t = n" "?t ! 0 = first_table p" using Suc.IH [of 0 0] Suc.prems Suc.hyps by (simp_all add: Let_def)
  have ext: "fold ?step [1..<Suc n] [first_table p] = ?t @ [next_table (first_table p) (?t ! (n - 1))]"
    using Suc.hyps t by simp
  show ?case
  proof (cases "k = n")
    case True
    have "?t ! (n - 1) ! i = shifts p (8 * n) (of_nat i)"
      using Suc.IH [of "n - 1" i] Suc.prems Suc.hyps by (simp add: Let_def right_diff_distrib')
    moreover have "first_table p ! unat (take_bit 8 x) XOR drop_bit 8 x = shifts p 8 x" for x
      using shifts_slice [of 0 p x] by (simp add: lookup_low)
    ultimately have "next_table (first_table p) (?t ! (n - 1)) ! i = shifts p (8 * n + 8) (of_nat i)"
      using Suc.prems by (simp add: next_table_def mask_byte shifts_shifts add.commute)
    with True t Suc.hyps show ?thesis unfolding ext Let_def by (simp add: nth_append)
  next
    case False
    then have "k < n" using Suc.prems by simp
    with Suc.IH [of k i] t Suc.prems Suc.hyps show ?thesis unfolding ext Let_def by (simp add: nth_append)
  qed
qed

lemma build_tables_nth:
  assumes "k < 16" and "i < 256"
  shows "build_tables p ! k ! i = shifts p (8 * k + 8) (of_nat i)"
proof -
  have "1 \<le> (16 :: nat)" "16 \<le> (16 :: nat)" by simp_all
  from build_tables_prefix [OF this assms, of p] show ?thesis unfolding build_tables_def Let_def by blast
qed

text \<open>The entry a lookup with a byte of the register finds.\<close>

lemma table_byte_low:
  "k < 16 \<Longrightarrow> table_byte (build_tables p) k (x AND 0xFF) = shifts p (8 * k + 8) (take_bit 8 x)"
  by (simp add: table_byte_def mask_byte build_tables_nth take_byte_less)

lemma table_byte_small:
  "k < 16 \<Longrightarrow> unat x < 256 \<Longrightarrow> table_byte (build_tables p) k x = shifts p (8 * k + 8) x"
  by (simp add: table_byte_def build_tables_nth)

lemma slice_step:
  "k < 16 \<Longrightarrow> shifts p (8 * k + 8) x = table_byte (build_tables p) k (x AND 0xFF) XOR shifts p (8 * k) (drop_bit 8 x)"
  using shifts_slice [of "8 * k" p x] by (simp add: table_byte_low)

section \<open>Bytes and blocks\<close>

text \<open>The reference: one byte at a time, one bit at a time.\<close>

definition crc_reference :: "'a::len word \<Rightarrow> bytes \<Rightarrow> 'a word \<Rightarrow> 'a word" where
  "crc_reference p data state = fold (\<lambda>b s. shifts p 8 (s XOR ucast b)) data state"

lemma crc_reference_append: "crc_reference p (xs @ ys) s = crc_reference p ys (crc_reference p xs s)"
  by (simp add: crc_reference_def)

lemma crc_reference_xor:
  "crc_reference p data (s XOR t) = shifts p (8 * length data) s XOR crc_reference p data t"
proof (induction data arbitrary: s t)
  case Nil
  then show ?case by (simp add: crc_reference_def)
next
  case (Cons b data)
  have "crc_reference p (b # data) (s XOR t) = crc_reference p data (shifts p 8 s XOR shifts p 8 (t XOR ucast b))"
    by (simp add: crc_reference_def shifts_xor xor.assoc)
  also have "\<dots> = shifts p (8 * length data) (shifts p 8 s) XOR crc_reference p data (shifts p 8 (t XOR ucast b))"
    by (rule Cons.IH)
  finally show ?case by (simp add: shifts_shifts crc_reference_def add.commute)
qed

lemma crc_byte_step_build_tables:
  fixes s p :: "'a::len word"
  assumes "8 \<le> LENGTH('a)"
  shows "crc_byte_step (build_tables p) b s = shifts p 8 (s XOR ucast b)"
proof -
  let ?i = "ucast s XOR b"
  have "unat ?i < 256" using unsigned_less [of ?i] by simp
  moreover have "of_nat (unat ?i) = take_bit 8 (s XOR ucast b)"
    unfolding of_nat_unat by (rule bit_eqI) (auto simp: bit_simps dest: bit_imp_le_length)
  moreover have "drop_bit 8 (s XOR ucast b) = drop_bit 8 s"
    by (rule bit_eqI) (auto simp: bit_simps dest: bit_imp_le_length)
  ultimately show ?thesis
    using shifts_slice [of 0 p "s XOR ucast b"] build_tables_nth [of 0 "unat ?i" p]
    by (simp add: crc_byte_step_def)
qed

lemma block_reference:
  fixes s p :: "'a::len word"
  assumes "8 * length bs \<le> LENGTH('a)"
  shows "crc_reference p bs s = shifts p (8 * length bs) (s XOR from_le_bytes bs)"
  using assms
proof (induction bs arbitrary: s)
  case Nil
  then show ?case by (simp add: crc_reference_def)
next
  case (Cons b bs)
  let ?l = "from_le_bytes bs :: 'a word"
  have or_xor: "ucast b OR push_bit 8 ?l = ucast b XOR push_bit 8 ?l"
    by (rule bit_eqI) (auto simp: bit_simps dest: bit_imp_le_length)
  have "take_bit 8 (push_bit 8 ?l) = 0" by (rule bit_eqI) (auto simp: bit_simps)
  from shifts_low_zero [OF this, of p] have "shifts p 8 (push_bit 8 ?l) = drop_bit 8 (push_bit 8 ?l)" .
  also have "\<dots> = ?l"
    using Cons.prems by (intro bit_eqI) (auto simp: bit_simps bit_from_le_bytes)
  finally have shift: "shifts p 8 (push_bit 8 ?l) = ?l" .
  have "crc_reference p (b # bs) s = crc_reference p bs (shifts p 8 (s XOR ucast b))"
    by (simp add: crc_reference_def)
  also have "\<dots> = shifts p (8 * length bs) (shifts p 8 (s XOR ucast b) XOR shifts p 8 (push_bit 8 ?l))"
    using Cons.IH Cons.prems by (simp add: shift)
  finally show ?case by (simp add: shifts_shifts shifts_xor [symmetric] or_xor xor.assoc add.commute)
qed

lemma fold_crc_byte_step:
  "8 \<le> LENGTH('a) \<Longrightarrow> fold (crc_byte_step (build_tables p)) data s = crc_reference p data s" for s p :: "'a::len word"
  by (induction data arbitrary: s) (simp_all add: crc_reference_def crc_byte_step_build_tables)

text \<open>The lookups of a whole register, one table per byte.\<close>

lemma slices8:
  fixes x p :: u64
  assumes "k \<le> 8"
  shows "shifts p (8 * k + 64) x =
      table_byte (build_tables p) (k + 7) (x AND 0xFF)
    XOR table_byte (build_tables p) (k + 6) (drop_bit 8 x AND 0xFF)
    XOR table_byte (build_tables p) (k + 5) (drop_bit 16 x AND 0xFF)
    XOR table_byte (build_tables p) (k + 4) (drop_bit 24 x AND 0xFF)
    XOR table_byte (build_tables p) (k + 3) (drop_bit 32 x AND 0xFF)
    XOR table_byte (build_tables p) (k + 2) (drop_bit 40 x AND 0xFF)
    XOR table_byte (build_tables p) (k + 1) (drop_bit 48 x AND 0xFF)
    XOR table_byte (build_tables p) k (drop_bit 56 x)"
proof -
  have "unat x < 2 ^ 64" using unsigned_less [of x] by simp
  then have top: "unat (drop_bit 56 x) < 256" by (simp add: drop_bit_eq_div unat_div less_mult_imp_div_less)
  note step = slice_step [where p = p]
  show ?thesis
    using step [of "k + 7" x] step [of "k + 6" "drop_bit 8 x"] step [of "k + 5" "drop_bit 16 x"]
      step [of "k + 4" "drop_bit 24 x"] step [of "k + 3" "drop_bit 32 x"] step [of "k + 2" "drop_bit 40 x"]
      step [of "k + 1" "drop_bit 48 x"] table_byte_small [OF _ top, of k p] assms
    by (simp add: drop_bit_drop_bit algebra_simps xor.assoc)
qed

lemma slices4:
  fixes x p :: u32
  assumes "k \<le> 12"
  shows "shifts p (8 * k + 32) x =
      table_byte (build_tables p) (k + 3) (x AND 0xFF)
    XOR table_byte (build_tables p) (k + 2) (drop_bit 8 x AND 0xFF)
    XOR table_byte (build_tables p) (k + 1) (drop_bit 16 x AND 0xFF)
    XOR table_byte (build_tables p) k (drop_bit 24 x)"
proof -
  have "unat x < 2 ^ 32" using unsigned_less [of x] by simp
  then have top: "unat (drop_bit 24 x) < 256" by (simp add: drop_bit_eq_div unat_div less_mult_imp_div_less)
  note step = slice_step [where p = p]
  show ?thesis
    using step [of "k + 3" x] step [of "k + 2" "drop_bit 8 x"] step [of "k + 1" "drop_bit 16 x"]
      table_byte_small [OF _ top, of k p] assms
    by (simp add: drop_bit_drop_bit algebra_simps xor.assoc)
qed

lemma read_block:
  fixes s p :: "'a::len word"
  assumes "8 * n \<le> LENGTH('a)" and "n \<le> length data"
  shows "crc_reference p data s = crc_reference p (drop n data) (shifts p (8 * n) (s XOR from_le_bytes (take n data)))"
  using block_reference [of "take n data" p s] assms crc_reference_append [of p "take n data" "drop n data" s] by simp

lemma crc64_loop16_reference:
  "crc64_loop16 s data = (s', rest) \<Longrightarrow> crc_reference CRC64_POLY data s = crc_reference CRC64_POLY rest s'"
proof (induction "length data" arbitrary: s data rule: less_induct)
  case less
  let ?p = CRC64_POLY and ?first = "read_u64_le data" and ?second = "read_u64_le (drop 8 data)"
  let ?s = "shifts ?p 128 (s XOR ?first) XOR shifts ?p 64 ?second"
  show ?case
  proof (cases "16 \<le> length data")
    case True
    have "crc64_loop16 s data = crc64_loop16 ?s (drop 16 data)"
      using True slices8 [of 8 ?p "s XOR ?first"] slices8 [of 0 ?p ?second]
      by (subst crc64_loop16.simps) (simp add: CRC64_TABLES_def Let_def xor.assoc numeral_2_eq_2)
    moreover have "crc_reference ?p data s = crc_reference ?p (drop 16 data) ?s"
      using True read_block [of 8 data ?p s] read_block [of 8 "drop 8 data" ?p "shifts ?p 64 (s XOR ?first)"]
      by (simp add: read_u64_le_def shifts_xor shifts_shifts)
    ultimately show ?thesis using less True by simp
  next
    case False
    with less.prems show ?thesis by (subst (asm) crc64_loop16.simps) simp
  qed
qed

lemma crc64_loop8_reference:
  "crc64_loop8 s data = (s', rest) \<Longrightarrow> crc_reference CRC64_POLY data s = crc_reference CRC64_POLY rest s'"
proof (induction "length data" arbitrary: s data rule: less_induct)
  case less
  let ?p = CRC64_POLY and ?s = "shifts CRC64_POLY 64 (s XOR read_u64_le data)"
  show ?case
  proof (cases "8 \<le> length data")
    case True
    have "crc64_loop8 s data = crc64_loop8 ?s (drop 8 data)"
      using True slices8 [of 0 ?p "s XOR read_u64_le data"]
      by (subst crc64_loop8.simps) (simp add: CRC64_TABLES_def Let_def xor.assoc numeral_2_eq_2)
    moreover have "crc_reference ?p data s = crc_reference ?p (drop 8 data) ?s"
      using True read_block [of 8 data ?p s] by (simp add: read_u64_le_def)
    ultimately show ?thesis using less True by simp
  next
    case False
    with less.prems show ?thesis by (subst (asm) crc64_loop8.simps) simp
  qed
qed

lemma crc32_loop16_reference:
  "crc32_loop16 (build_tables p) s data = (s', rest) \<Longrightarrow> crc_reference p data s = crc_reference p rest s'"
proof (induction "length data" arbitrary: s data rule: less_induct)
  case less
  let ?w = "\<lambda>k. read_u32_le (drop k data)"
  let ?s = "shifts p 128 (s XOR ?w 0) XOR shifts p 96 (?w 4) XOR shifts p 64 (?w 8) XOR shifts p 32 (?w 12)"
  show ?case
  proof (cases "16 \<le> length data")
    case True
    have "crc32_loop16 (build_tables p) s data = crc32_loop16 (build_tables p) ?s (drop 16 data)"
      using True slices4 [of 12 p "s XOR ?w 0"] slices4 [of 8 p "?w 4"] slices4 [of 4 p "?w 8"] slices4 [of 0 p "?w 12"]
      by (subst crc32_loop16.simps) (simp add: Let_def xor.assoc numeral_2_eq_2)
    moreover have "crc_reference p data s = crc_reference p (drop 16 data) ?s"
      using True read_block [of 4 data p s] read_block [of 4 "drop 4 data" p "shifts p 32 (s XOR ?w 0)"]
        read_block [of 4 "drop 8 data" p "shifts p 64 (s XOR ?w 0) XOR shifts p 32 (?w 4)"]
        read_block [of 4 "drop 12 data" p "shifts p 96 (s XOR ?w 0) XOR shifts p 64 (?w 4) XOR shifts p 32 (?w 8)"]
      by (simp add: read_u32_le_def shifts_xor shifts_shifts xor.assoc)
    ultimately show ?thesis using less True by simp
  next
    case False
    with less.prems show ?thesis by (subst (asm) crc32_loop16.simps) simp
  qed
qed

lemma crc32_loop4_reference:
  "crc32_loop4 (build_tables p) s data = (s', rest) \<Longrightarrow> crc_reference p data s = crc_reference p rest s'"
proof (induction "length data" arbitrary: s data rule: less_induct)
  case less
  let ?s = "shifts p 32 (s XOR read_u32_le data)"
  show ?case
  proof (cases "4 \<le> length data")
    case True
    have "crc32_loop4 (build_tables p) s data = crc32_loop4 (build_tables p) ?s (drop 4 data)"
      using True slices4 [of 0 p "s XOR read_u32_le data"]
      by (subst crc32_loop4.simps) (simp add: Let_def xor.assoc numeral_2_eq_2)
    moreover have "crc_reference p data s = crc_reference p (drop 4 data) ?s"
      using True read_block [of 4 data p s] by (simp add: read_u32_le_def)
    ultimately show ?thesis using less True by simp
  next
    case False
    with less.prems show ?thesis by (subst (asm) crc32_loop4.simps) simp
  qed
qed

lemma crc64_extend_reference: "crc64_extend_scalar crc data = NOT (crc_reference CRC64_POLY data (NOT crc))"
proof -
  obtain s1 r1 where l1: "crc64_loop16 (NOT crc) data = (s1, r1)" by fastforce
  obtain s2 r2 where l2: "crc64_loop8 s1 r1 = (s2, r2)" by fastforce
  show ?thesis
    using crc64_loop16_reference [OF l1] crc64_loop8_reference [OF l2]
    by (simp add: crc64_extend_scalar_def l1 l2 CRC64_TABLES_def fold_crc_byte_step)
qed

lemma crc32_extend_reference: "crc32_extend_scalar crc data = NOT (crc_reference CRC32_POLY data (NOT crc))"
proof -
  obtain s1 r1 where l1: "crc32_loop16 (build_tables CRC32_POLY) (NOT crc) data = (s1, r1)" by fastforce
  obtain s2 r2 where l2: "crc32_loop4 (build_tables CRC32_POLY) s1 r1 = (s2, r2)" by fastforce
  show ?thesis
    using crc32_loop16_reference [OF l1] crc32_loop4_reference [OF l2]
    by (simp add: crc32_extend_scalar_def CRC32_TABLES_def l1 l2 fold_crc_byte_step)
qed

lemma crc32c_update_reference: "crc32c_update_scalar crc data = crc_reference CRC32C_POLY data crc"
proof -
  obtain s1 r1 where l1: "crc32_loop16 (build_tables CRC32C_POLY) crc data = (s1, r1)" by fastforce
  obtain s2 r2 where l2: "crc32_loop4 (build_tables CRC32C_POLY) s1 r1 = (s2, r2)" by fastforce
  show ?thesis
    using crc32_loop16_reference [OF l1] crc32_loop4_reference [OF l2]
    by (simp add: crc32c_update_scalar_def CRC32C_TABLES_def l1 l2 fold_crc_byte_step)
qed

section \<open>Linear operators as matrices\<close>

definition represents :: "'a::len word list \<Rightarrow> ('a word \<Rightarrow> 'a word) \<Rightarrow> bool" where
  "represents mat f \<longleftrightarrow> length mat = LENGTH('a) \<and> (\<forall>x y. f (x XOR y) = f x XOR f y) \<and>
     (\<forall>i < LENGTH('a). mat ! i = f (push_bit i 1))"

lemma represents_zero: "represents mat f \<Longrightarrow> f 0 = 0"
  unfolding represents_def by (metis xor_self_eq)

lemma push_low_bit: "push_bit i v = (if bit v 0 then push_bit i 1 else 0) XOR push_bit (Suc i) (drop_bit 1 v)"
  for v :: "'a::len word"
proof (rule bit_eqI)
  fix n
  show "bit (push_bit i v) n = bit ((if bit v 0 then push_bit i 1 else 0) XOR push_bit (Suc i) (drop_bit 1 v)) n"
    by (cases "n = i") (auto simp: bit_simps Suc_diff_Suc simp del: push_bit_Suc)
qed

lemma gf2_matrix_times_loop_represents:
  fixes v r :: "'a::len word"
  assumes "represents mat f" and "\<And>n. bit v n \<Longrightarrow> i + n < LENGTH('a)"
  shows "gf2_matrix_times_loop mat v i r = r XOR f (push_bit i v)"
  using assms(2)
proof (induction "unat v" arbitrary: v i r rule: less_induct)
  case less
  show ?case
  proof (cases "v = 0")
    case True
    then show ?thesis using represents_zero [OF assms(1)] by (simp add: gf2_matrix_times_loop.simps)
  next
    case False
    let ?r = "if bit v 0 then r XOR mat ! i else r"
    have "gf2_matrix_times_loop mat v i r = gf2_matrix_times_loop mat (drop_bit 1 v) (Suc i) ?r"
      using False by (subst gf2_matrix_times_loop.simps) (simp add: and_1_bit)
    also have "\<dots> = ?r XOR f (push_bit (Suc i) (drop_bit 1 v))"
    proof (rule less.hyps)
      show "unat (drop_bit 1 v) < unat v" using unat_drop_one [OF False] by simp
      show "Suc i + n < LENGTH('a)" if "bit (drop_bit 1 v) n" for n
        using less.prems [of "Suc n"] that by (simp add: bit_drop_bit_eq)
    qed
    also have "\<dots> = r XOR f (push_bit i v)"
    proof -
      have "f (push_bit i v) = f (if bit v 0 then push_bit i 1 else 0) XOR f (push_bit (Suc i) (drop_bit 1 v))"
        using assms(1) push_low_bit [of i v] by (metis represents_def)
      moreover have "mat ! i = f (push_bit i 1)" if "bit v 0"
        using assms(1) less.prems [OF that] by (simp add: represents_def)
      ultimately show ?thesis using represents_zero [OF assms(1)] by (simp add: xor.assoc)
    qed
    finally show ?thesis .
  qed
qed

lemma gf2_matrix_times_represents: "represents mat f \<Longrightarrow> gf2_matrix_times mat v = f v"
  unfolding gf2_matrix_times_def
  by (subst gf2_matrix_times_loop_represents) (auto dest: bit_imp_le_length)

lemma gf2_matrix_square_represents: "represents mat f \<Longrightarrow> represents (gf2_matrix_square mat) (f \<circ> f)"
  by (auto simp: represents_def gf2_matrix_square_def gf2_matrix_times_represents)

lemma one_bit_matrix_represents: "represents (one_bit_matrix p) (crc_shift p)" for p :: "'a::len word"
proof -
  have "one_bit_matrix p ! i = crc_shift p (push_bit i 1)" if "i < LENGTH('a)" for i
  proof (cases i)
    case 0
    then show ?thesis by (simp add: one_bit_matrix_def crc_shift_def)
  next
    case (Suc k)
    have "drop_bit 1 (push_bit (Suc k) 1) = (push_bit k 1 :: 'a word)"
      using that Suc by (intro bit_eqI) (auto simp: bit_simps)
    moreover have "\<not> bit (push_bit (Suc k) 1 :: 'a word) 0" unfolding bit_push_bit_iff by simp
    ultimately show ?thesis
      using that Suc nth_upt [of "Suc 0" k "LENGTH('a)"] by (simp add: one_bit_matrix_def crc_shift_def and_1_bit)
  qed
  moreover have "length (one_bit_matrix p) = LENGTH('a)" by (simp add: one_bit_matrix_def)
  ultimately show ?thesis by (simp add: represents_def crc_shift_xor)
qed

lemma represents_shifts_square:
  "represents mat (shifts p k) \<Longrightarrow> represents (gf2_matrix_square mat) (shifts p (2 * k))"
  using gf2_matrix_square_represents [of mat "shifts p k"] by (simp add: comp_def shifts_shifts mult_2)

lemma unat_split_low: "unat n = 2 * unat (drop_bit 1 n) + (if bit n 0 then 1 else 0)" for n :: "'a::len word"
proof -
  have "bit n 0 \<longleftrightarrow> bit (unat n) 0" by (simp only: bit_unsigned_iff) simp
  then show ?thesis by (cases "odd (unat n)") (simp_all add: unat_drop_bit_one bit_0)
qed

lemma combine_loop_shifts:
  "represents mat (shifts p k) \<Longrightarrow> combine_loop mat n crc = shifts p (2 * k * unat n) crc"
proof (induction "unat n" arbitrary: mat k n crc rule: less_induct)
  case less
  let ?even = "gf2_matrix_square mat" and ?odd = "gf2_matrix_square (gf2_matrix_square mat)"
  let ?n1 = "drop_bit 1 n" and ?n2 = "drop_bit 1 (drop_bit 1 n)"
  let ?c1 = "if bit n 0 then shifts p (2 * k) crc else crc"
  let ?c2 = "if bit ?n1 0 then shifts p (4 * k) ?c1 else ?c1"
  have even: "represents ?even (shifts p (2 * k))" by (rule represents_shifts_square [OF less.prems])
  have odd: "represents ?odd (shifts p (4 * k))" using represents_shifts_square [OF even] by simp
  have unfold: "combine_loop mat n crc = (if ?n1 = 0 then ?c1 else if ?n2 = 0 then ?c2 else combine_loop ?odd ?n2 ?c2)"
    by (subst combine_loop.simps) (simp add: Let_def and_1_bit gf2_matrix_times_represents [OF even] gf2_matrix_times_represents [OF odd])
  have c1: "?c1 = shifts p (2 * k * (if bit n 0 then 1 else 0)) crc" by simp
  have c2: "?c2 = shifts p (4 * k * (if bit ?n1 0 then 1 else 0) + 2 * k * (if bit n 0 then 1 else 0)) crc"
    by (simp add: shifts_shifts)
  note n = unat_split_low [of n] and n1 = unat_split_low [of ?n1]
  consider "?n1 = 0" | "?n1 \<noteq> 0" "?n2 = 0" | "?n1 \<noteq> 0" "?n2 \<noteq> 0" by blast
  then show ?case
  proof cases
    case 1
    then show ?thesis using unfold n c1 by simp
  next
    case 2
    then have "2 * k * unat n = 4 * k * (if bit ?n1 0 then 1 else 0) + 2 * k * (if bit n 0 then 1 else 0)"
      using n n1 by simp
    with 2 unfold c2 show ?thesis by simp
  next
    case 3
    then have "n \<noteq> 0" by auto
    then have "unat ?n2 < unat n" using unat_drop_one [of n] unat_drop_one [of ?n1] 3 by simp
    from less.hyps [OF this odd] have "combine_loop ?odd ?n2 ?c2 = shifts p (8 * k * unat ?n2) ?c2" by simp
    also have "\<dots> = shifts p (2 * k * unat n) crc"
      unfolding c2 shifts_shifts using n n1 by (simp add: algebra_simps)
    finally show ?thesis using 3 unfold by simp
  qed
qed

lemma crc_combine_shifts: "crc_combine p a b n = shifts p (8 * unat n) a XOR (if n = 0 then 0 else b)"
proof -
  have "represents (gf2_matrix_square (gf2_matrix_square (one_bit_matrix p))) (shifts p 4)"
    using represents_shifts_square [OF represents_shifts_square [of _ 1 p]] one_bit_matrix_represents [of p] by simp
  from combine_loop_shifts [OF this] show ?thesis by (simp add: crc_combine_def Let_def)
qed

section \<open>Properties\<close>

lemma slicing_crc:
  "crc64_checksum data = NOT (crc_reference CRC64_POLY data (NOT 0))"
  "crc32_checksum data = NOT (crc_reference CRC32_POLY data (NOT 0))"
  "crc32c_checksum data = NOT (crc_reference CRC32C_POLY data (NOT 0))"
  by (simp_all add: crc64_checksum_def crc32_checksum_def crc32c_checksum_def
      crc64_extend_reference crc32_extend_reference crc32c_update_reference)

text \<open>
  C16. The slicing-by-16 implementations of CRC-64/NVME, CRC-32 and CRC-32C compute the CRC of the data bit
  by bit: the register is complemented before and after, and every byte enters the low end of the register
  and is shifted out through the polynomial.
\<close>

theorem slicing_crc_correct:
  "crc64_checksum data = NOT (crc_reference CRC64_POLY data (NOT 0)) \<and>
   crc32_checksum data = NOT (crc_reference CRC32_POLY data (NOT 0)) \<and>
   crc32c_checksum data = NOT (crc_reference CRC32C_POLY data (NOT 0))"
  by (simp add: slicing_crc)

text \<open>
  Feeding a streaming hasher any sequence of chunks gives the checksum of their concatenation, for all
  three CRCs.
\<close>

theorem streaming_crc_correct:
  "Crc64Hasher_finalize (fold (\<lambda>chunk h. Crc64Hasher_update h chunk) chunks Crc64Hasher_new) = crc64_checksum (concat chunks) \<and>
   Crc32Hasher_finalize (fold (\<lambda>chunk h. Crc32Hasher_update h chunk) chunks Crc32Hasher_new) = crc32_checksum (concat chunks) \<and>
   Crc32cHasher_finalize (fold (\<lambda>chunk h. Crc32cHasher_update h chunk) chunks Crc32cHasher_new) = crc32c_checksum (concat chunks)"
proof -
  have "crc64_state (fold (\<lambda>chunk h. Crc64Hasher_update h chunk) chunks h) = NOT (crc_reference CRC64_POLY (concat chunks) (NOT (crc64_state h)))" for h
    by (induction chunks arbitrary: h)
      (simp_all add: Crc64Hasher_update_def crc64_extend_reference crc_reference_append, simp add: crc_reference_def)
  moreover have "crc32_state (fold (\<lambda>chunk h. Crc32Hasher_update h chunk) chunks h) = NOT (crc_reference CRC32_POLY (concat chunks) (NOT (crc32_state h)))" for h
    by (induction chunks arbitrary: h)
      (simp_all add: Crc32Hasher_update_def crc32_extend_reference crc_reference_append, simp add: crc_reference_def)
  moreover have "crc32c_state (fold (\<lambda>chunk h. Crc32cHasher_update h chunk) chunks h) = crc_reference CRC32C_POLY (concat chunks) (crc32c_state h)" for h
    by (induction chunks arbitrary: h)
      (simp_all add: Crc32cHasher_update_def crc32c_update_reference crc_reference_append, simp add: crc_reference_def)
  ultimately show ?thesis
    by (simp add: Crc64Hasher_finalize_def Crc64Hasher_new_def Crc32Hasher_finalize_def Crc32Hasher_new_def
        Crc32cHasher_finalize_def Crc32cHasher_new_def slicing_crc)
qed

lemma combine_reference:
  assumes "length b < 2 ^ 64"
  shows "crc_combine p (NOT (crc_reference p a (NOT 0))) (NOT (crc_reference p b (NOT 0))) (of_nat (length b)) =
    NOT (crc_reference p (a @ b) (NOT 0))"
proof -
  let ?ca = "NOT (crc_reference p a (NOT 0))"
  have len: "unat (of_nat (length b) :: u64) = length b" using assms by (simp add: unsigned_of_nat take_bit_nat_eq_self)
  have "crc_reference p (a @ b) (NOT 0) = crc_reference p b (?ca XOR NOT 0)"
    by (simp add: crc_reference_append)
  also have "\<dots> = shifts p (8 * length b) ?ca XOR crc_reference p b (NOT 0)" by (rule crc_reference_xor)
  finally have eq: "crc_reference p (a @ b) (NOT 0) = shifts p (8 * length b) ?ca XOR crc_reference p b (NOT 0)" .
  show ?thesis
  proof (cases "b = []")
    case True
    then show ?thesis by (simp add: crc_combine_def)
  next
    case False
    then have "(of_nat (length b) :: u64) \<noteq> 0" using len by auto
    then show ?thesis unfolding eq by (simp add: crc_combine_shifts len)
  qed
qed

text \<open>
  C17. Combining the checksums of two buffers with the length of the second gives the checksum of their
  concatenation, for all three CRCs.
\<close>

theorem combine_concat:
  assumes "length b < 2 ^ 64"
  shows "crc64_combine (crc64_checksum a) (crc64_checksum b) (of_nat (length b)) = crc64_checksum (a @ b) \<and>
    crc32_combine (crc32_checksum a) (crc32_checksum b) (of_nat (length b)) = crc32_checksum (a @ b) \<and>
    crc32c_combine (crc32c_checksum a) (crc32c_checksum b) (of_nat (length b)) = crc32c_checksum (a @ b)"
  unfolding slicing_crc crc64_combine_def crc32_combine_def crc32c_combine_def combine_reference [OF assms] by blast

theorem combine_concat_witness:
  "crc64_combine (crc64_checksum [104, 105]) (crc64_checksum [33]) 1 = crc64_checksum [104, 105, 33]"
  using combine_concat [of "[33]" "[104, 105]"] by simp

lemma xor_left_cancel: "z XOR x = z XOR y \<longleftrightarrow> x = y" for x y z :: "'a::len word"
proof
  assume "z XOR x = z XOR y"
  then have "z XOR (z XOR x) = z XOR (z XOR y)" by simp
  then show "x = y" by (simp flip: xor.assoc)
qed simp

lemma xor_zero_iff: "x XOR y = 0 \<longleftrightarrow> x = y" for x y :: "'a::len word"
  using xor_left_cancel [of x y x] by auto

lemma crc_shift_nonzero:
  fixes p x :: "'a::len word"
  assumes "bit p (LENGTH('a) - 1)" and "crc_shift p x = 0"
  shows "x = 0"
proof (cases "bit x 0")
  case True
  with assms(2) have "drop_bit 1 x = p" by (simp add: crc_shift_def and_1_bit xor_zero_iff)
  with assms(1) have "bit x (LENGTH('a))" by (auto simp: bit_drop_bit_eq)
  then show ?thesis by (auto dest: bit_imp_le_length)
next
  case False
  with assms(2) have "drop_bit 1 x = 0" by (simp add: crc_shift_def and_1_bit)
  with False split_low [of x 1] show ?thesis by (simp add: bit_0 take_bit_Suc even_iff_mod_2_eq_zero)
qed

lemma shifts_inject:
  fixes p x y :: "'a::len word"
  assumes "bit p (LENGTH('a) - 1)"
  shows "shifts p n x = shifts p n y \<longleftrightarrow> x = y"
proof -
  have zero: "z = 0" if "shifts p n z = 0" for z n
    using that by (induction n) (auto dest: crc_shift_nonzero [OF assms])
  have "shifts p n (x XOR y) = shifts p n x XOR shifts p n y" by (rule shifts_xor)
  then show ?thesis using zero [of n "x XOR y"] by (auto simp: xor_zero_iff)
qed

lemma crc_reference_inject:
  assumes "bit p (LENGTH('a) - 1)"
  shows "crc_reference p data s = crc_reference p data t \<longleftrightarrow> s = (t :: 'a::len word)"
proof -
  have eq: "crc_reference p data u = crc_reference p data 0 XOR shifts p (8 * length data) u" for u
    using crc_reference_xor [of p data u 0] by (simp add: xor.commute)
  have "crc_reference p data s = crc_reference p data t \<longleftrightarrow>
      crc_reference p data 0 XOR shifts p (8 * length data) s = crc_reference p data 0 XOR shifts p (8 * length data) t"
    unfolding eq [of s] eq [of t] by (rule refl)
  then show ?thesis unfolding xor_left_cancel shifts_inject [OF assms] .
qed

lemma from_le_bytes_inject:
  assumes "length xs = length ys" and "8 * length xs \<le> LENGTH('a)" and "from_le_bytes xs = (from_le_bytes ys :: 'a::len word)"
  shows "xs = ys"
proof (rule nth_equalityI)
  fix i assume i: "i < length xs"
  show "xs ! i = ys ! i"
  proof (rule bit_eqI)
    fix k
    show "bit (xs ! i) k = bit (ys ! i) k"
    proof (cases "k < 8")
      case True
      with i assms(2) have "8 * i + k < 8 * length xs" "8 * i + k < LENGTH('a)" by linarith+
      with assms True show ?thesis
        using bit_from_le_bytes [of xs "8 * i + k", where 'a = 'a] bit_from_le_bytes [of ys "8 * i + k", where 'a = 'a] by simp
    qed (auto dest: bit_imp_le_length)
  qed
qed (rule assms(1))

lemma burst_reference:
  fixes p s :: "'a::len word"
  assumes "bit p (LENGTH('a) - 1)" and "length xs = length ys" and "8 * length xs \<le> LENGTH('a)" and "xs \<noteq> ys"
  shows "crc_reference p (a @ xs @ c) s \<noteq> crc_reference p (a @ ys @ c) s"
  using from_le_bytes_inject [OF assms(2,3)] assms
  by (auto simp: crc_reference_append crc_reference_inject block_reference shifts_inject xor_left_cancel)

text \<open>
  The checksums detect every error burst no longer than the register: two buffers that differ only in a
  block of at most eight bytes have different CRC-64 checksums, and two that differ only in a block of at
  most four bytes have different CRC-32 and CRC-32C checksums.
\<close>

theorem crc_detects_bursts:
  assumes "length xs = length ys" and "xs \<noteq> ys"
  shows "(length xs \<le> 8 \<longrightarrow> crc64_checksum (a @ xs @ c) \<noteq> crc64_checksum (a @ ys @ c)) \<and>
    (length xs \<le> 4 \<longrightarrow> crc32_checksum (a @ xs @ c) \<noteq> crc32_checksum (a @ ys @ c) \<and>
       crc32c_checksum (a @ xs @ c) \<noteq> crc32c_checksum (a @ ys @ c))"
proof -
  have "bit CRC64_POLY 63" "bit CRC32_POLY 31" "bit CRC32C_POLY 31"
    by (simp_all add: CRC64_POLY_def CRC32_POLY_def CRC32C_POLY_def)
  then show ?thesis
    using burst_reference [of CRC64_POLY xs ys a c] burst_reference [of CRC32_POLY xs ys a c]
      burst_reference [of CRC32C_POLY xs ys a c] assms by (simp add: slicing_crc)
qed

theorem crc_detects_bursts_witness: "crc64_checksum ([1, 2] @ [3] @ [4]) \<noteq> crc64_checksum ([1, 2] @ [7] @ [4])"
  using crc_detects_bursts [of "[3]" "[7]" "[1, 2]" "[4]"] by simp

end
