(* ===== verification/Checksum.thy ===== *)
theory Checksum
  imports Crc_Properties
begin

text \<open>
  Checksum algorithms, their configuration for multipart uploads and the incremental hasher
  (\<^verbatim>\<open>crates/checksum/src/types.rs\<close>, \<^verbatim>\<open>crates/checksum/src/hash.rs\<close>). The digests that come from other
  packages are parameters: a function from the data to the digest.
\<close>

section \<open>Algorithms\<close>

datatype ChecksumAlgorithm =
  Crc32 | Crc32c | Sha1 | Sha256 | Crc64nvme | Md5 | XxHash64 | XxHash3 | XxHash128 | Sha512

definition ChecksumAlgorithm_ALL :: "ChecksumAlgorithm list" where
  "ChecksumAlgorithm_ALL = [Crc32, Crc32c, Sha1, Sha256, Crc64nvme, Md5, XxHash64, XxHash3, XxHash128, Sha512]"

fun ChecksumAlgorithm_wire_tag :: "ChecksumAlgorithm \<Rightarrow> u8" where
  "ChecksumAlgorithm_wire_tag Crc32 = 0"
| "ChecksumAlgorithm_wire_tag Crc32c = 1"
| "ChecksumAlgorithm_wire_tag Sha1 = 2"
| "ChecksumAlgorithm_wire_tag Sha256 = 3"
| "ChecksumAlgorithm_wire_tag Crc64nvme = 4"
| "ChecksumAlgorithm_wire_tag Md5 = 5"
| "ChecksumAlgorithm_wire_tag XxHash64 = 6"
| "ChecksumAlgorithm_wire_tag XxHash3 = 7"
| "ChecksumAlgorithm_wire_tag XxHash128 = 8"
| "ChecksumAlgorithm_wire_tag Sha512 = 9"

definition ChecksumAlgorithm_from_wire_tag :: "u8 \<Rightarrow> ChecksumAlgorithm option" where
  "ChecksumAlgorithm_from_wire_tag wire_tag =
     find (\<lambda>a. ChecksumAlgorithm_wire_tag a = wire_tag) ChecksumAlgorithm_ALL"

definition ChecksumAlgorithm_parse :: "string \<Rightarrow> ChecksumAlgorithm option" where
  "ChecksumAlgorithm_parse s =
     (if s = ''CRC32'' then Some Crc32
      else if s = ''CRC32C'' then Some Crc32c
      else if s = ''SHA1'' then Some Sha1
      else if s = ''SHA256'' then Some Sha256
      else if s = ''CRC64NVME'' then Some Crc64nvme
      else if s = ''MD5'' then Some Md5
      else if s = ''XXHASH64'' then Some XxHash64
      else if s = ''XXHASH3'' then Some XxHash3
      else if s = ''XXHASH128'' then Some XxHash128
      else if s = ''SHA512'' then Some Sha512
      else None)"

fun ChecksumAlgorithm_as_str :: "ChecksumAlgorithm \<Rightarrow> string" where
  "ChecksumAlgorithm_as_str Crc32 = ''CRC32''"
| "ChecksumAlgorithm_as_str Crc32c = ''CRC32C''"
| "ChecksumAlgorithm_as_str Sha1 = ''SHA1''"
| "ChecksumAlgorithm_as_str Sha256 = ''SHA256''"
| "ChecksumAlgorithm_as_str Crc64nvme = ''CRC64NVME''"
| "ChecksumAlgorithm_as_str Md5 = ''MD5''"
| "ChecksumAlgorithm_as_str XxHash64 = ''XXHASH64''"
| "ChecksumAlgorithm_as_str XxHash3 = ''XXHASH3''"
| "ChecksumAlgorithm_as_str XxHash128 = ''XXHASH128''"
| "ChecksumAlgorithm_as_str Sha512 = ''SHA512''"

fun ChecksumAlgorithm_header_name :: "ChecksumAlgorithm \<Rightarrow> string" where
  "ChecksumAlgorithm_header_name Crc32 = ''x-amz-checksum-crc32''"
| "ChecksumAlgorithm_header_name Crc32c = ''x-amz-checksum-crc32c''"
| "ChecksumAlgorithm_header_name Sha1 = ''x-amz-checksum-sha1''"
| "ChecksumAlgorithm_header_name Sha256 = ''x-amz-checksum-sha256''"
| "ChecksumAlgorithm_header_name Crc64nvme = ''x-amz-checksum-crc64nvme''"
| "ChecksumAlgorithm_header_name Md5 = ''x-amz-checksum-md5''"
| "ChecksumAlgorithm_header_name XxHash64 = ''x-amz-checksum-xxhash64''"
| "ChecksumAlgorithm_header_name XxHash3 = ''x-amz-checksum-xxhash3''"
| "ChecksumAlgorithm_header_name XxHash128 = ''x-amz-checksum-xxhash128''"
| "ChecksumAlgorithm_header_name Sha512 = ''x-amz-checksum-sha512''"

definition ChecksumAlgorithm_from_header_name :: "string \<Rightarrow> ChecksumAlgorithm option" where
  "ChecksumAlgorithm_from_header_name name =
     (let lower = to_ascii_lowercase name
      in find (\<lambda>algorithm. ChecksumAlgorithm_header_name algorithm = lower) ChecksumAlgorithm_ALL)"

fun ChecksumAlgorithm_xml_element_name :: "ChecksumAlgorithm \<Rightarrow> string" where
  "ChecksumAlgorithm_xml_element_name Crc32 = ''ChecksumCRC32''"
| "ChecksumAlgorithm_xml_element_name Crc32c = ''ChecksumCRC32C''"
| "ChecksumAlgorithm_xml_element_name Sha1 = ''ChecksumSHA1''"
| "ChecksumAlgorithm_xml_element_name Sha256 = ''ChecksumSHA256''"
| "ChecksumAlgorithm_xml_element_name Crc64nvme = ''ChecksumCRC64NVME''"
| "ChecksumAlgorithm_xml_element_name Md5 = ''ChecksumMD5''"
| "ChecksumAlgorithm_xml_element_name XxHash64 = ''ChecksumXXHASH64''"
| "ChecksumAlgorithm_xml_element_name XxHash3 = ''ChecksumXXHASH3''"
| "ChecksumAlgorithm_xml_element_name XxHash128 = ''ChecksumXXHASH128''"
| "ChecksumAlgorithm_xml_element_name Sha512 = ''ChecksumSHA512''"

fun expected_byte_length :: "ChecksumAlgorithm \<Rightarrow> nat" where
  "expected_byte_length Crc32 = 4"
| "expected_byte_length Crc32c = 4"
| "expected_byte_length Crc64nvme = 8"
| "expected_byte_length XxHash64 = 8"
| "expected_byte_length XxHash3 = 8"
| "expected_byte_length Md5 = 16"
| "expected_byte_length XxHash128 = 16"
| "expected_byte_length Sha1 = 20"
| "expected_byte_length Sha256 = 32"
| "expected_byte_length Sha512 = 64"

definition accepts_unconfigured_complete_multipart_header :: "ChecksumAlgorithm \<Rightarrow> bool" where
  "accepts_unconfigured_complete_multipart_header a \<longleftrightarrow> a \<in> {Crc32, Crc32c, Sha1, Sha256}"

definition stores_unconfigured_complete_multipart_header :: "ChecksumAlgorithm \<Rightarrow> bool" where
  "stores_unconfigured_complete_multipart_header a \<longleftrightarrow> a = Crc64nvme"

section \<open>Checksum types\<close>

datatype ChecksumType = Composite | FullObject

fun ChecksumType_wire_tag :: "ChecksumType \<Rightarrow> u8" where
  "ChecksumType_wire_tag Composite = 0"
| "ChecksumType_wire_tag FullObject = 1"

definition ChecksumType_from_wire_tag :: "u8 \<Rightarrow> ChecksumType option" where
  "ChecksumType_from_wire_tag wire_tag =
     find (\<lambda>t. ChecksumType_wire_tag t = wire_tag) [Composite, FullObject]"

definition OPTIONAL_ABSENT_WIRE_TAG :: u8 where "OPTIONAL_ABSENT_WIRE_TAG = 255"

definition optional_wire_tag :: "ChecksumType option \<Rightarrow> u8" where
  "optional_wire_tag t = (case t of Some t \<Rightarrow> ChecksumType_wire_tag t | None \<Rightarrow> OPTIONAL_ABSENT_WIRE_TAG)"

definition from_optional_wire_tag :: "u8 \<Rightarrow> ChecksumType option option" where
  "from_optional_wire_tag wire_tag =
     (if wire_tag = OPTIONAL_ABSENT_WIRE_TAG then Some None
      else case ChecksumType_from_wire_tag wire_tag of Some t \<Rightarrow> Some (Some t) | None \<Rightarrow> None)"

definition ChecksumType_parse :: "string \<Rightarrow> ChecksumType option" where
  "ChecksumType_parse s =
     (if s = ''COMPOSITE'' then Some Composite else if s = ''FULL_OBJECT'' then Some FullObject else None)"

fun ChecksumType_as_str :: "ChecksumType \<Rightarrow> string" where
  "ChecksumType_as_str Composite = ''COMPOSITE''"
| "ChecksumType_as_str FullObject = ''FULL_OBJECT''"

definition default_for :: "ChecksumAlgorithm \<Rightarrow> ChecksumType" where
  "default_for algo = (case algo of Crc64nvme \<Rightarrow> FullObject | _ \<Rightarrow> Composite)"

datatype InvalidChecksumConfig = InvalidChecksumConfig string

record MultipartChecksumConfig =
  config_algorithm :: ChecksumAlgorithm
  config_checksum_type :: ChecksumType

definition MultipartChecksumConfig_new ::
  "ChecksumAlgorithm \<Rightarrow> ChecksumType option \<Rightarrow> (InvalidChecksumConfig, MultipartChecksumConfig) result" where
  "MultipartChecksumConfig_new algorithm checksum_type =
     (let checksum_type = (case checksum_type of Some t \<Rightarrow> t | None \<Rightarrow> default_for algorithm)
      in if algorithm \<in> {Sha1, Sha256, Md5, XxHash64, XxHash3, XxHash128, Sha512} \<and> checksum_type = FullObject
         then Inl (InvalidChecksumConfig
           (''FULL_OBJECT checksum type is not supported for '' @ ChecksumAlgorithm_as_str algorithm))
         else if algorithm = Crc64nvme \<and> checksum_type = Composite
         then Inl (InvalidChecksumConfig ''COMPOSITE checksum type is not supported for CRC64NVME'')
         else Inr \<lparr>config_algorithm = algorithm, config_checksum_type = checksum_type\<rparr>)"

section \<open>Checksum values\<close>

definition MAX_LEN :: nat where "MAX_LEN = 64"

text \<open>The fixed-size array of the sources is a list of \<open>MAX_LEN\<close> bytes, zero beyond the checksum.\<close>

record RawChecksum =
  raw_algorithm :: ChecksumAlgorithm
  raw_bytes :: bytes

record RawChecksumError =
  error_algorithm :: ChecksumAlgorithm
  actual_len :: nat
  expected_len :: nat

definition RawChecksum_new :: "ChecksumAlgorithm \<Rightarrow> bytes \<Rightarrow> (RawChecksumError, RawChecksum) result" where
  "RawChecksum_new algorithm bs =
     (let expected = expected_byte_length algorithm
      in if length bs \<noteq> expected
         then Inl \<lparr>error_algorithm = algorithm, actual_len = length bs, expected_len = expected\<rparr>
         else Inr \<lparr>raw_algorithm = algorithm, raw_bytes = bs @ drop expected (replicate MAX_LEN 0)\<rparr>)"

definition RawChecksum_bytes :: "RawChecksum \<Rightarrow> bytes" where
  "RawChecksum_bytes self = take (expected_byte_length (raw_algorithm self)) (raw_bytes self)"

record ChecksumBytes =
  checksum_len :: u8
  checksum_bytes :: bytes

datatype ChecksumBytesError = Empty | TooLong nat nat

definition ChecksumBytes_new :: "bytes \<Rightarrow> (ChecksumBytesError, ChecksumBytes) result" where
  "ChecksumBytes_new bs =
     (if bs = [] then Inl Empty
      else if length bs > MAX_LEN then Inl (TooLong (length bs) MAX_LEN)
      else Inr \<lparr>checksum_len = of_nat (length bs), checksum_bytes = bs @ drop (length bs) (replicate MAX_LEN 0)\<rparr>)"

definition ChecksumBytes_as_slice :: "ChecksumBytes \<Rightarrow> bytes" where
  "ChecksumBytes_as_slice self = take (unat (checksum_len self)) (checksum_bytes self)"

text \<open>The conversion from a raw checksum; \<open>Inl\<close> is the panic of \<open>expect\<close>.\<close>

definition ChecksumBytes_from_raw :: "RawChecksum \<Rightarrow> (ChecksumBytesError, ChecksumBytes) result" where
  "ChecksumBytes_from_raw raw = ChecksumBytes_new (RawChecksum_bytes raw)"

section \<open>The incremental hasher\<close>

text \<open>
  The digests of other packages, as functions of the data they were fed. Their hashers are represented by
  the data fed so far.
\<close>

record Digests =
  md5_digest :: "bytes \<Rightarrow> bytes"
  sha1_digest :: "bytes \<Rightarrow> bytes"
  sha256_digest :: "bytes \<Rightarrow> bytes"
  sha512_digest :: "bytes \<Rightarrow> bytes"
  xxhash64_digest :: "bytes \<Rightarrow> u64"
  xxhash3_64_digest :: "bytes \<Rightarrow> u64"
  xxhash3_128_digest :: "bytes \<Rightarrow> 128 word"

datatype ChecksumHasher =
    HCrc32 Crc32Hasher
  | HCrc32c Crc32cHasher
  | HCrc64 Crc64Hasher
  | HMd5 bytes
  | HSha1 bytes
  | HSha256 bytes
  | HSha512 bytes
  | HXxHash64 bytes
  | HXxHash3 bytes
  | HXxHash128 bytes

fun ChecksumHasher_new :: "ChecksumAlgorithm \<Rightarrow> ChecksumHasher" where
  "ChecksumHasher_new Crc32 = HCrc32 Crc32Hasher_new"
| "ChecksumHasher_new Crc32c = HCrc32c Crc32cHasher_new"
| "ChecksumHasher_new Crc64nvme = HCrc64 Crc64Hasher_new"
| "ChecksumHasher_new Md5 = HMd5 []"
| "ChecksumHasher_new Sha1 = HSha1 []"
| "ChecksumHasher_new Sha256 = HSha256 []"
| "ChecksumHasher_new Sha512 = HSha512 []"
| "ChecksumHasher_new XxHash64 = HXxHash64 []"
| "ChecksumHasher_new XxHash3 = HXxHash3 []"
| "ChecksumHasher_new XxHash128 = HXxHash128 []"

fun ChecksumHasher_algorithm :: "ChecksumHasher \<Rightarrow> ChecksumAlgorithm" where
  "ChecksumHasher_algorithm (HCrc32 _) = Crc32"
| "ChecksumHasher_algorithm (HCrc32c _) = Crc32c"
| "ChecksumHasher_algorithm (HCrc64 _) = Crc64nvme"
| "ChecksumHasher_algorithm (HMd5 _) = Md5"
| "ChecksumHasher_algorithm (HSha1 _) = Sha1"
| "ChecksumHasher_algorithm (HSha256 _) = Sha256"
| "ChecksumHasher_algorithm (HSha512 _) = Sha512"
| "ChecksumHasher_algorithm (HXxHash64 _) = XxHash64"
| "ChecksumHasher_algorithm (HXxHash3 _) = XxHash3"
| "ChecksumHasher_algorithm (HXxHash128 _) = XxHash128"

fun ChecksumHasher_update :: "ChecksumHasher \<Rightarrow> bytes \<Rightarrow> ChecksumHasher" where
  "ChecksumHasher_update (HCrc32 hasher) data = HCrc32 (Crc32Hasher_update hasher data)"
| "ChecksumHasher_update (HCrc32c hasher) data = HCrc32c (Crc32cHasher_update hasher data)"
| "ChecksumHasher_update (HCrc64 hasher) data = HCrc64 (Crc64Hasher_update hasher data)"
| "ChecksumHasher_update (HMd5 fed) data = HMd5 (fed @ data)"
| "ChecksumHasher_update (HSha1 fed) data = HSha1 (fed @ data)"
| "ChecksumHasher_update (HSha256 fed) data = HSha256 (fed @ data)"
| "ChecksumHasher_update (HSha512 fed) data = HSha512 (fed @ data)"
| "ChecksumHasher_update (HXxHash64 fed) data = HXxHash64 (fed @ data)"
| "ChecksumHasher_update (HXxHash3 fed) data = HXxHash3 (fed @ data)"
| "ChecksumHasher_update (HXxHash128 fed) data = HXxHash128 (fed @ data)"

text \<open>\<open>Inl\<close> is the panic of the final \<open>expect\<close>.\<close>

fun ChecksumHasher_finalize :: "Digests \<Rightarrow> ChecksumHasher \<Rightarrow> (RawChecksumError, RawChecksum) result" where
  "ChecksumHasher_finalize d (HCrc32 hasher) = RawChecksum_new Crc32 (to_be_bytes (Crc32Hasher_finalize hasher))"
| "ChecksumHasher_finalize d (HCrc32c hasher) = RawChecksum_new Crc32c (to_be_bytes (Crc32cHasher_finalize hasher))"
| "ChecksumHasher_finalize d (HCrc64 hasher) = RawChecksum_new Crc64nvme (to_be_bytes (Crc64Hasher_finalize hasher))"
| "ChecksumHasher_finalize d (HMd5 fed) = RawChecksum_new Md5 (md5_digest d fed)"
| "ChecksumHasher_finalize d (HSha1 fed) = RawChecksum_new Sha1 (sha1_digest d fed)"
| "ChecksumHasher_finalize d (HSha256 fed) = RawChecksum_new Sha256 (sha256_digest d fed)"
| "ChecksumHasher_finalize d (HSha512 fed) = RawChecksum_new Sha512 (sha512_digest d fed)"
| "ChecksumHasher_finalize d (HXxHash64 fed) = RawChecksum_new XxHash64 (to_be_bytes (xxhash64_digest d fed))"
| "ChecksumHasher_finalize d (HXxHash3 fed) = RawChecksum_new XxHash3 (to_be_bytes (xxhash3_64_digest d fed))"
| "ChecksumHasher_finalize d (HXxHash128 fed) = RawChecksum_new XxHash128 (to_be_bytes (xxhash3_128_digest d fed))"

definition compute_checksum :: "Digests \<Rightarrow> ChecksumAlgorithm \<Rightarrow> bytes \<Rightarrow> (RawChecksumError, RawChecksum) result" where
  "compute_checksum d algorithm data =
     (let hasher = ChecksumHasher_new algorithm; hasher = ChecksumHasher_update hasher data
      in ChecksumHasher_finalize d hasher)"

end
