(* ===== verification/Checksum_Properties.thy ===== *)
theory Checksum_Properties
  imports Checksum
begin

text \<open>
  What the checksum types promise: names and wire tags round-trip, the hasher of any algorithm is
  independent of chunking and never panics, and a stored checksum reads back as it was given.
\<close>

section \<open>Names and tags\<close>

lemma find_header_name:
  "find (\<lambda>algorithm. ChecksumAlgorithm_header_name algorithm = l) ChecksumAlgorithm_ALL = Some a \<longleftrightarrow>
     l = ChecksumAlgorithm_header_name a"
  by (cases a) (auto simp: ChecksumAlgorithm_ALL_def)

text \<open>
  Every algorithm is recovered from its canonical name, its wire tag and its header name in any letter
  case, and nothing else decodes to it; the optional checksum-type tag round-trips as well.
\<close>

theorem checksum_names_round_trip:
  "(ChecksumAlgorithm_parse s = Some a \<longleftrightarrow> s = ChecksumAlgorithm_as_str a) \<and>
   (ChecksumAlgorithm_from_wire_tag tag = Some a \<longleftrightarrow> tag = ChecksumAlgorithm_wire_tag a) \<and>
   (ChecksumAlgorithm_from_header_name name = Some a \<longleftrightarrow> to_ascii_lowercase name = ChecksumAlgorithm_header_name a) \<and>
   (from_optional_wire_tag tag = Some t \<longleftrightarrow> tag = optional_wire_tag t) \<and>
   (ChecksumType_parse s = Some ct \<longleftrightarrow> s = ChecksumType_as_str ct)"
proof (intro conjI)
  show "ChecksumAlgorithm_parse s = Some a \<longleftrightarrow> s = ChecksumAlgorithm_as_str a"
    by (cases a) (auto simp: ChecksumAlgorithm_parse_def)
  show "ChecksumAlgorithm_from_wire_tag tag = Some a \<longleftrightarrow> tag = ChecksumAlgorithm_wire_tag a"
    by (cases a) (auto simp: ChecksumAlgorithm_from_wire_tag_def ChecksumAlgorithm_ALL_def)
  show "ChecksumAlgorithm_from_header_name name = Some a \<longleftrightarrow> to_ascii_lowercase name = ChecksumAlgorithm_header_name a"
    unfolding ChecksumAlgorithm_from_header_name_def Let_def by (rule find_header_name)
  show "from_optional_wire_tag tag = Some t \<longleftrightarrow> tag = optional_wire_tag t"
    by (cases t rule: option.exhaust; cases "the t")
      (auto simp: from_optional_wire_tag_def optional_wire_tag_def OPTIONAL_ABSENT_WIRE_TAG_def ChecksumType_from_wire_tag_def)
  show "ChecksumType_parse s = Some ct \<longleftrightarrow> s = ChecksumType_as_str ct"
    by (cases ct) (auto simp: ChecksumType_parse_def)
qed

section \<open>Configurations\<close>

text \<open>
  A multipart checksum configuration is accepted exactly for the documented combinations: CRC-64/NVME
  only for the full object, CRC-32 and CRC-32C for either type, everything else only as a composite; the
  default type of an algorithm is always accepted.
\<close>

theorem MultipartChecksumConfig_accepts_iff:
  "(\<exists>c. MultipartChecksumConfig_new a t = Inr c) \<longleftrightarrow>
     (case t of None \<Rightarrow> True
      | Some Composite \<Rightarrow> a \<noteq> Crc64nvme
      | Some FullObject \<Rightarrow> a \<in> {Crc64nvme, Crc32, Crc32c})"
  by (cases a; cases t rule: option.exhaust; cases "the t")
    (auto simp: MultipartChecksumConfig_new_def default_for_def)

section \<open>Values\<close>

lemma expected_byte_length_bounds: "1 \<le> expected_byte_length a \<and> expected_byte_length a \<le> MAX_LEN"
  by (cases a) (simp_all add: MAX_LEN_def)

lemma RawChecksum_new_bytes: "RawChecksum_new a bs = Inr r \<Longrightarrow> RawChecksum_bytes r = bs \<and> raw_algorithm r = a"
  by (auto simp: RawChecksum_new_def RawChecksum_bytes_def Let_def split: if_splits)

text \<open>
  A checksum accepted for an algorithm reads back as the bytes it was made of, and its conversion to
  plain checksum bytes never panics and keeps the bytes.
\<close>

theorem RawChecksum_round_trip:
  assumes "RawChecksum_new a bs = Inr r"
  shows "RawChecksum_bytes r = bs \<and> (\<exists>c. ChecksumBytes_from_raw r = Inr c \<and> ChecksumBytes_as_slice c = bs)"
proof -
  have bs: "RawChecksum_bytes r = bs" using RawChecksum_new_bytes [OF assms] by simp
  have "length bs = expected_byte_length a" using assms by (simp add: RawChecksum_new_def Let_def split: if_splits)
  with expected_byte_length_bounds [of a] have len: "bs \<noteq> []" "length bs \<le> MAX_LEN" by auto
  then have "unat (of_nat (length bs) :: u8) = length bs"
    by (simp add: MAX_LEN_def unsigned_of_nat take_bit_nat_eq_self)
  with bs len show ?thesis by (simp add: ChecksumBytes_from_raw_def ChecksumBytes_new_def ChecksumBytes_as_slice_def)
qed

theorem RawChecksum_round_trip_witness:
  "\<exists>r. RawChecksum_new Crc32 [1, 2, 3, 4] = Inr r \<and> RawChecksum_bytes r = [1, 2, 3, 4]"
proof -
  obtain r where "RawChecksum_new Crc32 [1, 2, 3, 4] = Inr r" by (simp add: RawChecksum_new_def)
  with RawChecksum_round_trip [OF this] show ?thesis by blast
qed

section \<open>The hasher\<close>

text \<open>The documented digest lengths.\<close>

definition digests_ok :: "Digests \<Rightarrow> bool" where
  "digests_ok d \<longleftrightarrow> (\<forall>data. length (md5_digest d data) = 16 \<and> length (sha1_digest d data) = 20 \<and>
     length (sha256_digest d data) = 32 \<and> length (sha512_digest d data) = 64)"

lemma update_append:
  "ChecksumHasher_finalize d (ChecksumHasher_update (ChecksumHasher_update h xs) ys) =
   ChecksumHasher_finalize d (ChecksumHasher_update h (xs @ ys))"
  by (cases h)
    (simp_all add: Crc32Hasher_update_def Crc32cHasher_update_def Crc64Hasher_update_def Crc32Hasher_finalize_def
      Crc32cHasher_finalize_def Crc64Hasher_finalize_def crc32_extend_reference crc32c_update_reference
      crc64_extend_reference crc_reference_append)

lemma update_nil: "ChecksumHasher_finalize d (ChecksumHasher_update h []) = ChecksumHasher_finalize d h"
  by (cases h)
    (simp_all add: Crc32Hasher_update_def Crc32cHasher_update_def Crc64Hasher_update_def Crc32Hasher_finalize_def
      Crc32cHasher_finalize_def Crc64Hasher_finalize_def crc32_extend_reference crc32c_update_reference
      crc64_extend_reference crc_reference_def)

lemma fold_update_concat:
  "ChecksumHasher_finalize d (fold (\<lambda>chunk h. ChecksumHasher_update h chunk) chunks h) =
   ChecksumHasher_finalize d (ChecksumHasher_update h (concat chunks))"
  by (induction chunks arbitrary: h) (simp_all add: update_nil update_append)

lemma finalize_ok:
  "digests_ok d \<Longrightarrow> \<exists>r. ChecksumHasher_finalize d h = Inr r \<and> raw_algorithm r = ChecksumHasher_algorithm h"
  by (cases h) (simp_all add: RawChecksum_new_def digests_ok_def)

text \<open>
  For every algorithm, feeding the data in any chunks gives the checksum of the concatenated data, and
  taking the result never panics.
\<close>

theorem hasher_chunking:
  assumes "digests_ok d"
  shows "\<exists>r. ChecksumHasher_finalize d (fold (\<lambda>chunk h. ChecksumHasher_update h chunk) chunks (ChecksumHasher_new a)) = Inr r \<and>
    compute_checksum d a (concat chunks) = Inr r \<and> raw_algorithm r = a"
proof -
  have "ChecksumHasher_algorithm (ChecksumHasher_update (ChecksumHasher_new a) data) = a" for data by (cases a) simp_all
  with finalize_ok [OF assms, of "ChecksumHasher_update (ChecksumHasher_new a) (concat chunks)"]
  show ?thesis by (simp add: fold_update_concat compute_checksum_def)
qed

theorem hasher_chunking_witness:
  "\<exists>d r. digests_ok d \<and> compute_checksum d Crc64nvme [1, 2, 3] = Inr r \<and> raw_algorithm r = Crc64nvme"
proof -
  let ?d = "\<lparr>md5_digest = (\<lambda>_. replicate 16 0), sha1_digest = (\<lambda>_. replicate 20 0), sha256_digest = (\<lambda>_. replicate 32 0),
    sha512_digest = (\<lambda>_. replicate 64 0), xxhash64_digest = (\<lambda>_. 0), xxhash3_64_digest = (\<lambda>_. 0),
    xxhash3_128_digest = (\<lambda>_. 0)\<rparr> :: Digests"
  have "digests_ok ?d" by (simp add: digests_ok_def)
  with hasher_chunking [OF this, of "[[1], [2, 3]]" Crc64nvme] show ?thesis by auto
qed

end
