(* ===== verification/Control_Plane_Error.thy ===== *)
theory Control_Plane_Error
  imports Argmin_Prelude
begin

text \<open>
  Errors of the control plane (\<^verbatim>\<open>crates/storage/src/control_plane/error.rs\<close>): the variants that the
  modelled components return. An I/O error carries the context in which it arose.
\<close>

datatype ControlPlaneAuthorityClockBlockedReason =
    InitialTimestampDiscontinuity
  | RaftLeadershipChanged
  | ClockSourceUnavailable
  | ClockHealthRegression
  | WallClockRegression
  | WallClockForwardJump
  | CheckpointPersistenceFailure

datatype ControlPlaneError =
    Io string
  | AuthorityClockCheckpoint string
  | CommandDecode string
  | LeaseDeadlineOverflow
  | LeaseDeadlineOutOfBounds u64 u64 u64 u64
  | CommittedTimestampRegression u64 u64
  | CommittedTimestampTooFarAhead u64 u64 u64
  | AuthorityClockLeadershipChanged "u64 option" u64
  | AuthorityClockSourceUnavailable
  | AuthorityClockNotEstablished "ControlPlaneAuthorityClockBlockedReason option"
  | AuthorityClockSampleWindowTooWide u64 u64
  | AuthorityClockAlreadyEstablished
  | AuthorityClockGenerationMismatch u64 u64
  | AuthorityClockCommittedTimestampMismatch "u64 option" "u64 option"
  | AuthorityClockRaftTermMismatch "u64 option" "u64 option"
  | AuthorityClockNotLocalServingRaftAuthority
  | AuthorityClockWallBehindCommittedTimestamp u64 u64
  | AuthorityClockGenerationOverflow

end
