(* ===== verification/Authority_Clock.thy ===== *)
theory Authority_Clock
  imports Lease Crc Control_Plane_Error
begin

text \<open>
  The authority clock of the control plane (\<^verbatim>\<open>crates/storage/src/control_plane/authority_clock.rs\<close>): the
  restart checkpoint with its binary format, and the state machine that hands out command timestamps. A
  method that takes \<open>&mut self\<close> returns the new state with its result. Samples of the process clock,
  random bytes and the SHA-256 function are arguments.
\<close>

section \<open>The restart checkpoint\<close>

definition string_bytes :: "string \<Rightarrow> bytes" where
  "string_bytes s = map of_char s"

definition CONTROL_PLANE_CLOCK_CHECKPOINT_MAGIC :: bytes where
  "CONTROL_PLANE_CLOCK_CHECKPOINT_MAGIC = string_bytes ''ARGCPCLK''"
definition CONTROL_PLANE_CLOCK_CHECKPOINT_VERSION :: u16 where
  "CONTROL_PLANE_CLOCK_CHECKPOINT_VERSION = 2"
definition CONTROL_PLANE_CLOCK_CHECKPOINT_BINDING_LEN :: nat where
  "CONTROL_PLANE_CLOCK_CHECKPOINT_BINDING_LEN = 32"
definition CONTROL_PLANE_CLOCK_CHECKPOINT_CHECKSUM_LEN :: nat where
  "CONTROL_PLANE_CLOCK_CHECKPOINT_CHECKSUM_LEN = 8"
definition CONTROL_PLANE_CLOCK_CHECKPOINT_LEN :: nat where
  "CONTROL_PLANE_CLOCK_CHECKPOINT_LEN = 8 + 2 + 32 + 8 + 1 + 8 + 8 + 8 + 8"

text \<open>A binding is an array of 32 bytes.\<close>

type_synonym CheckpointBinding = bytes

definition CheckpointBinding_for_raft :: "(bytes \<Rightarrow> bytes) \<Rightarrow> bytes \<Rightarrow> u64 \<Rightarrow> CheckpointBinding" where
  "CheckpointBinding_for_raft sha256 cluster_name node_id =
     sha256 (string_bytes ''argmin-control-plane-clock-checkpoint-raft-v1'' @ [0] @
       to_be_bytes (of_nat (length cluster_name) :: u64) @ cluster_name @ to_be_bytes node_id)"

definition CheckpointBinding_generate_single_authority ::
  "bytes option \<Rightarrow> (ControlPlaneError, CheckpointBinding) result" where
  "CheckpointBinding_generate_single_authority random =
     ok_or random (Io ''generate single-authority control-plane durable identity'')"

datatype CheckpointFormatError = Truncated | UnknownMagic | UnsupportedVersion u16

datatype CheckpointDecodeError = Format CheckpointFormatError | Invalid ControlPlaneError

record RestartCheckpoint =
  binding :: CheckpointBinding
  authority_generation :: u64
  committed_timestamp_high_water_ms :: "u64 option"
  wall_time_ms :: u64
  health_time_ms :: u64

definition RestartCheckpoint_from_process_clock ::
  "(ControlPlaneError, u64 \<times> u64 option) result \<Rightarrow> CheckpointBinding \<Rightarrow> u64 \<Rightarrow> u64 option \<Rightarrow>
   (ControlPlaneError, RestartCheckpoint) result" where
  "RestartCheckpoint_from_process_clock sample b generation high_water =
     (if generation = 0 then Inl (AuthorityClockCheckpoint ''checkpoint authority generation must be nonzero'')
      else and_then sample (\<lambda>(wall, health).
        and_then (ok_or health AuthorityClockSourceUnavailable) (\<lambda>health.
          Inr \<lparr>binding = b, authority_generation = generation, committed_timestamp_high_water_ms = high_water,
               wall_time_ms = wall, health_time_ms = health\<rparr>)))"

definition checkpoint_body :: "RestartCheckpoint \<Rightarrow> bytes" where
  "checkpoint_body self =
     CONTROL_PLANE_CLOCK_CHECKPOINT_MAGIC
     @ to_be_bytes CONTROL_PLANE_CLOCK_CHECKPOINT_VERSION
     @ binding self
     @ to_be_bytes (authority_generation self)
     @ (case committed_timestamp_high_water_ms self of
          Some timestamp_ms \<Rightarrow> [1] @ to_be_bytes timestamp_ms
        | None \<Rightarrow> [0] @ to_be_bytes (0 :: u64))
     @ to_be_bytes (wall_time_ms self)
     @ to_be_bytes (health_time_ms self)"

definition RestartCheckpoint_encode :: "RestartCheckpoint \<Rightarrow> bytes" where
  "RestartCheckpoint_encode self = checkpoint_body self @ to_be_bytes (crc64_checksum (checkpoint_body self))"

text \<open>The closure \<open>take\<close>: the next \<open>len\<close> bytes of the body and the offset behind them.\<close>

definition take_field :: "bytes \<Rightarrow> nat \<Rightarrow> nat \<Rightarrow> (CheckpointDecodeError, bytes \<times> nat) result" where
  "take_field body offset len =
     (if offset + len \<le> length body then Inr (take len (drop offset body), offset + len)
      else Inl (Invalid (AuthorityClockCheckpoint ''checkpoint is truncated'')))"

definition invalid_checkpoint :: "string \<Rightarrow> (CheckpointDecodeError, 'a) result" where
  "invalid_checkpoint message = Inl (Invalid (AuthorityClockCheckpoint message))"

definition decode_high_water :: "u8 \<Rightarrow> u64 \<Rightarrow> (CheckpointDecodeError, u64 option) result" where
  "decode_high_water timestamp_tag encoded_timestamp =
     (if timestamp_tag = 0 then
        if encoded_timestamp = 0 then Inr None
        else invalid_checkpoint ''absent checkpoint timestamp must use canonical zero value''
      else if timestamp_tag = 1 then Inr (Some encoded_timestamp)
      else invalid_checkpoint (''invalid checkpoint timestamp option tag '' @ dec_of_nat (unat timestamp_tag)))"

definition decode_classified :: "bytes \<Rightarrow> CheckpointBinding \<Rightarrow> (CheckpointDecodeError, RestartCheckpoint) result" where
  "decode_classified bs expected_binding =
     (if length bs < CONTROL_PLANE_CLOCK_CHECKPOINT_LEN then Inl (Format Truncated)
      else if length bs \<noteq> CONTROL_PLANE_CLOCK_CHECKPOINT_LEN
      then invalid_checkpoint (''checkpoint length '' @ dec_of_nat (length bs) @ '' does not match required fixed length '' @
        dec_of_nat CONTROL_PLANE_CLOCK_CHECKPOINT_LEN)
      else
        let body = take (length bs - CONTROL_PLANE_CLOCK_CHECKPOINT_CHECKSUM_LEN) bs;
            encoded_checksum = drop (length bs - CONTROL_PLANE_CLOCK_CHECKPOINT_CHECKSUM_LEN) bs
        in if crc64_checksum body \<noteq> from_be_bytes encoded_checksum
           then invalid_checkpoint ''checkpoint checksum mismatch''
           else
        and_then (take_field body 0 (length CONTROL_PLANE_CLOCK_CHECKPOINT_MAGIC)) (\<lambda>(magic, offset).
        if magic \<noteq> CONTROL_PLANE_CLOCK_CHECKPOINT_MAGIC then Inl (Format UnknownMagic) else
        and_then (take_field body offset 2) (\<lambda>(version_bytes, offset).
        let version = from_be_bytes version_bytes in
        if version \<noteq> CONTROL_PLANE_CLOCK_CHECKPOINT_VERSION then Inl (Format (UnsupportedVersion version)) else
        and_then (take_field body offset CONTROL_PLANE_CLOCK_CHECKPOINT_BINDING_LEN) (\<lambda>(b, offset).
        if b \<noteq> expected_binding
        then invalid_checkpoint ''checkpoint durable-state identity does not match this authority'' else
        and_then (take_field body offset 8) (\<lambda>(generation_bytes, offset).
        let generation = from_be_bytes generation_bytes in
        if generation = 0 then invalid_checkpoint ''checkpoint authority generation must be nonzero'' else
        and_then (take_field body offset 1) (\<lambda>(tag, offset).
        and_then (take_field body offset 8) (\<lambda>(timestamp_bytes, offset).
        and_then (decode_high_water (tag ! 0) (from_be_bytes timestamp_bytes)) (\<lambda>high_water.
        and_then (take_field body offset 8) (\<lambda>(wall_bytes, offset).
        and_then (take_field body offset 8) (\<lambda>(health_bytes, offset).
        if offset \<noteq> length body then invalid_checkpoint ''checkpoint has trailing bytes'' else
        Inr \<lparr>binding = b, authority_generation = generation, committed_timestamp_high_water_ms = high_water,
             wall_time_ms = from_be_bytes wall_bytes, health_time_ms = from_be_bytes health_bytes\<rparr>))))))))))"

section \<open>The clock\<close>

record ControlPlaneAuthorityClockStatus =
  status_generation :: u64
  status_established :: bool
  status_blocked_reason :: "ControlPlaneAuthorityClockBlockedReason option"
  status_committed_timestamp_high_water_ms :: "u64 option"
  bound_raft_leadership_term :: "u64 option"
  status_current_raft_leadership_term :: "u64 option"
  status_local_raft_authority_leader :: bool
  status_local_raft_authority_serving :: bool

record ControlPlaneAuthorityClockContext =
  context_committed_timestamp_high_water_ms :: "u64 option"
  current_raft_leadership_term :: "u64 option"
  local_raft_authority_leader :: bool
  local_raft_authority_serving :: bool

record ControlPlaneAuthorityClock =
  reference_wall_ms :: u64
  reference_clock_health_ms :: u64
  minimum_timestamp_ms :: "u64 option"
  raft_leadership_term :: "u64 option"
  initial_raft_term_binding_available :: bool
  established :: bool
  generation :: u64
  blocked_reason :: "ControlPlaneAuthorityClockBlockedReason option"
  restart_continuity_generation :: "u64 option"

text \<open>The tests on the restart checkpoint that establish the clock of a restarted process.\<close>

definition restart_continuous :: "RestartCheckpoint \<Rightarrow> u64 \<Rightarrow> u64 \<Rightarrow> u64 \<Rightarrow> bool" where
  "restart_continuous checkpoint committed_ms wall_ms clock_health_ms \<longleftrightarrow>
     (case committed_timestamp_high_water_ms checkpoint of None \<Rightarrow> True | Some checkpoint_ms \<Rightarrow> checkpoint_ms \<le> committed_ms) \<and>
     (case committed_timestamp_high_water_ms checkpoint of None \<Rightarrow> True | Some checkpoint_ms \<Rightarrow> checkpoint_ms \<le> wall_time_ms checkpoint) \<and>
     committed_ms \<le> wall_ms \<and>
     (case (checked_sub wall_ms (wall_time_ms checkpoint), checked_sub clock_health_ms (health_time_ms checkpoint)) of
        (Some wall_elapsed_ms, Some health_elapsed_ms) \<Rightarrow>
          abs_diff wall_elapsed_ms health_elapsed_ms \<le> CONTROL_PLANE_CLOCK_SKEW_BUDGET_MS
      | _ \<Rightarrow> False)"

definition new_internal ::
  "u64 option \<Rightarrow> u64 \<Rightarrow> u64 option \<Rightarrow> RestartCheckpoint option \<Rightarrow> bool \<Rightarrow>
   (ControlPlaneError, ControlPlaneAuthorityClock) result" where
  "new_internal max_committed_timestamp_ms wall_ms clock_health_ms restart_checkpoint allow_uncheckpointed_initial_state =
     (if (case restart_checkpoint of None \<Rightarrow> False | Some checkpoint \<Rightarrow> authority_generation checkpoint = 0)
      then Inl (AuthorityClockCheckpoint ''checkpoint authority generation must be nonzero'')
      else and_then (ok_or clock_health_ms AuthorityClockSourceUnavailable) (\<lambda>clock_health_ms.
        let ok = (case max_committed_timestamp_ms of None \<Rightarrow> True
                  | Some committed_ms \<Rightarrow>
                      (case restart_checkpoint of
                         None \<Rightarrow> allow_uncheckpointed_initial_state \<and>
                           abs_diff wall_ms committed_ms \<le> CONTROL_PLANE_CLOCK_SKEW_BUDGET_MS
                       | Some checkpoint \<Rightarrow> restart_continuous checkpoint committed_ms wall_ms clock_health_ms));
            checkpoint_generation = map_option authority_generation restart_checkpoint
        in Inr \<lparr>reference_wall_ms = wall_ms, reference_clock_health_ms = clock_health_ms,
                minimum_timestamp_ms = max_committed_timestamp_ms, raft_leadership_term = None,
                initial_raft_term_binding_available = (max_committed_timestamp_ms = None),
                established = ok,
                generation = (case checkpoint_generation of None \<Rightarrow> 1 | Some g \<Rightarrow> g),
                blocked_reason = (if ok then None else Some InitialTimestampDiscontinuity),
                restart_continuity_generation = (if ok then checkpoint_generation else None)\<rparr>))"

definition new_from_process_clock_with_restart_checkpoint ::
  "(ControlPlaneError, u64 \<times> u64 option) result \<Rightarrow> u64 option \<Rightarrow> RestartCheckpoint option \<Rightarrow>
   (ControlPlaneError, ControlPlaneAuthorityClock) result" where
  "new_from_process_clock_with_restart_checkpoint sample max_committed_timestamp_ms restart_checkpoint =
     and_then sample (\<lambda>(wall_ms, clock_health_ms).
       new_internal max_committed_timestamp_ms wall_ms clock_health_ms restart_checkpoint False)"

definition advance_generation :: "ControlPlaneAuthorityClock \<Rightarrow> ControlPlaneAuthorityClock \<times> (ControlPlaneError, unit) result" where
  "advance_generation self =
     (case checked_add (generation self) 1 of
        None \<Rightarrow> (self, Inl AuthorityClockGenerationOverflow)
      | Some g \<Rightarrow> (self\<lparr>generation := g\<rparr>, Inr ()))"

definition latch_unhealthy ::
  "ControlPlaneAuthorityClock \<Rightarrow> ControlPlaneAuthorityClockBlockedReason \<Rightarrow>
   ControlPlaneAuthorityClock \<times> (ControlPlaneError, unit) result" where
  "latch_unhealthy self reason =
     (let (self, advanced) = (if established self \<or> blocked_reason self \<noteq> Some reason then advance_generation self
                              else (self, Inr ()))
      in case advanced of
           Inl e \<Rightarrow> (self, Inl e)
         | Inr _ \<Rightarrow> (self\<lparr>established := False, blocked_reason := Some reason, restart_continuity_generation := None\<rparr>, Inr ()))"

definition fail_closed_after_checkpoint_persistence_failure ::
  "ControlPlaneAuthorityClock \<Rightarrow> ControlPlaneAuthorityClock \<times> (ControlPlaneError, unit) result" where
  "fail_closed_after_checkpoint_persistence_failure self = latch_unhealthy self CheckpointPersistenceFailure"

definition clock_status :: "ControlPlaneAuthorityClock \<Rightarrow> ControlPlaneAuthorityClockContext \<Rightarrow> ControlPlaneAuthorityClockStatus" where
  "clock_status self ctxt =
     \<lparr>status_generation = generation self, status_established = established self,
      status_blocked_reason = blocked_reason self,
      status_committed_timestamp_high_water_ms = context_committed_timestamp_high_water_ms ctxt,
      bound_raft_leadership_term = raft_leadership_term self,
      status_current_raft_leadership_term = current_raft_leadership_term ctxt,
      status_local_raft_authority_leader = local_raft_authority_leader ctxt,
      status_local_raft_authority_serving = local_raft_authority_serving ctxt\<rparr>"

definition lease_horizon_authority_binding ::
  "ControlPlaneAuthorityClock \<Rightarrow> u64 option \<Rightarrow> (ControlPlaneError, LeaseHorizonAuthorityBinding) result" where
  "lease_horizon_authority_binding self current_term =
     (if \<not> established self then Inl (AuthorityClockNotEstablished (blocked_reason self))
      else if raft_leadership_term self \<noteq> current_term
      then Inl (AuthorityClockRaftTermMismatch (raft_leadership_term self) current_term)
      else ok_or (LeaseHorizonAuthorityBinding_checked_new (generation self) current_term) AuthorityClockGenerationOverflow)"

definition advance_generation_past_lease_horizon ::
  "ControlPlaneAuthorityClock \<Rightarrow> LeaseHorizonAuthorityBinding \<Rightarrow> ControlPlaneAuthorityClock \<times> (ControlPlaneError, unit) result" where
  "advance_generation_past_lease_horizon self previous_authority =
     (case checked_add (clock_generation previous_authority) 1 of
        None \<Rightarrow> (self, Inl AuthorityClockGenerationOverflow)
      | Some next_generation \<Rightarrow>
          (self\<lparr>generation := max (generation self) next_generation, restart_continuity_generation := None\<rparr>, Inr ()))"

definition resume_single_authority_lease_horizon_generation ::
  "ControlPlaneAuthorityClock \<Rightarrow> LeaseHorizonAuthorityBinding \<Rightarrow> ControlPlaneAuthorityClock \<times> bool" where
  "resume_single_authority_lease_horizon_generation self previous_authority =
     (if restart_continuity_generation self \<noteq> Some (generation self) \<or> \<not> established self \<or>
         raft_leadership_term self \<noteq> None \<or> raft_term previous_authority \<noteq> None \<or>
         clock_generation previous_authority \<noteq> generation self
      then (self, False)
      else (self\<lparr>restart_continuity_generation := None\<rparr>, True))"

definition bind_initial_raft_leadership_term :: "ControlPlaneAuthorityClock \<Rightarrow> u64 option \<Rightarrow> ControlPlaneAuthorityClock" where
  "bind_initial_raft_leadership_term self term =
     self\<lparr>raft_leadership_term := term, initial_raft_term_binding_available := False, restart_continuity_generation := None\<rparr>"

definition observe_committed_timestamp_high_water :: "ControlPlaneAuthorityClock \<Rightarrow> u64 option \<Rightarrow> ControlPlaneAuthorityClock" where
  "observe_committed_timestamp_high_water self timestamp_ms =
     (case timestamp_ms of None \<Rightarrow> self
      | Some timestamp_ms \<Rightarrow>
          self\<lparr>minimum_timestamp_ms := Some (case minimum_timestamp_ms self of None \<Rightarrow> timestamp_ms
                                              | Some current \<Rightarrow> max current timestamp_ms)\<rparr>)"

definition validate_raft_leadership_term ::
  "ControlPlaneAuthorityClock \<Rightarrow> u64 \<Rightarrow> ControlPlaneAuthorityClock \<times> (ControlPlaneError, unit) result" where
  "validate_raft_leadership_term self term =
     (if raft_leadership_term self = Some term then (self, Inr ())
      else if raft_leadership_term self = None \<and> minimum_timestamp_ms self = None \<and> initial_raft_term_binding_available self
      then (self\<lparr>raft_leadership_term := Some term, initial_raft_term_binding_available := False\<rparr>, Inr ())
      else let established_term = raft_leadership_term self;
               (self, latched) = latch_unhealthy self RaftLeadershipChanged
           in (self, and_then latched (\<lambda>_. Inl (AuthorityClockLeadershipChanged established_term term))))"

definition effective_now_ms ::
  "ControlPlaneAuthorityClock \<Rightarrow> u64 \<Rightarrow> u64 option \<Rightarrow> ControlPlaneAuthorityClock \<times> (ControlPlaneError, u64) result" where
  "effective_now_ms self wall_ms clock_health_ms =
     (case clock_health_ms of
        None \<Rightarrow> let (self, latched) = latch_unhealthy self ClockSourceUnavailable
                in (self, and_then latched (\<lambda>_. Inl AuthorityClockSourceUnavailable))
      | Some clock_health_ms \<Rightarrow>
        let max_committed_timestamp_ms = (case minimum_timestamp_ms self of None \<Rightarrow> wall_ms | Some m \<Rightarrow> m) in
        if \<not> established self then (self, Inl (AuthorityClockNotEstablished (blocked_reason self)))
        else case checked_sub clock_health_ms (reference_clock_health_ms self) of
          None \<Rightarrow> let (self', latched) = latch_unhealthy self ClockHealthRegression
                  in (self', and_then latched (\<lambda>_. Inl (CommittedTimestampRegression clock_health_ms (reference_clock_health_ms self'))))
        | Some monotonic_elapsed_ms \<Rightarrow>
          (case checked_add (reference_wall_ms self) monotonic_elapsed_ms of
             None \<Rightarrow> (self, Inl LeaseDeadlineOverflow)
           | Some expected_wall_ms \<Rightarrow>
             if CONTROL_PLANE_CLOCK_SKEW_BUDGET_MS < abs_diff wall_ms expected_wall_ms
             then let (self', latched) = latch_unhealthy self
                        (if wall_ms < expected_wall_ms then WallClockRegression else WallClockForwardJump)
                  in (self', and_then latched (\<lambda>_. Inl
                       (if wall_ms < expected_wall_ms then CommittedTimestampRegression wall_ms expected_wall_ms
                        else CommittedTimestampTooFarAhead wall_ms expected_wall_ms CONTROL_PLANE_CLOCK_SKEW_BUDGET_MS)))
             else let effective_now = max wall_ms max_committed_timestamp_ms
                  in (self\<lparr>minimum_timestamp_ms := Some effective_now\<rparr>, Inr effective_now)))"

definition effective_process_now_ms ::
  "(ControlPlaneError, u64 \<times> u64 option) result \<Rightarrow> ControlPlaneAuthorityClock \<Rightarrow>
   ControlPlaneAuthorityClock \<times> (ControlPlaneError, u64) result" where
  "effective_process_now_ms sample self =
     (case sample of Inl e \<Rightarrow> (self, Inl e) | Inr (wall_ms, health_ms) \<Rightarrow> effective_now_ms self wall_ms health_ms)"

definition observe_status ::
  "ControlPlaneAuthorityClock \<Rightarrow> ControlPlaneAuthorityClockContext \<Rightarrow> u64 \<Rightarrow> u64 option \<Rightarrow>
   ControlPlaneAuthorityClock \<times> (ControlPlaneError, ControlPlaneAuthorityClockStatus) result" where
  "observe_status self ctxt wall_ms clock_health_ms =
     (let report = (\<lambda>self error. (self, if established self then Inl error else Inr (clock_status self ctxt)));
          self = observe_committed_timestamp_high_water self (context_committed_timestamp_high_water_ms ctxt);
          (self, term_ok) = (case current_raft_leadership_term ctxt of None \<Rightarrow> (self, Inr ())
                             | Some term \<Rightarrow> validate_raft_leadership_term self term)
      in case term_ok of Inl error \<Rightarrow> report self error
         | Inr _ \<Rightarrow>
           (let (self, now) = effective_now_ms self wall_ms clock_health_ms
            in case now of Inl error \<Rightarrow> report self error | Inr _ \<Rightarrow> (self, Inr (clock_status self ctxt))))"

definition reestablish ::
  "ControlPlaneAuthorityClock \<Rightarrow> u64 \<Rightarrow> u64 option \<Rightarrow> u64 option \<Rightarrow> ControlPlaneAuthorityClockContext \<Rightarrow> u64 \<Rightarrow> u64 option \<Rightarrow>
   ControlPlaneAuthorityClock \<times> (ControlPlaneError, ControlPlaneAuthorityClockStatus) result" where
  "reestablish self expected_generation expected_high_water expected_term ctxt wall_ms clock_health_ms =
     (let high_water = context_committed_timestamp_high_water_ms ctxt; term = current_raft_leadership_term ctxt in
      if established self then (self, Inl AuthorityClockAlreadyEstablished)
      else if expected_generation \<noteq> generation self
      then (self, Inl (AuthorityClockGenerationMismatch expected_generation (generation self)))
      else if expected_high_water \<noteq> high_water
      then (self, Inl (AuthorityClockCommittedTimestampMismatch expected_high_water high_water))
      else if expected_term \<noteq> term then (self, Inl (AuthorityClockRaftTermMismatch expected_term term))
      else if term \<noteq> None \<and> \<not> local_raft_authority_serving ctxt
      then (self, Inl AuthorityClockNotLocalServingRaftAuthority)
      else if (case high_water of None \<Rightarrow> False | Some h \<Rightarrow> wall_ms < h)
      then (self, Inl (AuthorityClockWallBehindCommittedTimestamp wall_ms (the high_water)))
      else case clock_health_ms of None \<Rightarrow> (self, Inl AuthorityClockSourceUnavailable)
      | Some clock_health_ms \<Rightarrow>
        (case checked_add (generation self) 1 of None \<Rightarrow> (self, Inl AuthorityClockGenerationOverflow)
         | Some next_generation \<Rightarrow>
           (let self = self\<lparr>reference_wall_ms := wall_ms, reference_clock_health_ms := clock_health_ms,
                            minimum_timestamp_ms := high_water, raft_leadership_term := term,
                            initial_raft_term_binding_available := False, established := True,
                            blocked_reason := None, generation := next_generation,
                            restart_continuity_generation := None\<rparr>
            in (self, Inr (clock_status self ctxt)))))"

end
