(* ===== verification/Authority_Clock_Properties.thy ===== *)
theory Authority_Clock_Properties
  imports Authority_Clock Crc_Properties Lease_Properties
begin

text \<open>
  What the authority clock promises: timestamps of one generation never go back, a blocked clock issues
  nothing until it is re-established, every re-establishment yields a new authority identity, and a restart
  checkpoint decodes exactly from its own encoding.
\<close>

section \<open>Operations\<close>

text \<open>The operations on a clock other than \<open>reestablish\<close>, and the timestamp they issue.\<close>

datatype ClockOp =
    Now u64 "u64 option"
  | Term u64
  | Committed "u64 option"
  | PersistenceFailure
  | PastHorizon LeaseHorizonAuthorityBinding
  | Resume LeaseHorizonAuthorityBinding
  | BindTerm "u64 option"
  | Status ControlPlaneAuthorityClockContext u64 "u64 option"

fun issued :: "('e, 'a) result \<Rightarrow> 'a option" where
  "issued (Inl e) = None"
| "issued (Inr x) = Some x"

fun clock_op :: "ClockOp \<Rightarrow> ControlPlaneAuthorityClock \<Rightarrow> ControlPlaneAuthorityClock \<times> u64 option" where
  "clock_op (Now wall health) self = (let (self, r) = effective_now_ms self wall health in (self, issued r))"
| "clock_op (Term term) self = (fst (validate_raft_leadership_term self term), None)"
| "clock_op (Committed h) self = (observe_committed_timestamp_high_water self h, None)"
| "clock_op PersistenceFailure self = (fst (fail_closed_after_checkpoint_persistence_failure self), None)"
| "clock_op (PastHorizon b) self = (fst (advance_generation_past_lease_horizon self b), None)"
| "clock_op (Resume b) self = (fst (resume_single_authority_lease_horizon_generation self b), None)"
| "clock_op (BindTerm term) self = (bind_initial_raft_leadership_term self term, None)"
| "clock_op (Status ctxt wall health) self = (fst (observe_status self ctxt wall health), None)"

inductive clock_step :: "ControlPlaneAuthorityClock \<Rightarrow> ControlPlaneAuthorityClock \<Rightarrow> bool" where
  Operation: "clock_step self (fst (clock_op operation self))"
| Reestablish: "clock_step self (fst (reestablish self expected_generation expected_high_water expected_term ctxt wall health))"

abbreviation clock_steps :: "ControlPlaneAuthorityClock \<Rightarrow> ControlPlaneAuthorityClock \<Rightarrow> bool" where
  "clock_steps \<equiv> clock_step\<^sup>*\<^sup>*"

section \<open>What one step keeps\<close>

text \<open>A clock is established or has a reason why not, and its generation is never zero.\<close>

definition clock_ok :: "ControlPlaneAuthorityClock \<Rightarrow> bool" where
  "clock_ok self \<longleftrightarrow> established self = (blocked_reason self = None) \<and> generation self \<noteq> 0"

text \<open>
  The effect of a step: the generation does not go down, a step that blocks the clock or establishes it
  raises the generation, and within a generation the minimum timestamp only rises.
\<close>

definition clock_rel :: "ControlPlaneAuthorityClock \<Rightarrow> ControlPlaneAuthorityClock \<Rightarrow> bool" where
  "clock_rel self self' \<longleftrightarrow>
     unat (generation self) \<le> unat (generation self') \<and>
     (established self \<noteq> established self' \<longrightarrow> unat (generation self) < unat (generation self')) \<and>
     (generation self = generation self' \<longrightarrow>
        (\<forall>m. minimum_timestamp_ms self = Some m \<longrightarrow> (\<exists>m'. minimum_timestamp_ms self' = Some m' \<and> m \<le> m'))) \<and>
     (clock_ok self \<longrightarrow> clock_ok self')"

lemma clock_rel_refl [simp]: "clock_rel self self"
  by (simp add: clock_rel_def)

lemma clock_rel_trans [trans]: "clock_rel a b \<Longrightarrow> clock_rel b c \<Longrightarrow> clock_rel a c"
proof -
  assume ab: "clock_rel a b" and bc: "clock_rel b c"
  have "generation a = generation b \<and> generation b = generation c" if "generation a = generation c"
    using ab bc that by (simp add: clock_rel_def) (metis le_antisym unsigned_word_eqI)
  with ab bc show ?thesis unfolding clock_rel_def by (smt (verit) le_less_trans less_le_trans order_trans)
qed

lemma latch_rel: "clock_rel self (fst (latch_unhealthy self reason))"
proof (cases "checked_add (generation self) 1")
  case None
  then show ?thesis by (simp add: latch_unhealthy_def advance_generation_def clock_rel_def clock_ok_def)
next
  case (Some g)
  then have "unat g = Suc (unat (generation self))" by (simp add: checked_add_Some_iff)
  moreover from this have "g \<noteq> 0" by auto
  ultimately show ?thesis using Some
    by (auto simp: latch_unhealthy_def advance_generation_def clock_rel_def clock_ok_def)
qed

lemma effective_now_rel: "clock_rel self (fst (effective_now_ms self wall health))"
proof -
  have "clock_rel self (self\<lparr>minimum_timestamp_ms := Some (max wall (case minimum_timestamp_ms self of None \<Rightarrow> wall | Some m \<Rightarrow> m))\<rparr>)"
    by (auto simp: clock_rel_def clock_ok_def)
  then show ?thesis
    using latch_rel by (auto simp: effective_now_ms_def case_prod_unfold Let_def split: option.splits)
qed

lemma term_rel: "clock_rel self (fst (validate_raft_leadership_term self term))"
  using latch_rel by (auto simp: validate_raft_leadership_term_def case_prod_unfold Let_def clock_rel_def clock_ok_def)

lemma committed_rel: "clock_rel self (observe_committed_timestamp_high_water self h)"
  by (auto simp: observe_committed_timestamp_high_water_def clock_rel_def clock_ok_def split: option.splits)

lemma past_horizon_rel: "clock_rel self (fst (advance_generation_past_lease_horizon self b))"
  by (auto simp: advance_generation_past_lease_horizon_def clock_rel_def clock_ok_def checked_add_Some_iff unat_max
      max_def word_le_nat_alt unat_eq_0 split: option.splits)

lemma resume_rel: "clock_rel self (fst (resume_single_authority_lease_horizon_generation self b))"
  by (auto simp: resume_single_authority_lease_horizon_generation_def clock_rel_def clock_ok_def)

lemma bind_term_rel: "clock_rel self (bind_initial_raft_leadership_term self term)"
  by (auto simp: bind_initial_raft_leadership_term_def clock_rel_def clock_ok_def)

lemma status_rel: "clock_rel self (fst (observe_status self ctxt wall health))"
proof -
  let ?s1 = "observe_committed_timestamp_high_water self (context_committed_timestamp_high_water_ms ctxt)"
  let ?s2 = "case current_raft_leadership_term ctxt of None \<Rightarrow> (?s1, Inr ()) | Some term \<Rightarrow> validate_raft_leadership_term ?s1 term"
  have s1: "clock_rel self ?s1" by (rule committed_rel)
  have s2: "clock_rel self (fst ?s2)" using clock_rel_trans [OF s1 term_rel] s1 by (simp split: option.split)
  from clock_rel_trans [OF this effective_now_rel] have "clock_rel self (fst (effective_now_ms (fst ?s2) wall health))" .
  with s2 show ?thesis by (simp add: observe_status_def Let_def case_prod_unfold split: sum.split)
qed

lemma reestablish_rel: "clock_rel self (fst (reestablish self g h t ctxt wall health))"
proof (cases "checked_add (generation self) 1")
  case None
  then show ?thesis by (simp add: reestablish_def Let_def split: option.split)
next
  case (Some g')
  then have "unat g' = Suc (unat (generation self))" by (simp add: checked_add_Some_iff)
  moreover from this have "g' \<noteq> 0" "g' \<noteq> generation self" by auto
  ultimately show ?thesis using Some
    by (auto simp: reestablish_def Let_def clock_rel_def clock_ok_def split: option.split)
qed

lemma clock_op_rel: "clock_rel self (fst (clock_op operation self))"
  by (cases operation)
    (simp_all add: case_prod_unfold Let_def effective_now_rel term_rel committed_rel past_horizon_rel resume_rel
      bind_term_rel status_rel fail_closed_after_checkpoint_persistence_failure_def latch_rel)

lemma clock_step_rel: "clock_step self self' \<Longrightarrow> clock_rel self self'"
  by (induction rule: clock_step.induct) (simp_all add: clock_op_rel reestablish_rel)

lemma clock_steps_rel: "clock_steps self self' \<Longrightarrow> clock_rel self self'"
  by (induction rule: rtranclp_induct) (auto intro: clock_rel_trans clock_step_rel)

section \<open>Timestamps\<close>

lemma effective_now_Inr:
  assumes "effective_now_ms self wall health = (self', Inr t)"
  shows "established self" and "self' = self\<lparr>minimum_timestamp_ms := Some t\<rparr>" and "wall \<le> t"
    and "\<And>m. minimum_timestamp_ms self = Some m \<Longrightarrow> m \<le> t \<and> t = max wall m"
    and "minimum_timestamp_ms self = None \<Longrightarrow> t = wall"
    and "\<exists>h. health = Some h \<and> reference_clock_health_ms self \<le> h \<and>
      \<bar>uint wall - (uint (reference_wall_ms self) + (uint h - uint (reference_clock_health_ms self)))\<bar> \<le> 1000"
proof -
  note def = effective_now_ms_def case_prod_unfold Let_def
  obtain h where h: "health = Some h" using assms by (cases health) (simp_all add: def)
  have est: "established self" using assms h by (cases "established self") (simp_all add: def)
  obtain elapsed where el: "checked_sub h (reference_clock_health_ms self) = Some elapsed"
    using assms h est by (cases "checked_sub h (reference_clock_health_ms self)") (simp_all add: def)
  obtain expected where ex: "checked_add (reference_wall_ms self) elapsed = Some expected"
    using assms h est el by (cases "checked_add (reference_wall_ms self) elapsed") (simp_all add: def)
  have drift: "\<not> CONTROL_PLANE_CLOCK_SKEW_BUDGET_MS < abs_diff wall expected"
    using assms h est el ex by (cases "CONTROL_PLANE_CLOCK_SKEW_BUDGET_MS < abs_diff wall expected") (simp_all add: def)
  have t: "t = max wall (case minimum_timestamp_ms self of None \<Rightarrow> wall | Some m \<Rightarrow> m)"
    and self': "self' = self\<lparr>minimum_timestamp_ms := Some t\<rparr>"
    using assms h est el ex drift by (auto simp: effective_now_ms_def Let_def)
  show "established self" "self' = self\<lparr>minimum_timestamp_ms := Some t\<rparr>" "wall \<le> t" using est self' t by simp_all
  show "m \<le> t \<and> t = max wall m" if "minimum_timestamp_ms self = Some m" for m using that t by simp
  show "t = wall" if "minimum_timestamp_ms self = None" using that t by simp
  from el have le: "reference_clock_health_ms self \<le> h" and "uint elapsed = uint h - uint (reference_clock_health_ms self)"
    by (auto simp: checked_sub_def uint_sub_le split: if_splits)
  moreover have "uint expected = uint (reference_wall_ms self) + uint elapsed"
    using checked_add_Some_iff [THEN iffD1, OF ex] unfolding uint_nat by linarith
  moreover from drift have "\<bar>uint wall - uint expected\<bar> \<le> 1000"
    by (simp add: not_less abs_diff_le_int CONTROL_PLANE_CLOCK_SKEW_BUDGET_MS_def)
  ultimately show "\<exists>h. health = Some h \<and> reference_clock_health_ms self \<le> h \<and>
      \<bar>uint wall - (uint (reference_wall_ms self) + (uint h - uint (reference_clock_health_ms self)))\<bar> \<le> 1000"
    using h by (simp only: option.inject) force
qed


definition clock0 :: ControlPlaneAuthorityClock where
  "clock0 = \<lparr>reference_wall_ms = 10000, reference_clock_health_ms = 500, minimum_timestamp_ms = None, raft_leadership_term = None,
     initial_raft_term_binding_available = True, established = True, generation = 1, blocked_reason = None,
     restart_continuity_generation = None\<rparr>"

lemma clock0_new: "new_internal None 10000 (Some 500) None False = Inr clock0"
  by (simp add: new_internal_def clock0_def)

lemma now0:
  "effective_now_ms clock0 10100 (Some 600) = (clock0\<lparr>minimum_timestamp_ms := Some 10100\<rparr>, Inr 10100)"
  "effective_now_ms (clock0\<lparr>minimum_timestamp_ms := Some 10100\<rparr>) 10050 (Some 700) =
     (clock0\<lparr>minimum_timestamp_ms := Some 10100\<rparr>, Inr 10100)"
  by (simp_all add: effective_now_ms_def clock0_def checked_sub_def checked_add_def abs_diff_def
      CONTROL_PLANE_CLOCK_SKEW_BUDGET_MS_def)


text \<open>
  An issued timestamp is within the budget: it comes from an established clock, it is at least the wall
  time and at least every timestamp known as committed, and the wall clock has moved with the health clock
  since the clock was established, up to the skew budget of one second.
\<close>

theorem timestamp_within_budget:
  assumes "effective_now_ms c wall health = (c', Inr t)"
  shows "established c \<and> wall \<le> t \<and> (\<forall>m. minimum_timestamp_ms c = Some m \<longrightarrow> m \<le> t) \<and>
    (\<exists>h. health = Some h \<and> reference_clock_health_ms c \<le> h \<and>
      \<bar>(uint wall - uint (reference_wall_ms c)) - (uint h - uint (reference_clock_health_ms c))\<bar> \<le> 1000)"
  using effective_now_Inr [OF assms] by (auto simp: algebra_simps)

theorem timestamp_within_budget_witness: "established clock0 \<and> (10100 :: u64) \<le> 10100"
  using timestamp_within_budget [OF now0(1)] by simp

section \<open>Blocked clocks\<close>

lemma blocked_now: "\<not> established self \<Longrightarrow> issued (snd (effective_now_ms self wall health)) = None"
  by (cases "effective_now_ms self wall health"; cases "snd (effective_now_ms self wall health)")
    (auto dest: effective_now_Inr)

lemma not_established_op: "\<not> established self \<Longrightarrow> \<not> established (fst (clock_op operation self))"
proof -
  assume blocked: "\<not> established self"
  have latch: "\<not> established (fst (latch_unhealthy s reason))" if "\<not> established s" for s reason
    using that by (auto simp: latch_unhealthy_def advance_generation_def case_prod_unfold Let_def split: option.splits sum.splits)
  have now: "\<not> established (fst (effective_now_ms s wall health))" if "\<not> established s" for s wall health
    using that latch by (auto simp: effective_now_ms_def case_prod_unfold Let_def split: option.splits)
  have validate: "\<not> established (fst (validate_raft_leadership_term s t))" if "\<not> established s" for s t
    using that latch by (auto simp: validate_raft_leadership_term_def case_prod_unfold Let_def)
  have committed: "\<not> established (observe_committed_timestamp_high_water s h)" if "\<not> established s" for s h
    using that by (simp add: observe_committed_timestamp_high_water_def split: option.split)
  show ?thesis using blocked
    by (cases operation)
      (auto simp: case_prod_unfold Let_def now latch validate committed fail_closed_after_checkpoint_persistence_failure_def
        advance_generation_past_lease_horizon_def resume_single_authority_lease_horizon_generation_def
        bind_initial_raft_leadership_term_def observe_status_def split: option.splits sum.splits)
qed

interpretation clock: fail_closed clock_op established "\<lambda>r. r \<noteq> None"
proof unfold_locales
  fix s :: ControlPlaneAuthorityClock and operation assume "\<not> established s"
  moreover from this have "snd (clock_op operation s) = None"
    using blocked_now by (cases operation) (simp_all add: case_prod_unfold Let_def)
  ultimately show "\<not> established (fst (clock_op operation s)) \<and> \<not> snd (clock_op operation s) \<noteq> None"
    using not_established_op by blast
qed

text \<open>
  The clock fails closed: in any sequence of operations without \<open>reestablish\<close>, once the clock is blocked
  it stays blocked, so the clock was established before each operation up to any that issues a timestamp.
\<close>

theorem blocked_clock_issues_nothing:
  assumes "j < length operations" and "snd (run_steps clock_op operations c) ! j = Some t" and "i \<le> j"
  shows "established (fst (run_steps clock_op (take i operations) c))"
  using clock.accepted_open [OF assms(1) _ assms(3)] assms(2) by blast

theorem blocked_clock_issues_nothing_witness:
  "snd (run_steps clock_op [Committed None, Now 10100 (Some 600)] clock0) ! 1 = Some 10100 \<and>
     established (fst (run_steps clock_op [Committed None] clock0))"
proof -
  have run: "snd (run_steps clock_op [Committed None, Now 10100 (Some 600)] clock0) ! 1 = Some 10100"
    by (simp add: observe_committed_timestamp_high_water_def now0)
  with blocked_clock_issues_nothing [OF _ run, of 1] show ?thesis by simp
qed

section \<open>Authority identities\<close>

text \<open>
  A clock that was blocked comes back under a new identity: if the clock has a lease-horizon binding,
  is blocked at some later moment and has a binding again after that, the two bindings differ. So the
  rebinding fence of the lease horizon applies whenever the clock was re-established.
\<close>

theorem reestablished_clock_rebinds:
  assumes "lease_horizon_authority_binding c term = Inr b" and "clock_steps c blocked" and "\<not> established blocked"
    and "clock_steps blocked c'" and "lease_horizon_authority_binding c' term' = Inr b'"
  shows "b \<noteq> b' \<and> clock_generation b < clock_generation b'"
proof -
  have "established c" "clock_generation b = generation c" "clock_generation b' = generation c'" "established c'"
    using assms(1,5) by (auto simp: lease_horizon_authority_binding_def LeaseHorizonAuthorityBinding_checked_new_def split: if_splits)
  moreover have "unat (generation c) < unat (generation c')"
    using clock_steps_rel [OF assms(2)] clock_steps_rel [OF assms(4)] assms(3) calculation by (auto simp: clock_rel_def)
  ultimately show ?thesis by (auto simp: word_less_nat_alt)
qed

definition blocked0 :: ControlPlaneAuthorityClock where
  "blocked0 = clock0\<lparr>established := False, generation := 2, blocked_reason := Some CheckpointPersistenceFailure\<rparr>"

definition back0 :: ControlPlaneAuthorityClock where
  "back0 = blocked0\<lparr>reference_wall_ms := 20000, reference_clock_health_ms := 900, initial_raft_term_binding_available := False,
     established := True, generation := 3, blocked_reason := None\<rparr>"

lemma block0: "clock_step clock0 blocked0" "clock_step blocked0 back0"
proof -
  have "fst (clock_op PersistenceFailure clock0) = blocked0"
    by (simp add: fail_closed_after_checkpoint_persistence_failure_def latch_unhealthy_def advance_generation_def
        checked_add_def clock0_def blocked0_def)
  then show "clock_step clock0 blocked0" using Operation [of clock0 PersistenceFailure] by simp
  let ?ctxt = "\<lparr>context_committed_timestamp_high_water_ms = None, current_raft_leadership_term = None,
    local_raft_authority_leader = False, local_raft_authority_serving = False\<rparr>"
  have "fst (reestablish blocked0 2 None None ?ctxt 20000 (Some 900)) = back0"
    by (simp add: reestablish_def checked_add_def clock0_def blocked0_def back0_def Let_def)
  then show "clock_step blocked0 back0" using Reestablish [of blocked0 2 None None ?ctxt 20000 "Some 900"] by simp
qed

theorem reestablished_clock_rebinds_witness:
  "\<exists>b b'. lease_horizon_authority_binding clock0 None = Inr b \<and> lease_horizon_authority_binding back0 None = Inr b' \<and> b \<noteq> b'"
proof -
  let ?b = "\<lparr>clock_generation = 1, raft_term = None\<rparr>" and ?b' = "\<lparr>clock_generation = 3, raft_term = None\<rparr>"
  have b: "lease_horizon_authority_binding clock0 None = Inr ?b" "lease_horizon_authority_binding back0 None = Inr ?b'"
    by (simp_all add: lease_horizon_authority_binding_def LeaseHorizonAuthorityBinding_checked_new_def clock0_def blocked0_def back0_def)
  have "\<not> established blocked0" by (simp add: blocked0_def)
  from reestablished_clock_rebinds [OF b(1) _ this _ b(2)] block0 b show ?thesis by blast
qed

text \<open>
  Every clock made by the constructor and moved by any operations is consistent: it is established
  exactly when it has no blocked reason, and its generation is not zero.
\<close>

theorem clock_consistent:
  assumes "new_internal committed wall health checkpoint allow = Inr c" and "clock_steps c c'"
  shows "established c' = (blocked_reason c' = None) \<and> generation c' \<noteq> 0"
proof -
  have "clock_ok c"
    using assms(1) by (auto simp: new_internal_def clock_ok_def Let_def split: if_splits option.splits)
  with clock_steps_rel [OF assms(2)] show ?thesis by (simp add: clock_rel_def clock_ok_def)
qed

theorem clock_consistent_witness: "established back0 = (blocked_reason back0 = None) \<and> generation back0 \<noteq> 0"
  using clock_consistent [OF clock0_new, of back0] block0 by (meson converse_rtranclp_into_rtranclp rtranclp.rtrancl_refl)

text \<open>
  C18. A production clock that starts from a committed timestamp is established only by a checkpoint: the
  wall clock is not behind the committed time, and since the checkpoint it has moved with the health clock,
  up to the skew budget.
\<close>

theorem restart_needs_continuity:
  assumes "new_from_process_clock_with_restart_checkpoint (Inr (wall, health)) (Some committed) checkpoint = Inr c"
    and "established c"
  shows "\<exists>cp h. checkpoint = Some cp \<and> health = Some h \<and> committed \<le> wall \<and> wall_time_ms cp \<le> wall \<and> health_time_ms cp \<le> h \<and>
    \<bar>(uint wall - uint (wall_time_ms cp)) - (uint h - uint (health_time_ms cp))\<bar> \<le> 1000 \<and> generation c = authority_generation cp"
proof -
  obtain h where h: "health = Some h"
    using assms(1) by (auto simp: new_from_process_clock_with_restart_checkpoint_def new_internal_def split: if_splits)
  obtain cp where cp: "checkpoint = Some cp"
    using assms h by (cases checkpoint) (auto simp: new_from_process_clock_with_restart_checkpoint_def new_internal_def Let_def)
  have "restart_continuous cp committed wall h" "generation c = authority_generation cp"
    using assms h cp by (auto simp: new_from_process_clock_with_restart_checkpoint_def new_internal_def Let_def split: if_splits)
  with h cp show ?thesis
    by (auto simp: restart_continuous_def checked_sub_def uint_sub_le abs_diff_le_int CONTROL_PLANE_CLOCK_SKEW_BUDGET_MS_def
        split: option.splits if_splits)
qed

theorem restart_needs_continuity_witness:
  "\<exists>c cp. new_from_process_clock_with_restart_checkpoint (Inr (10000, Some 700)) (Some 9000) (Some cp) = Inr c \<and>
     established c \<and> wall_time_ms cp \<le> 10000 \<and> generation c = authority_generation cp"
proof -
  let ?cp = "\<lparr>binding = [], authority_generation = 7, committed_timestamp_high_water_ms = Some 8000, wall_time_ms = 9500, health_time_ms = 200\<rparr>"
  obtain c where c: "new_from_process_clock_with_restart_checkpoint (Inr (10000, Some 700)) (Some 9000) (Some ?cp) = Inr c" "established c"
    by (simp add: new_from_process_clock_with_restart_checkpoint_def new_internal_def restart_continuous_def checked_sub_def
        abs_diff_def CONTROL_PLANE_CLOCK_SKEW_BUDGET_MS_def)
  from restart_needs_continuity [OF c] c show ?thesis by blast
qed

text \<open>
  C19. At the last generation the latch does not close: with the generation at the largest 64-bit value, a
  failed checkpoint write returns an overflow error and leaves the clock established, although the function
  is there to make the clock fail closed.
\<close>

theorem latch_overflow_stays_open:
  assumes "generation c = - 1" and "established c"
  shows "fail_closed_after_checkpoint_persistence_failure c = (c, Inl AuthorityClockGenerationOverflow)"
  using assms
  by (simp add: fail_closed_after_checkpoint_persistence_failure_def latch_unhealthy_def advance_generation_def checked_add_def
      unsigned_minus_1_eq_mask mask_eq_exp_minus_1)

theorem latch_overflow_stays_open_witness:
  "fail_closed_after_checkpoint_persistence_failure (clock0\<lparr>generation := - 1\<rparr>) =
     (clock0\<lparr>generation := - 1\<rparr>, Inl AuthorityClockGenerationOverflow)"
  using latch_overflow_stays_open [of "clock0\<lparr>generation := - 1\<rparr>"] by (simp add: clock0_def)

end
