(* ===== verification/Checkpoint_Properties.thy ===== *)
theory Checkpoint_Properties
  imports Authority_Clock Crc_Properties
begin

text \<open>
  The binary format of the restart checkpoint: decoding accepts exactly the encodings of well-formed
  checkpoints, and a short burst of damaged bytes is always found.
\<close>

lemma magic_bytes: "CONTROL_PLANE_CLOCK_CHECKPOINT_MAGIC = [65, 82, 71, 67, 80, 67, 76, 75]"
  by (simp add: CONTROL_PLANE_CLOCK_CHECKPOINT_MAGIC_def string_bytes_def)

lemma length_magic [simp]: "length CONTROL_PLANE_CLOCK_CHECKPOINT_MAGIC = 8"
  by (simp add: magic_bytes)

lemma to_be_bytes_inject: "8 dvd LENGTH('a) \<Longrightarrow> to_be_bytes x = to_be_bytes y \<longleftrightarrow> x = (y :: 'a::len word)"
  by (metis from_be_to_be_bytes)

definition high_water_bytes :: "u64 option \<Rightarrow> bytes" where
  "high_water_bytes h = (case h of Some timestamp_ms \<Rightarrow> [1] @ to_be_bytes timestamp_ms | None \<Rightarrow> [0] @ to_be_bytes (0 :: u64))"

lemma decode_high_water_Inr:
  assumes "length ts = 8"
  shows "decode_high_water tag (from_be_bytes ts) = Inr h \<longleftrightarrow> tag # ts = high_water_bytes h"
proof -
  have inv: "(from_be_bytes ts :: u64) = x \<longleftrightarrow> ts = to_be_bytes x" for x
    using assms to_be_from_be_bytes [of ts, where 'a = 64] by auto
  show ?thesis
    by (auto simp: decode_high_water_def invalid_checkpoint_def high_water_bytes_def inv to_be_bytes_inject split: option.splits)
qed

text \<open>The body as the concatenation of its fields.\<close>

lemma body_fields:
  assumes "length body = 75"
  shows "body = take 8 body @ take 2 (drop 8 body) @ take 32 (drop 10 body) @ take 8 (drop 42 body) @
    take 1 (drop 50 body) @ take 8 (drop 51 body) @ take 8 (drop 59 body) @ take 8 (drop 67 body)"
proof -
  have "take n (drop k body) @ drop (k + n) body = drop k body" for n k
    by (metis add.commute append_take_drop_id drop_drop)
  from this [of 8 67] this [of 8 59] this [of 8 51] this [of 1 50] this [of 8 42] this [of 32 10] this [of 2 8] this [of 8 0]
  show ?thesis using assms by simp
qed

text \<open>What an accepted body says about its fields.\<close>

definition body_says :: "bytes \<Rightarrow> RestartCheckpoint \<Rightarrow> bool" where
  "body_says body c \<longleftrightarrow>
     take 8 body = CONTROL_PLANE_CLOCK_CHECKPOINT_MAGIC \<and>
     take 2 (drop 8 body) = to_be_bytes CONTROL_PLANE_CLOCK_CHECKPOINT_VERSION \<and>
     take 32 (drop 10 body) = binding c \<and>
     take 8 (drop 42 body) = to_be_bytes (authority_generation c) \<and>
     take 1 (drop 50 body) @ take 8 (drop 51 body) = high_water_bytes (committed_timestamp_high_water_ms c) \<and>
     take 8 (drop 59 body) = to_be_bytes (wall_time_ms c) \<and>
     take 8 (drop 67 body) = to_be_bytes (health_time_ms c)"

lemma length_high_water_bytes [simp]: "length (high_water_bytes h) = 9"
  by (simp add: high_water_bytes_def split: option.split)

lemma checkpoint_body_eq:
  "checkpoint_body c = CONTROL_PLANE_CLOCK_CHECKPOINT_MAGIC @ to_be_bytes CONTROL_PLANE_CLOCK_CHECKPOINT_VERSION @ binding c @
     to_be_bytes (authority_generation c) @ high_water_bytes (committed_timestamp_high_water_ms c) @
     to_be_bytes (wall_time_ms c) @ to_be_bytes (health_time_ms c)"
  by (simp add: checkpoint_body_def high_water_bytes_def)

lemma body_says_iff:
  assumes "length body = 75" and "length (binding c) = 32"
  shows "body_says body c \<longleftrightarrow> body = checkpoint_body c"
proof
  assume "body_says body c"
  with body_fields [OF assms(1)] show "body = checkpoint_body c"
    unfolding body_says_def checkpoint_body_eq by (metis append.assoc)
next
  assume "body = checkpoint_body c"
  then show "body_says body c"
    using assms(2) by (simp add: body_says_def checkpoint_body_eq)
qed

lemma decode_body:
  assumes len: "length bs = 83" and crc: "crc64_checksum (take 75 bs) = from_be_bytes (drop 75 bs)"
  shows "decode_classified bs b = Inr c \<longleftrightarrow>
    body_says (take 75 bs) c \<and> binding c = b \<and> authority_generation c \<noteq> 0"
proof -
  let ?body = "take 75 bs"
  have field: "take_field ?body k n = Inr (take n (drop k ?body), k + n)" if "k + n \<le> 75" for k n
    using that len by (simp add: take_field_def)
  have be: "from_be_bytes xs = x \<longleftrightarrow> xs = to_be_bytes x" if "8 * length xs = LENGTH('a)" for xs and x :: "'a::len word"
    using that to_be_from_be_bytes [of xs, where 'a = 'a] by (metis dvd_triv_left from_be_to_be_bytes)
  have tag: "take (Suc 0) (drop 50 ?body) = [bs ! 50]"
    using len by (simp add: take_Suc_conv_app_nth)
  have hw: "decode_high_water (bs ! 50) (from_be_bytes (take 8 (drop 51 ?body))) = Inr h \<longleftrightarrow>
      take (Suc 0) (drop 50 ?body) @ take 8 (drop 51 ?body) = high_water_bytes h" for h
    using decode_high_water_Inr [of "take 8 (drop 51 ?body)" "bs ! 50" h] len by (simp add: tag)
  show ?thesis
    using len crc
    by (cases c)
      (auto simp: decode_classified_def CONTROL_PLANE_CLOCK_CHECKPOINT_LEN_def CONTROL_PLANE_CLOCK_CHECKPOINT_CHECKSUM_LEN_def
        CONTROL_PLANE_CLOCK_CHECKPOINT_BINDING_LEN_def field Let_def invalid_checkpoint_def body_says_def be hw to_be_bytes_inject
        split: if_splits)
qed

lemma checkpoint_body_length: "length (binding c) = 32 \<Longrightarrow> length (checkpoint_body c) = 75"
  by (simp add: checkpoint_body_eq)

lemma decode_Inr_length:
  "decode_classified bs b = Inr c \<Longrightarrow> length bs = 83 \<and> crc64_checksum (take 75 bs) = from_be_bytes (drop 75 bs)"
  by (auto simp: decode_classified_def CONTROL_PLANE_CLOCK_CHECKPOINT_LEN_def CONTROL_PLANE_CLOCK_CHECKPOINT_CHECKSUM_LEN_def
      invalid_checkpoint_def Let_def split: if_splits)

lemma decode_iff:
  "decode_classified bs b = Inr c \<longleftrightarrow>
     bs = RestartCheckpoint_encode c \<and> binding c = b \<and> length b = 32 \<and> authority_generation c \<noteq> 0"
proof
  assume dec: "decode_classified bs b = Inr c"
  then have len: "length bs = 83" and crc: "crc64_checksum (take 75 bs) = from_be_bytes (drop 75 bs)"
    using decode_Inr_length by blast+
  from decode_body [OF this] dec have says: "body_says (take 75 bs) c" "binding c = b" "authority_generation c \<noteq> 0" by blast+
  have b: "length (binding c) = 32" using says(1) len by (auto simp: body_says_def dest: sym)
  have "take 75 bs = checkpoint_body c" using body_says_iff [of "take 75 bs" c] says b len by simp
  moreover have "drop 75 bs = to_be_bytes (crc64_checksum (take 75 bs))"
    using crc to_be_from_be_bytes [of "drop 75 bs", where 'a = 64] len by simp
  ultimately have "bs = RestartCheckpoint_encode c"
    unfolding RestartCheckpoint_encode_def by (metis append_take_drop_id)
  with says b show "bs = RestartCheckpoint_encode c \<and> binding c = b \<and> length b = 32 \<and> authority_generation c \<noteq> 0" by simp
next
  assume "bs = RestartCheckpoint_encode c \<and> binding c = b \<and> length b = 32 \<and> authority_generation c \<noteq> 0"
  then have b: "length (binding c) = 32" and rest: "binding c = b" "authority_generation c \<noteq> 0" and bs: "bs = RestartCheckpoint_encode c" by auto
  have "length bs = 83" "take 75 bs = checkpoint_body c" "drop 75 bs = to_be_bytes (crc64_checksum (checkpoint_body c))"
    using checkpoint_body_length [OF b] by (simp_all add: bs RestartCheckpoint_encode_def)
  with decode_body [of bs b c] body_says_iff [of "checkpoint_body c" c] b rest checkpoint_body_length [OF b]
  show "decode_classified bs b = Inr c" by simp
qed

text \<open>
  C15. Decoding a restart checkpoint accepts exactly the encodings of checkpoints of this authority with a
  non-zero generation, and gives the encoded checkpoint back: the format round-trips and has one encoding
  for each checkpoint.
\<close>

theorem checkpoint_round_trip:
  "decode_classified bs b = Inr c \<longleftrightarrow>
     bs = RestartCheckpoint_encode c \<and> binding c = b \<and> length b = 32 \<and> authority_generation c \<noteq> 0"
  by (rule decode_iff)

lemma decode_mismatch:
  assumes "length bs = 83" and "crc64_checksum (take 75 bs) \<noteq> from_be_bytes (drop 75 bs)"
  shows "decode_classified bs b = Inl (Invalid (AuthorityClockCheckpoint ''checkpoint checksum mismatch''))"
  using assms by (simp add: decode_classified_def CONTROL_PLANE_CLOCK_CHECKPOINT_LEN_def
      CONTROL_PLANE_CLOCK_CHECKPOINT_CHECKSUM_LEN_def invalid_checkpoint_def Let_def)

definition sample_checkpoint :: RestartCheckpoint where
  "sample_checkpoint = \<lparr>binding = replicate 32 7, authority_generation = 1, committed_timestamp_high_water_ms = None,
     wall_time_ms = 5, health_time_ms = 6\<rparr>"

lemma split_at_body:
  assumes "length p + length xs \<le> 75" and "length (p @ xs @ q) = 83"
  shows "take 75 (p @ xs @ q) = p @ xs @ take (75 - length p - length xs) q"
    and "drop 75 (p @ xs @ q) = drop (75 - length p - length xs) q"
  using assms by simp_all

text \<open>
  A checkpoint with up to eight consecutive damaged bytes in its body is rejected for its checksum.
\<close>

theorem damaged_checkpoint_rejected:
  assumes "RestartCheckpoint_encode c = p @ xs @ q" and "length (binding c) = 32" and "length ys = length xs" and "ys \<noteq> xs"
    and "length xs \<le> 8" and "length p + length xs \<le> 75"
  shows "decode_classified (p @ ys @ q) b = Inl (Invalid (AuthorityClockCheckpoint ''checkpoint checksum mismatch''))"
proof -
  have enc: "length (p @ xs @ q) = 83" "from_be_bytes (drop 75 (p @ xs @ q)) = crc64_checksum (take 75 (p @ xs @ q))"
    using checkpoint_body_length [OF assms(2)]
    by (simp_all add: assms(1) [symmetric] RestartCheckpoint_encode_def from_be_to_be_bytes)
  have "crc64_checksum (take 75 (p @ ys @ q)) \<noteq> crc64_checksum (take 75 (p @ xs @ q))"
    using split_at_body(1) [of p xs q] split_at_body(1) [of p ys q] assms(3-6) enc(1)
      burst_reference [of CRC64_POLY ys xs p] by (simp add: slicing_crc CRC64_POLY_def)
  then have "crc64_checksum (take 75 (p @ ys @ q)) \<noteq> from_be_bytes (drop 75 (p @ ys @ q))"
    using split_at_body(2) [of p xs q] split_at_body(2) [of p ys q] assms(3,6) enc by simp
  moreover have "length (p @ ys @ q) = 83" using enc(1) assms(3) by simp
  ultimately show ?thesis by (rule decode_mismatch [rotated])
qed

theorem damaged_checkpoint_rejected_witness:
  "\<exists>q. RestartCheckpoint_encode sample_checkpoint = [65, 82] @ [71] @ q \<and>
     decode_classified ([65, 82] @ [0] @ q) (replicate 32 7) =
       Inl (Invalid (AuthorityClockCheckpoint ''checkpoint checksum mismatch''))"
proof -
  let ?q = "drop 3 (RestartCheckpoint_encode sample_checkpoint)"
  have "RestartCheckpoint_encode sample_checkpoint = [65, 82] @ [71] @ ?q"
    by (simp add: RestartCheckpoint_encode_def checkpoint_body_eq magic_bytes)
  with damaged_checkpoint_rejected [of sample_checkpoint "[65, 82]" "[71]" ?q "[0]"] show ?thesis
    by (auto simp: sample_checkpoint_def)
qed

end
