(* ===== verification/Durable_Journal.thy ===== *)
theory Durable_Journal
  imports Crc Control_Plane_Error
begin

text \<open>
  The append-only journal file of the control plane (\<^verbatim>\<open>crates/storage/src/durable_journal.rs\<close>). The file
  is its contents, \<open>None\<close> when it does not exist; the outcome of every system call of an operation is an
  argument, so that each error path of the code is a branch. The I/O lock makes operations atomic towards
  each other, and the observer only records timings. Lengths and positions in a buffer are natural numbers;
  \<open>usize\<close> has 64 bits.
\<close>

definition FRAME_LENGTH_LEN :: nat where "FRAME_LENGTH_LEN = 4"
definition FRAME_PREFIX_LEN :: nat where "FRAME_PREFIX_LEN = FRAME_LENGTH_LEN * 2"
definition CHECKSUM_LEN :: nat where "CHECKSUM_LEN = 8"

lemmas journal_lengths = FRAME_LENGTH_LEN_def FRAME_PREFIX_LEN_def CHECKSUM_LEN_def

datatype DurableJournalFileHeaderFormatError =
    Truncated
  | ChecksumMismatch u64 u64
  | UnknownMagic
  | UnsupportedVersion u16

record DurableJournalFormat =
  file_magic :: bytes
  file_version :: u16
  label :: string

definition header_len :: "DurableJournalFormat \<Rightarrow> nat" where
  "header_len self = length (file_magic self) + 2 + 8 + CHECKSUM_LEN"

record DurableJournalIoContexts =
  create_directory :: string
  open_for_append :: string
  write_frame_length :: string
  write_frame :: string
  sync_file :: string
  stat_for_status :: string
  open_for_replay :: string
  read_for_replay :: string
  open_for_tail_truncation :: string
  truncate_torn_tail :: string
  sync_truncated_tail :: string
  read_for_compaction :: string
  create_compacted_temp :: string
  write_compacted_temp :: string
  sync_compacted_temp :: string
  commit_compacted :: string
  stat_before_append :: string
  write_file_header :: string
  open_file_header :: string
  read_file_header :: string

datatype DurableJournalAppendError =
    BeforeReplayableRecord ControlPlaneError
  | AmbiguousRecordMayExist ControlPlaneError
  | ReplayableRecordMayExist ControlPlaneError

record DurableJournalOffsets =
  offsets_base_offset :: u64
  offsets_clean_len :: u64

record DurableJournalFrames =
  journal_frames :: "bytes list"
  journal_clean_len :: u64
  journal_truncated_tail :: bool

record DurableJournalFile =
  format :: DurableJournalFormat
  contexts :: DurableJournalIoContexts

text \<open>
  The outcome of the system calls of one operation. A write that fails has first written some number of the
  bytes. \<open>parent\<close> says whether the path has a parent directory to create.
\<close>

record JournalIo =
  parent :: bool
  create_dir_ok :: bool
  open_ok :: bool
  stat_ok :: bool
  open_header_ok :: bool
  read_header_ok :: bool
  header_write_fails :: "nat option"
  prefix_write_fails :: "nat option"
  frame_write_fails :: "nat option"
  open_replay_ok :: bool
  read_ok :: bool
  open_truncate_ok :: bool
  set_len_ok :: bool
  truncate_sync_ok :: bool
  file_sync :: "(ControlPlaneError, unit) result"
  temp_create_ok :: bool
  temp_write_ok :: bool
  temp_sync_ok :: bool
  rename_ok :: bool
  sync_parent :: "(ControlPlaneError, unit) result"

type_synonym journal_file = "bytes option"

definition check_io :: "bool \<Rightarrow> string \<Rightarrow> (ControlPlaneError, unit) result" where
  "check_io ok context = (if ok then Inr () else Inl (Io context))"

fun map_err :: "('e \<Rightarrow> 'f) \<Rightarrow> ('e, 'a) result \<Rightarrow> ('f, 'a) result" where
  "map_err f (Inl e) = Inl (f e)"
| "map_err f (Inr x) = Inr x"

lemma map_err_Inr_iff [simp]: "map_err f r = Inr x \<longleftrightarrow> r = Inr x"
  by (cases r) auto

lemma map_err_Inl_iff [simp]: "map_err f r = Inl e \<longleftrightarrow> (\<exists>e'. r = Inl e' \<and> e = f e')"
  by (cases r) auto

lemma check_io_Inr_iff [simp]: "check_io ok context = Inr u \<longleftrightarrow> ok"
  by (simp add: check_io_def)

lemma check_io_Inl_iff [simp]: "check_io ok context = Inl e \<longleftrightarrow> \<not> ok \<and> e = Io context"
  by (auto simp: check_io_def)

definition protocol_error :: "string \<Rightarrow> ControlPlaneError" where
  "protocol_error message = CommandDecode message"

section \<open>The file header\<close>

definition encode_file_header :: "DurableJournalFormat \<Rightarrow> u64 \<Rightarrow> bytes" where
  "encode_file_header fmt base_offset =
     (let out = file_magic fmt @ to_be_bytes (file_version fmt) @ to_be_bytes base_offset;
          checksum = crc64_checksum out
      in out @ to_be_bytes checksum)"

definition decode_file_header_classified ::
  "DurableJournalFormat \<Rightarrow> bytes \<Rightarrow> (DurableJournalFileHeaderFormatError, u64 \<times> nat) result" where
  "decode_file_header_classified fmt bs =
     (if bs = [] then Inr (0, header_len fmt)
      else if length bs < header_len fmt then Inl Truncated
      else
        let header = take (header_len fmt - CHECKSUM_LEN) bs;
            checksum_bytes = drop (header_len fmt - CHECKSUM_LEN) (take (header_len fmt) bs);
            expected_checksum = from_be_bytes checksum_bytes;
            actual_checksum = crc64_checksum header;
            version_start = length (file_magic fmt);
            version = from_be_bytes (take 2 (drop version_start header));
            offset_start = version_start + 2
        in if actual_checksum \<noteq> expected_checksum then Inl (ChecksumMismatch expected_checksum actual_checksum)
           else if take version_start header \<noteq> file_magic fmt then Inl UnknownMagic
           else if version \<noteq> file_version fmt then Inl (UnsupportedVersion version)
           else Inr (from_be_bytes (take 8 (drop offset_start header)), header_len fmt))"

fun file_header_format_error ::
  "DurableJournalFormat \<Rightarrow> DurableJournalFileHeaderFormatError \<Rightarrow> ControlPlaneError" where
  "file_header_format_error fmt Truncated = protocol_error (''truncated '' @ label fmt @ '' file header'')"
| "file_header_format_error fmt (ChecksumMismatch expected actual) =
     protocol_error (label fmt @ '' file header checksum mismatch: expected 0x'' @ hex_of_nat (unat expected) @
       '', actual 0x'' @ hex_of_nat (unat actual))"
| "file_header_format_error fmt UnknownMagic = protocol_error (''invalid '' @ label fmt @ '' file header magic'')"
| "file_header_format_error fmt (UnsupportedVersion version) =
     protocol_error (''unsupported '' @ label fmt @ '' file header version '' @ dec_of_nat (unat version))"

definition decode_file_header :: "DurableJournalFormat \<Rightarrow> bytes \<Rightarrow> (ControlPlaneError, u64 \<times> nat) result" where
  "decode_file_header fmt bs = map_err (file_header_format_error fmt) (decode_file_header_classified fmt bs)"

definition encode_file_bytes :: "DurableJournalFormat \<Rightarrow> u64 \<Rightarrow> bytes \<Rightarrow> bytes" where
  "encode_file_bytes fmt base_offset frames = encode_file_header fmt base_offset @ frames"

definition read_file_base_offset_unlocked ::
  "DurableJournalFile \<Rightarrow> JournalIo \<Rightarrow> journal_file \<Rightarrow> (ControlPlaneError, u64) result" where
  "read_file_base_offset_unlocked self io file =
     (case file of
        None \<Rightarrow> Inl (Io (open_file_header (contexts self)))
      | Some contents \<Rightarrow>
          and_then (check_io (open_header_ok io) (open_file_header (contexts self))) (\<lambda>_.
          and_then (check_io (read_header_ok io) (read_file_header (contexts self))) (\<lambda>_.
          and_then (decode_file_header (format self) (take (header_len (format self)) contents)) (\<lambda>(base, _).
          Inr base))))"

section \<open>Appending\<close>

definition framed_len :: "nat \<Rightarrow> u64" where
  "framed_len frame_len = (let n = min (frame_len + FRAME_PREFIX_LEN) (2 ^ 64 - 1) in of_nat n)"

definition write_replayable_bytes ::
  "nat option \<Rightarrow> bytes \<Rightarrow> bytes \<Rightarrow> string \<Rightarrow> bytes \<times> (DurableJournalAppendError, unit) result" where
  "write_replayable_bytes fails contents bs context =
     (case fails of
        None \<Rightarrow> (contents @ bs, Inr ())
      | Some n \<Rightarrow> (contents @ take n bs, Inl (AmbiguousRecordMayExist (Io context))))"

definition ensure_file_header ::
  "DurableJournalFile \<Rightarrow> JournalIo \<Rightarrow> bytes \<Rightarrow> bytes \<times> (DurableJournalAppendError, unit) result" where
  "ensure_file_header self io contents =
     (if \<not> stat_ok io then (contents, Inl (BeforeReplayableRecord (Io (stat_before_append (contexts self)))))
      else if length contents \<noteq> 0
      then (contents, and_then (map_err BeforeReplayableRecord (read_file_base_offset_unlocked self io (Some contents)))
             (\<lambda>_. Inr ()))
      else write_replayable_bytes (header_write_fails io) contents (encode_file_header (format self) 0)
             (write_file_header (contexts self)))"

definition frame_prefix :: "u32 \<Rightarrow> bytes" where
  "frame_prefix frame_len = to_be_bytes frame_len @ to_be_bytes (NOT frame_len)"

definition append_to_file ::
  "DurableJournalFile \<Rightarrow> JournalIo \<Rightarrow> bytes \<Rightarrow> bytes \<Rightarrow> bytes \<times> (DurableJournalAppendError, unit) result" where
  "append_to_file self io frame contents =
     (case ensure_file_header self io contents of
        (contents, Inl e) \<Rightarrow> (contents, Inl e)
      | (contents, Inr _) \<Rightarrow>
     (case write_replayable_bytes (prefix_write_fails io) contents (frame_prefix (of_nat (length frame)))
             (write_frame_length (contexts self)) of
        (contents, Inl e) \<Rightarrow> (contents, Inl e)
      | (contents, Inr _) \<Rightarrow>
     (case write_replayable_bytes (frame_write_fails io) contents frame (write_frame (contexts self)) of
        (contents, Inl e) \<Rightarrow> (contents, Inl e)
      | (contents, Inr _) \<Rightarrow>
          (contents,
           and_then (map_err AmbiguousRecordMayExist (file_sync io)) (\<lambda>_.
           map_err ReplayableRecordMayExist (sync_parent io))))))"

definition append_frame_inner ::
  "DurableJournalFile \<Rightarrow> JournalIo \<Rightarrow> bytes \<Rightarrow> journal_file \<Rightarrow> journal_file \<times> (DurableJournalAppendError, unit) result" where
  "append_frame_inner self io frame file =
     (if 2 ^ 32 \<le> length frame
      then (file, Inl (BeforeReplayableRecord (protocol_error (label (format self) @ '' frame length '' @
              dec_of_nat (length frame) @ '' exceeds u32::MAX''))))
      else if length frame = 0
      then (file, Inl (BeforeReplayableRecord (protocol_error (''zero-length '' @ label (format self) @ '' frame''))))
      else if parent io \<and> \<not> create_dir_ok io
      then (file, Inl (BeforeReplayableRecord (Io (create_directory (contexts self)))))
      else if \<not> open_ok io
      then (file, Inl (BeforeReplayableRecord (Io (open_for_append (contexts self)))))
      else let (contents, result) = append_to_file self io frame (case file of None \<Rightarrow> [] | Some contents \<Rightarrow> contents)
           in (Some contents, result))"

definition append_frame ::
  "DurableJournalFile \<Rightarrow> JournalIo \<Rightarrow> bytes \<Rightarrow> journal_file \<Rightarrow> journal_file \<times> (DurableJournalAppendError, unit) result" where
  "append_frame self io frame file = append_frame_inner self io frame file"

fun into_control_plane_error :: "DurableJournalAppendError \<Rightarrow> ControlPlaneError" where
  "into_control_plane_error (BeforeReplayableRecord error) = error"
| "into_control_plane_error (AmbiguousRecordMayExist error) = error"
| "into_control_plane_error (ReplayableRecordMayExist error) = error"

section \<open>Status and replay\<close>

definition status_offsets ::
  "DurableJournalFile \<Rightarrow> JournalIo \<Rightarrow> journal_file \<Rightarrow> (ControlPlaneError, DurableJournalOffsets) result" where
  "status_offsets self io file =
     (case file of
        None \<Rightarrow> Inr \<lparr>offsets_base_offset = 0, offsets_clean_len = 0\<rparr>
      | Some contents \<Rightarrow>
          and_then (check_io (stat_ok io) (stat_for_status (contexts self))) (\<lambda>_.
          if length contents = 0 then Inr \<lparr>offsets_base_offset = 0, offsets_clean_len = 0\<rparr>
          else
            and_then (read_file_base_offset_unlocked self io file) (\<lambda>base_offset.
            if length contents < header_len (format self)
            then Inl (protocol_error (''truncated '' @ label (format self) @ '' file header''))
            else
              and_then (ok_or (checked_add base_offset (of_nat (length contents - header_len (format self))))
                (protocol_error (label (format self) @ '' status length overflows''))) (\<lambda>clean_len.
              Inr \<lparr>offsets_base_offset = base_offset, offsets_clean_len = clean_len\<rparr>))))"

function read_frames_loop ::
  "DurableJournalFormat \<Rightarrow> u64 \<Rightarrow> bytes \<Rightarrow> nat \<Rightarrow> bytes list \<Rightarrow> u64 \<Rightarrow>
   (ControlPlaneError, DurableJournalFrames) result" where
  "read_frames_loop fmt base_offset bs offset frames clean_len =
     (if length bs \<le> offset
      then Inr \<lparr>journal_frames = frames, journal_clean_len = clean_len, journal_truncated_tail = False\<rparr>
      else
        let logical_frame_start = base_offset + of_nat (offset - header_len fmt) in
        if length bs - offset < FRAME_PREFIX_LEN
        then Inr \<lparr>journal_frames = frames, journal_clean_len = clean_len, journal_truncated_tail = True\<rparr>
        else
          let frame_len = from_be_bytes (take FRAME_LENGTH_LEN (drop offset bs)) :: u32;
              frame_len_check = from_be_bytes (take FRAME_LENGTH_LEN (drop (offset + FRAME_LENGTH_LEN) bs))
          in if frame_len_check \<noteq> NOT frame_len
             then Inl (protocol_error (label fmt @ '' frame length check mismatch''))
             else if frame_len = 0
             then Inl (protocol_error (''zero-length '' @ label fmt @ '' frame''))
             else if length bs - (offset + FRAME_PREFIX_LEN) < unat frame_len
             then Inr \<lparr>journal_frames = frames, journal_clean_len = logical_frame_start, journal_truncated_tail = True\<rparr>
             else
               let frame_end = offset + FRAME_PREFIX_LEN + unat frame_len in
               read_frames_loop fmt base_offset bs frame_end
                 (frames @ [take (unat frame_len) (drop (offset + FRAME_PREFIX_LEN) bs)])
                 (base_offset + of_nat (frame_end - header_len fmt)))"
  by pat_completeness auto
termination
  by (relation "measure (\<lambda>(fmt, base_offset, bs, offset, frames, clean_len). length bs - offset)")
    (auto simp: journal_lengths)

declare read_frames_loop.simps [simp del]

definition read_frames_from_unlocked ::
  "DurableJournalFile \<Rightarrow> JournalIo \<Rightarrow> journal_file \<Rightarrow> u64 \<Rightarrow> (ControlPlaneError, DurableJournalFrames) result" where
  "read_frames_from_unlocked self io file replay_offset =
     (case file of
        None \<Rightarrow>
          if replay_offset \<noteq> 0
          then Inl (protocol_error (label (format self) @ '' replay offset '' @ dec_of_nat (unat replay_offset) @
                 '' has no journal file''))
          else Inr \<lparr>journal_frames = [], journal_clean_len = 0, journal_truncated_tail = False\<rparr>
      | Some bs \<Rightarrow>
          and_then (check_io (open_replay_ok io) (open_for_replay (contexts self))) (\<lambda>_.
          and_then (check_io (read_ok io) (read_for_replay (contexts self))) (\<lambda>_.
          if bs = [] then
            if replay_offset \<noteq> 0
            then Inl (protocol_error (label (format self) @ '' replay offset '' @ dec_of_nat (unat replay_offset) @
                   '' has an empty journal file''))
            else Inr \<lparr>journal_frames = [], journal_clean_len = 0, journal_truncated_tail = False\<rparr>
          else
            and_then (decode_file_header (format self) bs) (\<lambda>(base_offset, header_len).
            if replay_offset < base_offset
            then Inl (protocol_error (label (format self) @ '' replay offset '' @ dec_of_nat (unat replay_offset) @
                   '' is before compacted base offset '' @ dec_of_nat (unat base_offset)))
            else if 2 ^ 64 \<le> header_len + unat (replay_offset - base_offset)
            then Inl (protocol_error (label (format self) @ '' replay offset overflows physical offset''))
            else
              let physical_offset = header_len + unat (replay_offset - base_offset) in
              if length bs < physical_offset
              then Inl (protocol_error (label (format self) @ '' replay offset '' @ dec_of_nat physical_offset @
                     '' exceeds journal length '' @ dec_of_nat (length bs)))
              else read_frames_loop (format self) base_offset bs physical_offset []
                     (base_offset + of_nat (physical_offset - header_len))))))"

definition read_frames_from ::
  "DurableJournalFile \<Rightarrow> JournalIo \<Rightarrow> journal_file \<Rightarrow> u64 \<Rightarrow> (ControlPlaneError, DurableJournalFrames) result" where
  "read_frames_from self io file replay_offset = read_frames_from_unlocked self io file replay_offset"

section \<open>Truncation, compaction and replacement\<close>

text \<open>\<open>File::set_len\<close>: a longer file is cut, a shorter one is filled with zero bytes.\<close>

definition set_len :: "nat \<Rightarrow> bytes \<Rightarrow> bytes" where
  "set_len n contents = take n contents @ replicate (n - length contents) 0"

definition truncate_to_clean_len ::
  "DurableJournalFile \<Rightarrow> JournalIo \<Rightarrow> u64 \<Rightarrow> journal_file \<Rightarrow> journal_file \<times> (ControlPlaneError, unit) result" where
  "truncate_to_clean_len self io clean_len file =
     (case read_file_base_offset_unlocked self io file of
        Inl e \<Rightarrow> (file, Inl e)
      | Inr base_offset \<Rightarrow>
          if clean_len < base_offset
          then (file, Inl (protocol_error (label (format self) @ '' clean length '' @ dec_of_nat (unat clean_len) @
                 '' is before base offset '' @ dec_of_nat (unat base_offset))))
          else if \<not> open_truncate_ok io then (file, Inl (Io (open_for_tail_truncation (contexts self))))
          else
            (case checked_add (of_nat (header_len (format self))) (clean_len - base_offset) of
               None \<Rightarrow> (file, Inl (protocol_error (label (format self) @ '' physical length overflows'')))
             | Some physical_len \<Rightarrow>
                 if \<not> set_len_ok io then (file, Inl (Io (truncate_torn_tail (contexts self))))
                 else (map_option (set_len (unat physical_len)) file,
                       and_then (check_io (truncate_sync_ok io) (sync_truncated_tail (contexts self))) (\<lambda>_.
                       sync_parent io))))"

text \<open>Writing the new contents to a temporary file and renaming it over the journal.\<close>

definition commit_compaction ::
  "DurableJournalFile \<Rightarrow> JournalIo \<Rightarrow> bytes \<Rightarrow> journal_file \<Rightarrow> journal_file \<times> (ControlPlaneError, unit) result" where
  "commit_compaction self io compacted file =
     (if \<not> temp_create_ok io then (file, Inl (Io (create_compacted_temp (contexts self))))
      else if \<not> temp_write_ok io then (file, Inl (Io (write_compacted_temp (contexts self))))
      else if \<not> temp_sync_ok io then (file, Inl (Io (sync_compacted_temp (contexts self))))
      else if \<not> rename_ok io then (file, Inl (Io (commit_compacted (contexts self))))
      else (Some compacted, sync_parent io))"

fun encode_replacement :: "DurableJournalFormat \<Rightarrow> bytes list \<Rightarrow> (ControlPlaneError, bytes) result" where
  "encode_replacement fmt [] = Inr []"
| "encode_replacement fmt (frame # frames) =
     (if 2 ^ 32 \<le> length frame
      then Inl (protocol_error (label fmt @ '' replacement frame length '' @ dec_of_nat (length frame) @
             '' exceeds u32::MAX''))
      else if length frame = 0 then Inl (protocol_error (''zero-length '' @ label fmt @ '' frame''))
      else and_then (encode_replacement fmt frames) (\<lambda>rest.
        Inr (frame_prefix (of_nat (length frame)) @ frame @ rest)))"

definition replace_from_inner ::
  "DurableJournalFile \<Rightarrow> JournalIo \<Rightarrow> u64 \<Rightarrow> u64 \<Rightarrow> bytes list \<Rightarrow> journal_file \<Rightarrow>
   journal_file \<times> (ControlPlaneError, unit) result" where
  "replace_from_inner self io replay_offset expected_clean_len frames file =
     (case (if read_ok io then file else None) of
        None \<Rightarrow> (file, Inl (Io (read_for_compaction (contexts self))))
      | Some bs \<Rightarrow>
          let checks =
            and_then (decode_file_header (format self) bs) (\<lambda>(base_offset, header_len).
            if replay_offset < base_offset
            then Inl (protocol_error (label (format self) @ '' replacement offset '' @ dec_of_nat (unat replay_offset) @
                   '' is before base offset '' @ dec_of_nat (unat base_offset)))
            else if length bs < header_len
            then Inl (protocol_error (''truncated '' @ label (format self) @ '' file header''))
            else
              and_then (ok_or (checked_add base_offset (of_nat (length bs - header_len)))
                (protocol_error (label (format self) @ '' clean length overflows''))) (\<lambda>clean_len.
              if clean_len \<noteq> expected_clean_len
              then Inl (protocol_error (label (format self) @
                     '' changed during checkpoint replacement: expected clean length '' @
                     dec_of_nat (unat expected_clean_len) @ '', actual '' @ dec_of_nat (unat clean_len)))
              else if clean_len < replay_offset
              then Inl (protocol_error (label (format self) @ '' replacement offset '' @ dec_of_nat (unat replay_offset) @
                     '' exceeds clean length '' @ dec_of_nat (unat clean_len)))
              else encode_replacement (format self) frames))
          in case checks of
               Inl e \<Rightarrow> (file, Inl e)
             | Inr replacement \<Rightarrow>
                 commit_compaction self io (encode_file_bytes (format self) replay_offset replacement) file)"

definition replace_from ::
  "DurableJournalFile \<Rightarrow> JournalIo \<Rightarrow> u64 \<Rightarrow> u64 \<Rightarrow> bytes list \<Rightarrow> journal_file \<Rightarrow>
   journal_file \<times> (ControlPlaneError, unit) result" where
  "replace_from self io replay_offset expected_clean_len frames file =
     replace_from_inner self io replay_offset expected_clean_len frames file"

definition compaction_start ::
  "DurableJournalFile \<Rightarrow> u64 \<Rightarrow> bytes \<Rightarrow> (ControlPlaneError, u64 \<times> nat) result" where
  "compaction_start self replay_offset bs =
     and_then (decode_file_header (format self) bs) (\<lambda>(base_offset, header_len).
     if replay_offset < base_offset
     then Inl (protocol_error (label (format self) @ '' compaction offset '' @ dec_of_nat (unat replay_offset) @
            '' is before base offset '' @ dec_of_nat (unat base_offset)))
     else if 2 ^ 64 \<le> header_len + unat (replay_offset - base_offset)
     then Inl (protocol_error (label (format self) @ '' compaction offset overflows''))
     else
       let suffix_start = header_len + unat (replay_offset - base_offset) in
       if length bs < suffix_start
       then Inl (protocol_error (label (format self) @ '' compaction offset '' @ dec_of_nat (unat replay_offset) @
              '' exceeds journal length '' @ dec_of_nat (length bs - header_len) @ '' from base offset '' @
              dec_of_nat (unat base_offset)))
       else Inr (base_offset, suffix_start))"

definition compact_through_inner ::
  "DurableJournalFile \<Rightarrow> JournalIo \<Rightarrow> u64 \<Rightarrow> journal_file \<Rightarrow> journal_file \<times> (ControlPlaneError, unit) result" where
  "compact_through_inner self io replay_offset file =
     (case file of
        None \<Rightarrow>
          (file, if replay_offset = 0 then Inr ()
             else Inl (protocol_error (label (format self) @ '' compaction offset '' @
               dec_of_nat (unat replay_offset) @ '' has no journal file'')))
      | Some bs \<Rightarrow>
          if \<not> read_ok io then (file, Inl (Io (read_for_compaction (contexts self))))
          else if bs = [] then
            (file, if replay_offset = 0 then Inr ()
               else Inl (protocol_error (label (format self) @ '' compaction offset '' @
                 dec_of_nat (unat replay_offset) @ '' has an empty journal file'')))
          else
            (case compaction_start self replay_offset bs of
               Inl e \<Rightarrow> (file, Inl e)
             | Inr (base_offset, suffix_start) \<Rightarrow>
                 if replay_offset = base_offset then (file, Inr ())
                 else commit_compaction self io
                        (encode_file_bytes (format self) replay_offset (drop suffix_start bs)) file))"

definition compact_through ::
  "DurableJournalFile \<Rightarrow> JournalIo \<Rightarrow> u64 \<Rightarrow> journal_file \<Rightarrow> journal_file \<times> (ControlPlaneError, unit) result" where
  "compact_through self io replay_offset file = compact_through_inner self io replay_offset file"

end
