(* ===== verification/Durable_Journal_Properties.thy ===== *)
theory Durable_Journal_Properties
  imports Durable_Journal
begin

text \<open>
  The journal file as a refinement of a base offset with a list of frames: what replay recovers from a file
  that was cut at any byte, what an append leaves behind on every outcome of its system calls, and that
  compaction and replacement change neither the frames nor the offsets a reader sees.
\<close>

section \<open>The contents of a clean journal\<close>

definition framed :: "bytes \<Rightarrow> bytes" where
  "framed frame = frame_prefix (of_nat (length frame)) @ frame"

definition good_frame :: "bytes \<Rightarrow> bool" where
  "good_frame frame \<longleftrightarrow> frame \<noteq> [] \<and> length frame < 2 ^ 32"

definition journal_bytes :: "DurableJournalFormat \<Rightarrow> u64 \<Rightarrow> bytes list \<Rightarrow> bytes" where
  "journal_bytes fmt base fs = encode_file_bytes fmt base (concat (map framed fs))"

definition payload_len :: "bytes list \<Rightarrow> nat" where
  "payload_len fs = length (concat (map framed fs))"

fun whole_frames :: "nat \<Rightarrow> bytes list \<Rightarrow> bytes list" where
  "whole_frames n [] = []"
| "whole_frames n (f # fs) = (if n < length (framed f) then [] else f # whole_frames (n - length (framed f)) fs)"

lemma payload_len_simps [simp]:
  "payload_len [] = 0" "payload_len (f # fs) = length (framed f) + payload_len fs"
  "payload_len (fs @ gs) = payload_len fs + payload_len gs"
  by (simp_all add: payload_len_def)

lemma length_framed: "length (framed f) = 8 + length f"
  by (simp add: framed_def frame_prefix_def)

lemma length_encode_file_header [simp]: "length (encode_file_header fmt base) = header_len fmt"
  by (simp add: encode_file_header_def header_len_def Let_def journal_lengths)

lemma length_journal_bytes: "length (journal_bytes fmt base fs) = header_len fmt + payload_len fs"
  by (simp add: journal_bytes_def encode_file_bytes_def payload_len_def)

lemma header_len_pos: "0 < header_len fmt"
  by (simp add: header_len_def)

lemma decode_encode_header:
  "decode_file_header_classified fmt (encode_file_header fmt base @ rest) = Inr (base, header_len fmt)"
proof -
  let ?out = "file_magic fmt @ to_be_bytes (file_version fmt) @ to_be_bytes base"
  have enc: "encode_file_header fmt base = ?out @ to_be_bytes (crc64_checksum ?out)"
    by (simp add: encode_file_header_def Let_def)
  have len: "header_len fmt = length ?out + 8" by (simp add: header_len_def journal_lengths)
  have ne: "to_be_bytes base \<noteq> []" by (simp flip: length_0_conv)
  show ?thesis
    unfolding decode_file_header_classified_def Let_def enc len
    by (simp add: journal_lengths header_len_def ne)
qed

lemma decode_header_prefix:
  "decode_file_header_classified fmt (take (header_len fmt) bs) = decode_file_header_classified fmt bs"
  if "bs \<noteq> []"
  using that header_len_pos [of fmt]
  by (auto simp: decode_file_header_classified_def Let_def min_def take_drop)

lemma whole_frames_prefix: "\<exists>k. whole_frames n fs = take k fs"
proof (induction fs arbitrary: n)
  case (Cons f fs)
  from Cons.IH [of "n - length (framed f)"] obtain k where "whole_frames (n - length (framed f)) fs = take k fs" by blast
  then show ?case by (cases "n < length (framed f)") (auto intro: exI [of _ 0] exI [of _ "Suc k"])
qed simp

lemma whole_frames_all: "payload_len fs \<le> n \<Longrightarrow> whole_frames n fs = fs"
  by (induction fs arbitrary: n) auto

lemma payload_len_whole_frames: "payload_len (whole_frames n fs) \<le> n"
proof (induction fs arbitrary: n)
  case (Cons f fs)
  from Cons.IH [of "n - length (framed f)"] show ?case by (auto simp: not_less)
qed simp

lemma whole_frames_append_one:
  "payload_len fs \<le> n \<Longrightarrow> whole_frames n (fs @ [f]) = (if n < payload_len fs + length (framed f) then fs else fs @ [f])"
  by (induction fs arbitrary: n) auto

lemma take_whole_frames:
  "take (payload_len (whole_frames n fs)) (concat (map framed fs)) = concat (map framed (whole_frames n fs))"
  by (induction fs arbitrary: n) auto

section \<open>Replay\<close>

lemma of_nat_unat_frame: "good_frame f \<Longrightarrow> unat (of_nat (length f) :: u32) = length f"
  by (simp add: good_frame_def unat_of_nat)

lemma loop_frame:
  assumes "good_frame f" and "drop off bs = framed f @ rest" and "off \<le> length bs"
  shows "read_frames_loop fmt base bs off acc cl =
    read_frames_loop fmt base bs (off + length (framed f)) (acc @ [f]) (base + of_nat (off + length (framed f) - header_len fmt))"
proof -
  have len: "length bs = off + length (framed f) + length rest"
    using arg_cong [OF assms(2), of length] assms(3) by simp
  have pre: "take 4 (drop off bs) = to_be_bytes (of_nat (length f) :: u32)"
    "take 4 (drop (off + 4) bs) = to_be_bytes (NOT (of_nat (length f) :: u32))"
    "drop (off + 8) bs = f @ rest"
    using assms(2) by (simp_all add: drop_drop [symmetric] add.commute [of off] framed_def frame_prefix_def del: drop_drop)
  have nz: "(of_nat (length f) :: u32) \<noteq> 0"
    using assms(1) of_nat_unat_frame [OF assms(1)] by (auto simp: good_frame_def)
  show ?thesis
    by (subst read_frames_loop.simps)
      (use len pre nz of_nat_unat_frame [OF assms(1)] assms(1) in
        \<open>simp add: journal_lengths Let_def length_framed good_frame_def add.assoc\<close>)
qed

lemma loop_frames:
  assumes "list_all good_frame fs" and "drop off bs = concat (map framed fs) @ rest" and "off \<le> length bs"
    and "header_len fmt \<le> off" and "cl = base + of_nat (off - header_len fmt)"
  shows "read_frames_loop fmt base bs off acc cl =
    read_frames_loop fmt base bs (off + payload_len fs) (acc @ fs) (base + of_nat (off + payload_len fs - header_len fmt))"
  using assms
proof (induction fs arbitrary: off acc cl)
  case (Cons f fs)
  let ?off = "off + length (framed f)"
  have len: "length bs = ?off + payload_len fs + length rest"
    using arg_cong [OF Cons.prems(2), of length] Cons.prems(3) by (simp add: payload_len_def)
  have "read_frames_loop fmt base bs off acc cl =
      read_frames_loop fmt base bs ?off (acc @ [f]) (base + of_nat (?off - header_len fmt))"
    using Cons.prems by (intro loop_frame [where rest = "concat (map framed fs) @ rest"]) auto
  also have "\<dots> = read_frames_loop fmt base bs (?off + payload_len fs) ((acc @ [f]) @ fs)
      (base + of_nat (?off + payload_len fs - header_len fmt))"
    using Cons.prems len by (intro Cons.IH) (auto simp: add.commute [of off] drop_drop [symmetric] simp del: drop_drop)
  finally show ?case by (simp add: add.assoc)
qed simp

lemma loop_torn:
  assumes "good_frame f" and "drop off bs = take m (framed f)" and "m < length (framed f)" and "off \<le> length bs"
    and "cl = base + of_nat (off - header_len fmt)"
  shows "read_frames_loop fmt base bs off acc cl =
    Inr \<lparr>journal_frames = acc, journal_clean_len = cl, journal_truncated_tail = off < length bs\<rparr>"
proof -
  have len: "length bs = off + m"
    using arg_cong [OF assms(2), of length] assms(3,4) by simp
  have pre: "take 4 (drop off bs) = to_be_bytes (of_nat (length f) :: u32)"
    "take 4 (drop (off + 4) bs) = to_be_bytes (NOT (of_nat (length f) :: u32))" if "8 \<le> m"
    using that assms(2)
    by (simp_all add: drop_drop [symmetric] add.commute [of off] framed_def frame_prefix_def min_def take_drop
        del: drop_drop)
  have nz: "(of_nat (length f) :: u32) \<noteq> 0"
    using assms(1) of_nat_unat_frame [OF assms(1)] by (auto simp: good_frame_def)
  have small: "8 \<le> m \<Longrightarrow> m - 8 < length f" using assms(3) by (simp add: length_framed)
  show ?thesis
  proof (cases "m < 8")
    case True
    then show ?thesis
      by (subst read_frames_loop.simps) (use len assms(5) in \<open>simp add: journal_lengths Let_def\<close>)
  next
    case False
    then show ?thesis
      by (subst read_frames_loop.simps)
        (use len pre nz of_nat_unat_frame [OF assms(1)] small assms(5) in \<open>simp add: journal_lengths Let_def\<close>)
  qed
qed

lemma loop_cut:
  assumes "list_all good_frame fs" and "drop off bs = take m (concat (map framed fs))" and "off \<le> length bs"
    and "header_len fmt \<le> off" and "cl = base + of_nat (off - header_len fmt)"
  shows "read_frames_loop fmt base bs off acc cl =
    Inr \<lparr>journal_frames = acc @ whole_frames m fs,
         journal_clean_len = base + of_nat (off + payload_len (whole_frames m fs) - header_len fmt),
         journal_truncated_tail = off + payload_len (whole_frames m fs) < length bs\<rparr>"
  using assms
proof (induction fs arbitrary: off m acc cl)
  case Nil
  then show ?case by (subst read_frames_loop.simps) simp
next
  case (Cons f fs)
  show ?case
  proof (cases "m < length (framed f)")
    case True
    with Cons.prems loop_torn [of f off bs m cl base fmt acc] show ?thesis by simp
  next
    case False
    let ?off = "off + length (framed f)" and ?m = "m - length (framed f)"
    have drop: "drop off bs = framed f @ take ?m (concat (map framed fs))" using Cons.prems(2) False by simp
    have len: "length bs = ?off + length (take ?m (concat (map framed fs)))"
      using arg_cong [OF drop, of length] Cons.prems(3) by simp
    have "read_frames_loop fmt base bs off acc cl =
        read_frames_loop fmt base bs ?off (acc @ [f]) (base + of_nat (?off - header_len fmt))"
      using Cons.prems by (intro loop_frame [OF _ drop]) auto
    also have "\<dots> = Inr \<lparr>journal_frames = (acc @ [f]) @ whole_frames ?m fs,
         journal_clean_len = base + of_nat (?off + payload_len (whole_frames ?m fs) - header_len fmt),
         journal_truncated_tail = ?off + payload_len (whole_frames ?m fs) < length bs\<rparr>"
      using Cons.prems len drop
      by (intro Cons.IH) (auto simp: add.commute [of off] drop_drop [symmetric] simp del: drop_drop)
    finally show ?thesis using False by (simp add: add.assoc)
  qed
qed

definition io_ok :: "JournalIo \<Rightarrow> bool" where
  "io_ok io \<longleftrightarrow> (parent io \<longrightarrow> create_dir_ok io) \<and> open_ok io \<and> stat_ok io \<and> open_header_ok io \<and> read_header_ok io \<and>
     header_write_fails io = None \<and> prefix_write_fails io = None \<and> frame_write_fails io = None \<and> open_replay_ok io \<and>
     read_ok io \<and> open_truncate_ok io \<and> set_len_ok io \<and> truncate_sync_ok io \<and> file_sync io = Inr () \<and>
     temp_create_ok io \<and> temp_write_ok io \<and> temp_sync_ok io \<and> rename_ok io \<and> sync_parent io = Inr ()"

lemma decode_header_journal:
  "header_len fmt \<le> n \<Longrightarrow> decode_file_header fmt (take n (journal_bytes fmt base fs)) = Inr (base, header_len fmt)"
  by (simp add: decode_file_header_def journal_bytes_def encode_file_bytes_def decode_encode_header)

lemma decode_header_full: "decode_file_header fmt (journal_bytes fmt base fs) = Inr (base, header_len fmt)"
  by (simp add: decode_file_header_def journal_bytes_def encode_file_bytes_def decode_encode_header)

lemma read_header_journal:
  assumes "header_len (format self) \<le> n" and "io_ok io"
  shows "read_file_base_offset_unlocked self io (Some (take n (journal_bytes (format self) base fs))) = Inr base"
  using assms decode_header_journal [of "format self" "header_len (format self)" base fs]
  by (auto simp: read_file_base_offset_unlocked_def io_ok_def min_absorb1)

lemma read_frames_eq:
  assumes "decode_file_header (format self) bs = Inr (base, header_len (format self))" and "bs \<noteq> []" and "io_ok io"
    and "base \<le> r" and "header_len (format self) + (unat r - unat base) \<le> length bs" and "length bs < 2 ^ 64"
  shows "read_frames_from self io (Some bs) r =
    read_frames_loop (format self) base bs (header_len (format self) + (unat r - unat base)) [] r"
proof -
  have sub: "unat (r - base) = unat r - unat base" using assms(4) by (simp add: unat_sub)
  have sum: "base + of_nat (unat r - unat base) = r"
    unfolding sub [symmetric] by simp
  have io: "open_replay_ok io" "read_ok io" using assms(3) by (simp_all add: io_ok_def)
  have "\<not> r < base" using assms(4) by simp
  then show ?thesis
    using assms(1,2,5,6) by (simp add: read_frames_from_def read_frames_from_unlocked_def io check_io_def sub sum Let_def)
qed

lemma read_cut_journal:
  assumes "list_all good_frame fs" and "header_len (format self) \<le> n" and "io_ok io"
    and "header_len (format self) + payload_len fs < 2 ^ 64"
  shows "read_frames_from self io (Some (take n (journal_bytes (format self) base fs))) base =
    Inr \<lparr>journal_frames = whole_frames (n - header_len (format self)) fs,
         journal_clean_len = base + of_nat (payload_len (whole_frames (n - header_len (format self)) fs)),
         journal_truncated_tail = payload_len (whole_frames (n - header_len (format self)) fs) <
           min (n - header_len (format self)) (payload_len fs)\<rparr>"
proof -
  let ?h = "header_len (format self)" and ?bs = "take n (journal_bytes (format self) base fs)"
  have len: "length ?bs = min n (?h + payload_len fs)" by (simp add: length_journal_bytes min.commute)
  have ne: "?bs \<noteq> []" using assms(2) header_len_pos [of "format self"] len by (metis length_0_conv less_le_trans min_less_iff_conj not_less0 trans_less_add1)
  have drop: "drop ?h ?bs = take (n - ?h) (concat (map framed fs))"
    using assms(2) by (simp add: journal_bytes_def encode_file_bytes_def)
  have "read_frames_from self io (Some ?bs) base = read_frames_loop (format self) base ?bs ?h [] base"
    using read_frames_eq [OF decode_header_journal [OF assms(2)] ne assms(3), of base] assms(2,4) len by simp
  also have "\<dots> = Inr \<lparr>journal_frames = [] @ whole_frames (n - ?h) fs,
         journal_clean_len = base + of_nat (?h + payload_len (whole_frames (n - ?h) fs) - ?h),
         journal_truncated_tail = ?h + payload_len (whole_frames (n - ?h) fs) < length ?bs\<rparr>"
    using assms len drop by (intro loop_cut [OF assms(1)]) auto
  finally show ?thesis using assms(2) by (auto simp: len length_journal_bytes)
qed

lemma truncate_cut_journal:
  assumes "list_all good_frame fs" and "header_len (format self) \<le> n" and "io_ok io"
    and "unat base + header_len (format self) + payload_len fs < 2 ^ 64"
  shows "truncate_to_clean_len self io (base + of_nat (payload_len (whole_frames (n - header_len (format self)) fs)))
      (Some (take n (journal_bytes (format self) base fs))) =
    (Some (journal_bytes (format self) base (whole_frames (n - header_len (format self)) fs)), Inr ())"
proof -
  let ?h = "header_len (format self)"
  let ?p = "payload_len (whole_frames (n - ?h) fs)"
  obtain k where k: "whole_frames (n - ?h) fs = take k fs" using whole_frames_prefix by blast
  have p: "?p \<le> payload_len fs" "?p \<le> n - ?h"
    using payload_len_whole_frames [of "n - ?h" fs] k by (simp_all add: payload_len_def flip: take_map) (metis append_take_drop_id concat_append le_add1 length_append)
  have up: "unat (of_nat ?p :: u64) = ?p" using p(1) assms(4) by (simp add: unat_of_nat)
  have le: "base \<le> base + of_nat ?p" using p(1) assms(4) up by (simp add: word_le_nat_alt unat_add_no_wrap)
  have add: "checked_add (of_nat ?h) (base + of_nat ?p - base) = Some (of_nat (?h + ?p))"
    using p(1) assms(4) by (simp add: checked_add_def up unat_of_nat)
  have cut: "set_len (?h + ?p) (take n (journal_bytes (format self) base fs)) =
      journal_bytes (format self) base (whole_frames (n - ?h) fs)"
    using p assms(2) take_whole_frames [of "n - ?h" fs]
    by (simp add: set_len_def journal_bytes_def encode_file_bytes_def length_journal_bytes min_def payload_len_def)
  have "unat (of_nat (?h + ?p) :: u64) = ?h + ?p" using p(1) assms(4) by (simp add: unat_of_nat del: of_nat_add)
  with read_header_journal [OF assms(2,3), of base fs] add le cut assms(3) show ?thesis
    by (simp add: truncate_to_clean_len_def io_ok_def check_io_def not_less del: of_nat_add)
qed

text \<open>A small journal on which the properties are evaluated.\<close>

definition sample_journal :: DurableJournalFile where
  "sample_journal = \<lparr>format = \<lparr>file_magic = [65, 74], file_version = 1, label = ''sample''\<rparr>,
     contexts = DurableJournalIoContexts.make [] [] [] [] [] [] [] [] [] [] [] [] [] [] [] [] [] [] [] []\<rparr>"

definition sample_io :: JournalIo where
  "sample_io = JournalIo.make True True True True True True None None None True True True True True (Inr ()) True True True
     True (Inr ())"

lemma sample_ok [simp]: "io_ok sample_io" "header_len (format sample_journal) = 20" "good_frame [1, 2]" "good_frame [3]"
  by (simp_all add: io_ok_def sample_io_def JournalIo.defs sample_journal_def header_len_def journal_lengths good_frame_def)

lemma sample_lengths [simp]: "length (framed [1, 2]) = 10" "length (framed [3]) = 9"
  by (simp_all add: length_framed)

text \<open>
  C20. A journal that was cut at any byte behind its header, as after a crash in the middle of an append, is
  replayed without an error: replay returns exactly the frames that are still complete and flags the torn
  rest, and truncating to the clean length it reports gives the clean journal of these frames.
\<close>

theorem journal_crash_recovery:
  assumes "list_all good_frame fs" and "header_len (format self) \<le> n" and "io_ok io"
    and "unat base + header_len (format self) + payload_len fs < 2 ^ 64"
  shows "\<exists>r. read_frames_from self io (Some (take n (journal_bytes (format self) base fs))) base = Inr r \<and>
    journal_frames r = whole_frames (n - header_len (format self)) fs \<and>
    (journal_truncated_tail r \<longleftrightarrow> payload_len (journal_frames r) < min (n - header_len (format self)) (payload_len fs)) \<and>
    truncate_to_clean_len self io (journal_clean_len r) (Some (take n (journal_bytes (format self) base fs))) =
      (Some (journal_bytes (format self) base (journal_frames r)), Inr ())"
  using read_cut_journal [OF assms(1-3), of base] truncate_cut_journal [OF assms] assms(4) by simp

theorem journal_crash_recovery_witness:
  "\<exists>r. read_frames_from sample_journal sample_io
       (Some (take 35 (journal_bytes (format sample_journal) 0 [[1, 2], [3]]))) 0 = Inr r \<and>
     journal_frames r = [[1, 2]] \<and> journal_truncated_tail r"
  using journal_crash_recovery [of "[[1, 2], [3]]" sample_journal 35 sample_io 0] by auto

section \<open>Appending\<close>

lemma append_to_clean:
  assumes "contents = journal_bytes (format self) base fs" and "append_to_file self io frame contents = (contents', result)"
  shows "\<exists>n. contents' = contents @ take n (framed frame) \<and>
    (case result of
       Inl (BeforeReplayableRecord _) \<Rightarrow> contents' = contents
     | Inl (AmbiguousRecordMayExist _) \<Rightarrow> True
     | Inl (ReplayableRecordMayExist _) \<Rightarrow> contents' = contents @ framed frame
     | Inr _ \<Rightarrow> contents' = contents @ framed frame)"
proof -
  have ne: "contents \<noteq> []"
    using header_len_pos [of "format self"] by (simp add: assms(1) length_journal_bytes flip: length_greater_0_conv)
  have "ensure_file_header self io contents = (contents, Inr ()) \<or>
      (\<exists>e. ensure_file_header self io contents = (contents, Inl (BeforeReplayableRecord e)))"
    using ne by (cases "read_file_base_offset_unlocked self io (Some contents)") (simp_all add: ensure_file_header_def)
  then consider (before) e where "ensure_file_header self io contents = (contents, Inl (BeforeReplayableRecord e))"
    | (ok) "ensure_file_header self io contents = (contents, Inr ())" by blast
  then show ?thesis
  proof cases
    case before
    then show ?thesis using assms(2) by (auto simp: append_to_file_def intro!: exI [of _ 0])
  next
    case ok
    let ?pre = "frame_prefix (of_nat (length frame))"
    have cut: "take n ?pre = take (min n 8) (framed frame)" "?pre @ take n frame = take (8 + n) (framed frame)" for n
      by (simp_all add: framed_def frame_prefix_def min_def)
    show ?thesis
    proof (cases "prefix_write_fails io")
      case None
      show ?thesis
      proof (cases "frame_write_fails io")
        case None
        with ok \<open>prefix_write_fails io = None\<close> assms(2) show ?thesis
          by (cases "file_sync io"; cases "sync_parent io")
            (auto simp: append_to_file_def write_replayable_bytes_def framed_def intro!: exI [of _ "length (framed frame)"])
      next
        case (Some n)
        with ok \<open>prefix_write_fails io = None\<close> assms(2) cut(2) [of n] show ?thesis
          by (auto simp: append_to_file_def write_replayable_bytes_def)
      qed
    next
      case (Some n)
      with ok assms(2) cut(1) [of n] show ?thesis
        by (auto simp: append_to_file_def write_replayable_bytes_def)
    qed
  qed
qed

lemma journal_bytes_snoc: "journal_bytes fmt base (fs @ [f]) = journal_bytes fmt base fs @ framed f"
  by (simp add: journal_bytes_def encode_file_bytes_def)

text \<open>
  C21. Whatever system call of an append to a clean journal fails, and however many bytes a failing write has
  written, the earlier frames stay: a later replay returns them, followed by the new frame or not. The new
  frame is there when the append succeeds or reports that the record is replayable, and the file is untouched
  when the append reports a failure before the record.
\<close>

theorem append_keeps_earlier_frames:
  assumes "list_all good_frame fs" and "good_frame frame" and "io_ok io'"
    and "header_len (format self) + payload_len (fs @ [frame]) < 2 ^ 64"
    and "append_frame self io frame (Some (journal_bytes (format self) base fs)) = (file, result)"
  shows "\<exists>r. read_frames_from self io' file base = Inr r \<and>
    (case result of
       Inl (BeforeReplayableRecord _) \<Rightarrow> file = Some (journal_bytes (format self) base fs) \<and> journal_frames r = fs
     | Inl (AmbiguousRecordMayExist _) \<Rightarrow> journal_frames r = fs \<or> journal_frames r = fs @ [frame]
     | Inl (ReplayableRecordMayExist _) \<Rightarrow> journal_frames r = fs @ [frame]
     | Inr _ \<Rightarrow> journal_frames r = fs @ [frame])"
proof -
  let ?h = "header_len (format self)" and ?old = "journal_bytes (format self) base fs"
    and ?new = "journal_bytes (format self) base (fs @ [frame])"
  have read: "\<exists>r. read_frames_from self io' (Some (take m ?new)) base = Inr r \<and>
      journal_frames r = (if m < length ?new then fs else fs @ [frame])" if "length ?old \<le> m" for m
    using read_cut_journal [of "fs @ [frame]" self m io' base] assms(1-4) that
    by (auto simp: length_journal_bytes whole_frames_append_one)
  consider (unchanged) e where "file = Some ?old" "result = Inl (BeforeReplayableRecord e)"
    | (written) contents where "file = Some contents" "append_to_file self io frame ?old = (contents, result)"
    using assms(5) by (auto simp: append_frame_def append_frame_inner_def split: if_splits prod.splits)
  then show ?thesis
  proof cases
    case unchanged
    with read [of "length ?old"] show ?thesis
      by (auto simp: journal_bytes_snoc length_framed)
  next
    case written
    from append_to_clean [OF refl written(2)] obtain n where n: "contents = ?old @ take n (framed frame)"
      "case result of Inl (BeforeReplayableRecord _) \<Rightarrow> contents = ?old | Inl (AmbiguousRecordMayExist _) \<Rightarrow> True
         | Inl (ReplayableRecordMayExist _) \<Rightarrow> contents = ?old @ framed frame | Inr _ \<Rightarrow> contents = ?old @ framed frame" by blast
    have "contents = take (length contents) ?new" "length ?old \<le> length contents"
      by (simp_all add: n(1) journal_bytes_snoc min_def)
    with read [of "length contents"] n(2) written(1) show ?thesis
      by (auto simp: journal_bytes_snoc length_framed split: sum.splits DurableJournalAppendError.splits if_splits)
  qed
qed

definition torn_io :: JournalIo where
  "torn_io = sample_io\<lparr>frame_write_fails := Some 1\<rparr>"

lemma torn_append:
  "append_frame sample_journal torn_io [1, 2] (Some (journal_bytes (format sample_journal) 0 [[3]])) =
     (Some (journal_bytes (format sample_journal) 0 [[3]] @ take 9 (framed [1, 2])), Inl (AmbiguousRecordMayExist (Io [])))"
proof -
  let ?bs = "journal_bytes (format sample_journal) 0 [[3]]"
  have "read_file_base_offset_unlocked sample_journal torn_io (Some ?bs) = Inr 0"
    using decode_header_journal [of "format sample_journal" 20 0 "[[3]]"]
    by (simp add: read_file_base_offset_unlocked_def torn_io_def sample_io_def JournalIo.defs)
  then show ?thesis
    by (simp add: append_frame_def append_frame_inner_def append_to_file_def ensure_file_header_def write_replayable_bytes_def
        torn_io_def sample_io_def JournalIo.defs length_journal_bytes framed_def frame_prefix_def sample_journal_def
        DurableJournalIoContexts.defs)
qed

theorem append_keeps_earlier_frames_witness:
  "\<exists>r. read_frames_from sample_journal sample_io
       (Some (journal_bytes (format sample_journal) 0 [[3]] @ take 9 (framed [1, 2]))) 0 = Inr r \<and>
     (journal_frames r = [[3]] \<or> journal_frames r = [[3], [1, 2]])"
  using append_keeps_earlier_frames [OF _ _ _ _ torn_append, of sample_io] by simp

section \<open>Compaction and replacement\<close>

lemma loop_shift:
  assumes "drop off bs = drop off' bs'" and "off \<le> length bs" and "off' \<le> length bs'"
    and "header_len fmt \<le> off" and "header_len fmt \<le> off'"
    and "base + of_nat (off - header_len fmt) = base' + of_nat (off' - header_len fmt)"
  shows "read_frames_loop fmt base bs off acc cl = read_frames_loop fmt base' bs' off' acc cl"
  using assms
proof (induction fmt base bs off acc cl arbitrary: off' rule: read_frames_loop.induct)
  case (1 fmt base bs off acc cl)
  have len: "length bs - off = length bs' - off'" using arg_cong [OF "1.prems"(1), of length] by simp
  have drops: "drop (off + k) bs = drop (off' + k) bs'" for k
    using arg_cong [OF "1.prems"(1), of "drop k"] by (simp add: add.commute)
  let ?n = "from_be_bytes (take FRAME_LENGTH_LEN (drop off bs)) :: u32"
  have "(of_nat (x + FRAME_PREFIX_LEN + unat ?n - header_len fmt) :: u64) =
      of_nat (x - header_len fmt) + of_nat (FRAME_PREFIX_LEN + unat ?n)" if "header_len fmt \<le> x" for x
    using that by (simp add: add.assoc flip: of_nat_add)
  then have shift: "base + of_nat (off + FRAME_PREFIX_LEN + unat ?n - header_len fmt) =
      base' + of_nat (off' + FRAME_PREFIX_LEN + unat ?n - header_len fmt)"
    using "1.prems"(4-6) by (simp only: add.assoc [symmetric])
  have conds: "length bs' \<le> off' \<longleftrightarrow> length bs \<le> off" "length bs' - (off' + k) = length bs - (off + k)" for k
    using len "1.prems"(2,3) by auto
  note step = read_frames_loop.simps [of fmt base bs off acc cl] read_frames_loop.simps [of fmt base' bs' off' acc cl]
  note same = conds conds(2) [of 0, simplified] drops [symmetric] "1.prems"(1) [symmetric] "1.prems"(6) [symmetric]
  show ?case
  proof (cases "length bs \<le> off \<or> length bs - off < FRAME_PREFIX_LEN \<or> ?n = 0 \<or>
      from_be_bytes (take FRAME_LENGTH_LEN (drop (off + FRAME_LENGTH_LEN) bs)) \<noteq> NOT ?n \<or>
      length bs - (off + FRAME_PREFIX_LEN) < unat ?n")
    case True
    then show ?thesis unfolding step Let_def same by (elim disjE) simp_all
  next
    case False
    let ?frame_end = "off + FRAME_PREFIX_LEN + unat ?n" and ?frame_end' = "off' + FRAME_PREFIX_LEN + unat ?n"
    have "read_frames_loop fmt base bs ?frame_end (acc @ [take (unat ?n) (drop (off + FRAME_PREFIX_LEN) bs)])
          (base + of_nat (?frame_end - header_len fmt)) =
        read_frames_loop fmt base' bs' ?frame_end' (acc @ [take (unat ?n) (drop (off + FRAME_PREFIX_LEN) bs)])
          (base + of_nat (?frame_end - header_len fmt))"
      using False len "1.prems" drops [of "FRAME_PREFIX_LEN + unat ?n"] shift
      by (intro "1.IH") (auto simp: add.assoc)
    with False shift show ?thesis unfolding step Let_def same by simp
  qed
qed

text \<open>
  C22. Compaction is invisible to readers: after a successful compaction through an offset, replay from every
  later offset of the journal returns the same frames, the same clean length and the same tail flag as
  before, whatever the journal holds.
\<close>

theorem compaction_invisible:
  assumes "decode_file_header (format self) bs = Inr (base, header_len (format self))" and "bs \<noteq> []"
    and "header_len (format self) \<le> length bs" and "unat base + length bs < 2 ^ 64"
    and "compact_through self io r (Some bs) = (file, Inr ())"
    and "io_ok io'" and "r \<le> r'" and "unat r' - unat base \<le> length bs - header_len (format self)"
  shows "read_frames_from self io' file r' = read_frames_from self io' (Some bs) r'"
proof (cases "file = Some bs")
  case False
  let ?h = "header_len (format self)"
  let ?start = "?h + (unat r - unat base)"
  have start: "base \<le> r" "?start \<le> length bs"
    and new_file: "file = Some (encode_file_bytes (format self) r (drop ?start bs))"
    using assms(1,2,5) False
    by (auto simp: compact_through_def compact_through_inner_def compaction_start_def commit_compaction_def unat_sub not_less Let_def
        split: if_splits sum.splits)
  let ?new = "encode_file_bytes (format self) r (drop ?start bs)"
  have new: "decode_file_header (format self) ?new = Inr (r, ?h)" "length ?new = ?h + (length bs - ?start)" "?new \<noteq> []"
    using header_len_pos [of "format self"]
    by (simp_all add: encode_file_bytes_def decode_file_header_def decode_encode_header flip: length_greater_0_conv)
  have order: "unat base \<le> unat r" "unat r \<le> unat r'" using start(1) assms(7) by (simp_all add: word_le_nat_alt)
  have "read_frames_loop (format self) r ?new (?h + (unat r' - unat r)) [] r' =
      read_frames_loop (format self) base bs (?h + (unat r' - unat base)) [] r'"
  proof (rule loop_shift)
    show "drop (?h + (unat r' - unat r)) ?new = drop (?h + (unat r' - unat base)) bs"
      using order by (simp add: encode_file_bytes_def add.commute)
    show "r + of_nat (?h + (unat r' - unat r) - ?h) = base + of_nat (?h + (unat r' - unat base) - ?h)"
      using order by (simp add: of_nat_diff)
  qed (use order new(2) start assms(3,8) in auto)
  moreover have "read_frames_from self io' (Some ?new) r' = read_frames_loop (format self) r ?new (?h + (unat r' - unat r)) [] r'"
    using assms(3,4,7,8) order new start by (intro read_frames_eq [OF new(1,3) assms(6)]) auto
  moreover have "read_frames_from self io' (Some bs) r' = read_frames_loop (format self) base bs (?h + (unat r' - unat base)) [] r'"
    using assms(3,4,7,8) order start by (intro read_frames_eq [OF assms(1,2,6)]) auto
  ultimately show ?thesis by (simp add: new_file)
qed simp

lemma sample_compaction:
  "compact_through sample_journal sample_io 10 (Some (journal_bytes (format sample_journal) 0 [[1, 2], [3]])) =
     (Some (journal_bytes (format sample_journal) 10 [[3]]), Inr ())"
proof -
  let ?bs = "journal_bytes (format sample_journal) 0 [[1, 2], [3]]"
  have dec: "decode_file_header (format sample_journal) ?bs = Inr (0, 20)"
    by (simp add: decode_header_full)
  have "drop 30 ?bs = framed [3]" "?bs \<noteq> []"
    by (simp_all add: journal_bytes_def encode_file_bytes_def length_framed flip: length_0_conv)
  with dec show ?thesis
    by (simp add: compact_through_def compact_through_inner_def compaction_start_def commit_compaction_def sample_io_def
        JournalIo.defs journal_bytes_def [of _ 10] length_journal_bytes)
qed

theorem compaction_invisible_witness:
  "read_frames_from sample_journal sample_io (Some (journal_bytes (format sample_journal) 10 [[3]])) 19 =
   read_frames_from sample_journal sample_io (Some (journal_bytes (format sample_journal) 0 [[1, 2], [3]])) 19"
proof -
  let ?bs = "journal_bytes (format sample_journal) 0 [[1, 2], [3]]"
  have "decode_file_header (format sample_journal) ?bs = Inr (0, header_len (format sample_journal))"
    by (simp add: decode_header_full)
  moreover have "?bs \<noteq> []" by (simp add: length_journal_bytes flip: length_greater_0_conv)
  ultimately show ?thesis
    using compaction_invisible [OF _ _ _ _ sample_compaction, of 0 sample_io 19] by (simp add: length_journal_bytes)
qed

lemma encode_replacement_Inr:
  "encode_replacement fmt fs = Inr bs \<longleftrightarrow> list_all good_frame fs \<and> bs = concat (map framed fs)"
  by (induction fs arbitrary: bs) (auto simp: good_frame_def framed_def split: if_splits)

text \<open>
  C23. Replacing the frames behind an offset succeeds only while the journal still has the length the caller
  saw, and the replaced journal holds exactly the new frames from that offset on.
\<close>

theorem replacement_exact:
  assumes "replace_from self io r expected fs (Some bs) = (file, Inr ())" and "io_ok io'"
    and "header_len (format self) + payload_len fs < 2 ^ 64" and "length bs < 2 ^ 64"
  shows "\<exists>base. decode_file_header (format self) bs = Inr (base, header_len (format self)) \<and>
    unat expected = unat base + (length bs - header_len (format self)) \<and> base \<le> r \<and> r \<le> expected \<and>
    file = Some (journal_bytes (format self) r fs) \<and>
    read_frames_from self io' file r = Inr \<lparr>journal_frames = fs, journal_clean_len = r + of_nat (payload_len fs),
      journal_truncated_tail = False\<rparr>"
proof -
  obtain base h where dec: "decode_file_header (format self) bs = Inr (base, h)"
    using assms(1) by (auto simp: replace_from_def replace_from_inner_def Let_def split: if_splits sum.splits option.splits)
  then have h: "h = header_len (format self)"
    by (auto simp: decode_file_header_def decode_file_header_classified_def Let_def split: if_splits)
  obtain c where c: "checked_add base (of_nat (length bs - h)) = Some c" "c = expected" "r \<le> c" "base \<le> r"
      "list_all good_frame fs" "file = Some (journal_bytes (format self) r fs)"
    using assms(1) dec
    by (auto simp: replace_from_def replace_from_inner_def commit_compaction_def encode_replacement_Inr journal_bytes_def Let_def
        not_less split: if_splits sum.splits option.splits)
  have "unat expected = unat base + (length bs - h)"
    using checked_add_Some_iff [THEN iffD1, OF c(1)] c(2) assms(4) by (simp add: unat_of_nat)
  moreover have "read_frames_from self io' (Some (journal_bytes (format self) r fs)) r =
      Inr \<lparr>journal_frames = fs, journal_clean_len = r + of_nat (payload_len fs), journal_truncated_tail = False\<rparr>"
    using read_cut_journal [OF c(5) _ assms(2,3), of "length (journal_bytes (format self) r fs)" r]
    by (simp add: length_journal_bytes whole_frames_all)
  ultimately show ?thesis using dec h c by auto
qed

lemma sample_replacement:
  "replace_from sample_journal sample_io 10 19 [[1, 2]] (Some (journal_bytes (format sample_journal) 0 [[1, 2], [3]])) =
     (Some (journal_bytes (format sample_journal) 10 [[1, 2]]), Inr ())"
proof -
  let ?bs = "journal_bytes (format sample_journal) 0 [[1, 2], [3]]"
  have dec: "decode_file_header (format sample_journal) ?bs = Inr (0, 20)"
    by (simp add: decode_header_full)
  have rep: "encode_replacement (format sample_journal) [[1, 2]] = Inr (concat (map framed [[1, 2]]))"
    by (simp only: encode_replacement_Inr) simp
  show ?thesis
    by (simp add: replace_from_def replace_from_inner_def dec rep commit_compaction_def sample_io_def JournalIo.defs
        length_journal_bytes checked_add_def journal_bytes_def [of _ 10] del: encode_replacement.simps)
qed

theorem replacement_exact_witness:
  "read_frames_from sample_journal sample_io (Some (journal_bytes (format sample_journal) 10 [[1, 2]])) 10 =
     Inr \<lparr>journal_frames = [[1, 2]], journal_clean_len = 20, journal_truncated_tail = False\<rparr>"
  using replacement_exact [OF sample_replacement, of sample_io] by (auto simp: length_journal_bytes)

end
