(* ===== verification/Rust_Strings.thy ===== *)
theory Rust_Strings
  imports Argmin_Prelude
begin

text \<open>
  String operations of the Rust standard library that the sources use. A string is the list of the bytes of
  its UTF-8 encoding, each as a character; in ASCII text, bytes and characters are the same.
\<close>

section \<open>Character classes\<close>

definition is_ascii_digit :: "char \<Rightarrow> bool" where
  "is_ascii_digit c = (let n = of_char c :: nat in 48 \<le> n \<and> n \<le> 57)"

definition is_ascii_uppercase :: "char \<Rightarrow> bool" where
  "is_ascii_uppercase c = (let n = of_char c :: nat in 65 \<le> n \<and> n \<le> 90)"

definition is_ascii_lowercase :: "char \<Rightarrow> bool" where
  "is_ascii_lowercase c = (let n = of_char c :: nat in 97 \<le> n \<and> n \<le> 122)"

definition is_ascii_alphanumeric :: "char \<Rightarrow> bool" where
  "is_ascii_alphanumeric c \<longleftrightarrow> is_ascii_digit c \<or> is_ascii_uppercase c \<or> is_ascii_lowercase c"

text \<open>The characters of a string, each as the bytes of its encoding: a lead byte and its continuation bytes.\<close>

definition is_continuation :: "char \<Rightarrow> bool" where
  "is_continuation c = (let n = of_char c :: nat in 128 \<le> n \<and> n < 192)"

fun chars :: "string \<Rightarrow> string list" where
  "chars [] = []"
| "chars (c # s) = (case chars s of [] \<Rightarrow> [[c]]
     | u # us \<Rightarrow> if is_continuation (hd u) then (c # u) # us else [c] # u # us)"

definition is_control :: "string \<Rightarrow> bool" where
  "is_control u = (case map of_char u of [n] \<Rightarrow> n < 32 \<or> n = 127
     | [m, n] \<Rightarrow> m = 0xC2 \<and> n < (0xA0 :: nat) | _ \<Rightarrow> False)"

lemma chars_Nil_iff [simp]: "chars s = [] \<longleftrightarrow> s = []"
  by (cases s) (auto split: list.splits)

lemma hd_hd_chars: "s \<noteq> [] \<Longrightarrow> hd (hd (chars s)) = hd s"
  by (cases s) (auto split: list.splits)

lemma concat_chars [simp]: "concat (chars s) = s"
  by (induction s) (auto split: list.splits)

lemma length_chars: "length (chars (c # s)) = Suc (length (filter (\<lambda>c. \<not> is_continuation c) s))"
proof (induction s arbitrary: c)
  case (Cons d s)
  obtain u us where u: "chars (d # s) = u # us" by (cases "chars (d # s)") (simp_all del: chars.simps(2))
  then have hd: "hd u = d" using hd_hd_chars [of "d # s"] by (simp del: chars.simps(2))
  have "length (chars (c # d # s)) = (if is_continuation d then Suc (length us) else Suc (Suc (length us)))"
    unfolding chars.simps(2) [of c] u by (simp add: hd)
  moreover have "Suc (length us) = length (chars (d # s))" using u by (simp del: chars.simps(2))
  ultimately show ?case using Cons by (simp del: chars.simps(2))
qed simp

lemma length_chars_append: "length (chars s) \<le> length (chars (s @ t))"
proof (cases s)
  case (Cons c s')
  then show ?thesis using length_chars [of c s'] length_chars [of c "s' @ t"] by (simp del: chars.simps(2))
qed simp

lemma length_chars_snoc: "\<not> is_continuation c \<Longrightarrow> length (chars (s @ [c])) = Suc (length (chars s))"
proof (cases s)
  case (Cons d s')
  assume "\<not> is_continuation c"
  then show ?thesis using Cons length_chars [of d s'] length_chars [of d "s' @ [c]"] by (simp del: chars.simps(2))
qed simp

text \<open>In ASCII text the characters are the bytes.\<close>

lemma chars_ascii: "\<forall>c \<in> set s. of_char c < (128 :: nat) \<Longrightarrow> chars s = map (\<lambda>c. [c]) s"
proof (induction s)
  case (Cons c s)
  then show ?case by (cases s) (auto simp: is_continuation_def Let_def)
qed simp

section \<open>Prefixes, suffixes and splitting\<close>

fun strip_prefix :: "string \<Rightarrow> string \<Rightarrow> string option" where
  "strip_prefix [] s = Some s"
| "strip_prefix (p # ps) [] = None"
| "strip_prefix (p # ps) (c # cs) = (if p = c then strip_prefix ps cs else None)"

definition strip_suffix :: "string \<Rightarrow> string \<Rightarrow> string option" where
  "strip_suffix p s = map_option rev (strip_prefix (rev p) (rev s))"

lemma strip_prefix_Some_iff: "strip_prefix p s = Some t \<longleftrightarrow> s = p @ t"
  by (induction p s rule: strip_prefix.induct) auto

lemma strip_prefix_append [simp]: "strip_prefix p (p @ t) = Some t"
  by (simp add: strip_prefix_Some_iff)

lemma strip_suffix_Some_iff: "strip_suffix p s = Some t \<longleftrightarrow> s = t @ p"
proof -
  have "strip_suffix p s = Some t \<longleftrightarrow> rev s = rev p @ rev t"
    unfolding strip_prefix_Some_iff [symmetric] by (auto simp: strip_suffix_def)
  also have "\<dots> \<longleftrightarrow> s = t @ p" by (metis rev_append rev_rev_ident)
  finally show ?thesis .
qed

definition starts_with :: "char \<Rightarrow> string \<Rightarrow> bool" where
  "starts_with c s \<longleftrightarrow> s \<noteq> [] \<and> hd s = c"

definition ends_with :: "char \<Rightarrow> string \<Rightarrow> bool" where
  "ends_with c s \<longleftrightarrow> s \<noteq> [] \<and> last s = c"

fun split_once :: "char \<Rightarrow> string \<Rightarrow> (string \<times> string) option" where
  "split_once d [] = None"
| "split_once d (c # cs) =
     (if c = d then Some ([], cs) else map_option (\<lambda>(a, b). (c # a, b)) (split_once d cs))"

lemma split_once_Some_iff: "split_once d s = Some (a, b) \<longleftrightarrow> s = a @ d # b \<and> d \<notin> set a"
proof (induction s arbitrary: a)
  case (Cons c s)
  then show ?case by (cases a) auto
qed simp

lemma split_once_None_iff: "split_once d s = None \<longleftrightarrow> d \<notin> set s"
  by (induction s) auto

definition rsplit_once :: "char \<Rightarrow> string \<Rightarrow> (string \<times> string) option" where
  "rsplit_once d s = map_option (\<lambda>(b, a). (rev a, rev b)) (split_once d (rev s))"

lemma rsplit_once_Some_iff: "rsplit_once d s = Some (a, b) \<longleftrightarrow> s = a @ d # b \<and> d \<notin> set b"
proof -
  have "rsplit_once d s = Some (a, b) \<longleftrightarrow> split_once d (rev s) = Some (rev b, rev a)"
    by (auto simp: rsplit_once_def)
  also have "\<dots> \<longleftrightarrow> s = a @ d # b \<and> d \<notin> set b"
    unfolding split_once_Some_iff by (auto simp: rev_swap)
  finally show ?thesis .
qed

lemma rsplit_once_None_iff: "rsplit_once d s = None \<longleftrightarrow> d \<notin> set s"
  by (simp add: rsplit_once_def split_once_None_iff)

text \<open>\<open>split(d)\<close>: always at least one piece.\<close>

fun split_at :: "char \<Rightarrow> string \<Rightarrow> string list" where
  "split_at d [] = [[]]"
| "split_at d (c # cs) =
     (if c = d then [] # split_at d cs else (case split_at d cs of [] \<Rightarrow> [[c]] | p # ps \<Rightarrow> (c # p) # ps))"

lemma split_at_not_Nil [simp]: "split_at d s \<noteq> []"
  by (induction s) (auto split: list.splits)

lemma split_at_single: "d \<notin> set s \<Longrightarrow> split_at d s = [s]"
  by (induction s) auto

lemma split_at_append: "d \<notin> set s \<Longrightarrow> split_at d (s @ d # t) = s # split_at d t"
  by (induction s) auto

lemma split_at_pieces: "p \<in> set (split_at d s) \<Longrightarrow> d \<notin> set p"
  by (induction s arbitrary: p) (auto split: if_splits list.splits)

section \<open>Trimming\<close>

definition trim_with :: "(char \<Rightarrow> bool) \<Rightarrow> string \<Rightarrow> string" where
  "trim_with P s = rev (dropWhile P (rev (dropWhile P s)))"

definition trim_matches :: "char \<Rightarrow> string \<Rightarrow> string" where
  "trim_matches c s = trim_with (\<lambda>d. d = c) s"

lemma trim_with_id: "s = [] \<or> \<not> P (hd s) \<and> \<not> P (last s) \<Longrightarrow> trim_with P s = s"
  by (auto simp: trim_with_def hd_rev dropWhile_eq_self_iff [THEN iffD2])

lemma trim_with_none: "\<forall>c \<in> set s. \<not> P c \<Longrightarrow> trim_with P s = s"
  by (rule trim_with_id) (cases s, auto)

lemma trim_with_surround:
  assumes "\<forall>c \<in> set a. P c" and "\<forall>c \<in> set b. P c" and "\<forall>c \<in> set s. \<not> P c"
  shows "trim_with P (a @ s @ b) = s"
proof (cases "s = []")
  case True
  with assms have all: "dropWhile P (a @ s @ b) = []" by auto
  show ?thesis unfolding trim_with_def all by (simp add: True)
next
  case False
  then have s: "\<not> P (hd s)" "\<not> P (last s)" using assms(3) by auto
  have "dropWhile P (a @ s @ b) = s @ b" using assms(1) s(1) False by (simp add: dropWhile_append2) (cases s, auto)
  moreover have "dropWhile P (rev b @ rev s) = rev s"
    using assms(2) s(2) False by (subst dropWhile_append2) (auto simp: dropWhile_eq_self_iff hd_rev)
  ultimately show ?thesis by (simp add: trim_with_def)
qed

text \<open>
  \<open>trim\<close>: the UTF-8 encodings of the Unicode characters with the property White_Space are removed from both
  ends.
\<close>

definition whitespace_encodings :: "string list" where
  "whitespace_encodings = map (map char_of)
     ([[9], [10], [11], [12], [13], [32], [0xC2, 0x85], [0xC2, 0xA0], [0xE1, 0x9A, 0x80]] @
      map (\<lambda>n. [0xE2, 0x80, n]) ([0x80..<0x8B] @ [0xA8, 0xA9, 0xAF]) @ [[0xE2, 0x81, 0x9F], [0xE3, 0x80, 0x80 :: nat]])"

fun strip_any :: "string list \<Rightarrow> string \<Rightarrow> string option" where
  "strip_any [] s = None"
| "strip_any (p # ps) s = (case strip_prefix p s of None \<Rightarrow> strip_any ps s | Some t \<Rightarrow> Some t)"

lemma strip_any_shorter: "strip_any ps s = Some t \<Longrightarrow> [] \<notin> set ps \<Longrightarrow> length t < length s"
  by (induction ps) (auto simp: strip_prefix_Some_iff neq_Nil_conv split: option.splits)

lemma encodings_not_Nil: "[] \<notin> set whitespace_encodings"
  by (auto simp: whitespace_encodings_def)

function trim_start :: "string list \<Rightarrow> string \<Rightarrow> string" where
  "trim_start ps s = (if [] \<in> set ps then s else case strip_any ps s of None \<Rightarrow> s | Some t \<Rightarrow> trim_start ps t)"
  by pat_completeness auto
termination
  by (relation "measure (\<lambda>(ps, s). length s)") (auto dest: strip_any_shorter)

declare trim_start.simps [simp del]

definition trim :: "string \<Rightarrow> string" where
  "trim s = rev (trim_start (map rev whitespace_encodings) (rev (trim_start whitespace_encodings s)))"

definition is_space :: "char \<Rightarrow> bool" where
  "is_space c = (let n = of_char c :: nat in n < 33 \<or> 128 \<le> n)"

lemma strip_any_None: "s = [] \<or> \<not> is_space (hd s) \<Longrightarrow> \<forall>p \<in> set ps. p \<noteq> [] \<and> is_space (hd p) \<Longrightarrow> strip_any ps s = None"
proof (induction ps)
  case (Cons p ps)
  then have "strip_prefix p s = None" by (cases p; cases s) auto
  with Cons show ?case by simp
qed simp

lemma encodings_space: "p \<in> set whitespace_encodings \<Longrightarrow> is_space (hd p) \<and> is_space (last p) \<and> p \<noteq> []"
  by (auto simp: whitespace_encodings_def is_space_def of_char_of)

text \<open>A string that starts and ends with visible ASCII characters is its own trimming.\<close>

lemma trim_id:
  assumes "s = [] \<or> \<not> is_space (hd s) \<and> \<not> is_space (last s)"
  shows "trim s = s"
proof -
  have "trim_start whitespace_encodings s = s"
    using assms strip_any_None [of s whitespace_encodings] encodings_space by (subst trim_start.simps) auto
  moreover have "trim_start (map rev whitespace_encodings) (rev s) = rev s"
    using assms strip_any_None [of "rev s" "map rev whitespace_encodings"] encodings_space
    by (subst trim_start.simps) (auto simp: hd_rev)
  ultimately show ?thesis by (simp add: trim_def)
qed

section \<open>Numbers\<close>

definition to_digit :: "nat \<Rightarrow> char \<Rightarrow> nat option" where
  "to_digit radix c =
     (let n = of_char c :: nat;
          d = (if 48 \<le> n \<and> n \<le> 57 then n - 48
               else if 97 \<le> n \<and> n \<le> 122 then n - 87
               else if 65 \<le> n \<and> n \<le> 90 then n - 55 else radix)
      in if d < radix then Some d else None)"

fun digits_value :: "nat \<Rightarrow> nat \<Rightarrow> string \<Rightarrow> nat option" where
  "digits_value radix acc [] = Some acc"
| "digits_value radix acc (c # cs) =
     (case to_digit radix c of None \<Rightarrow> None | Some d \<Rightarrow> digits_value radix (acc * radix + d) cs)"

text \<open>
  \<open>from_str_radix\<close> of an unsigned type of \<open>w\<close> bits: a plus sign may precede the digits, of which there is at
  least one, and the value must fit.
\<close>

definition from_str_radix :: "nat \<Rightarrow> nat \<Rightarrow> string \<Rightarrow> nat option" where
  "from_str_radix w radix s =
     (let digits = (if s \<noteq> [] \<and> hd s = CHR ''+'' then tl s else s)
      in if digits = [] then None
         else case digits_value radix 0 digits of None \<Rightarrow> None | Some n \<Rightarrow> if n < 2 ^ w then Some n else None)"

definition parse_u64 :: "string \<Rightarrow> u64 option" where
  "parse_u64 s = map_option of_nat (from_str_radix 64 10 s)"

lemma digits_value_append:
  "digits_value r acc (s @ t) = (case digits_value r acc s of None \<Rightarrow> None | Some n \<Rightarrow> digits_value r n t)"
  by (induction s arbitrary: acc) (auto split: option.splits)

lemma of_char_of_small: "n < 256 \<Longrightarrow> (of_char (char_of n :: char) :: nat) = n"
  by (simp add: of_char_of)

lemma to_digit_dec: "d < 10 \<Longrightarrow> to_digit 10 (digit_char d) = Some d"
  by (simp add: to_digit_def digit_char_def of_char_of_small)

lemma to_digit_hex: "d < 16 \<Longrightarrow> to_digit 16 (hex_char d) = Some d"
  by (auto simp: to_digit_def hex_char_def of_char_of_small)

lemma digits_value_dec: "digits_value 10 0 (dec_of_nat n) = Some n"
proof (induction n rule: dec_of_nat.induct)
  case (1 n)
  show ?case
  proof (cases "n < 10")
    case True
    then show ?thesis by (simp add: dec_of_nat.simps [of n] to_digit_dec)
  next
    case False
    with 1 show ?thesis by (simp add: dec_of_nat.simps [of n] digits_value_append to_digit_dec)
  qed
qed

lemma digits_value_hex: "digits_value 16 0 (hex_of_nat n) = Some n"
proof (induction n rule: hex_of_nat.induct)
  case (1 n)
  show ?case
  proof (cases "n < 16")
    case True
    then show ?thesis by (simp add: hex_of_nat.simps [of n] to_digit_hex)
  next
    case False
    with 1 show ?thesis by (simp add: hex_of_nat.simps [of n] digits_value_append to_digit_hex)
  qed
qed

lemma dec_of_nat_digits: "c \<in> set (dec_of_nat n) \<Longrightarrow> is_ascii_digit c"
proof (induction n rule: dec_of_nat.induct)
  case (1 n)
  have "is_ascii_digit (digit_char d)" if "d < 10" for d
    using that by (simp add: is_ascii_digit_def digit_char_def of_char_of_small)
  with 1 show ?case by (subst (asm) (2) dec_of_nat.simps) (auto split: if_splits)
qed

lemma dec_of_nat_not_Nil [simp]: "dec_of_nat n \<noteq> []"
  by (subst dec_of_nat.simps) simp

lemma hex_of_nat_not_Nil [simp]: "hex_of_nat n \<noteq> []"
  by (subst hex_of_nat.simps) simp

lemma from_str_radix_digits:
  "digits_value radix 0 s = Some n \<Longrightarrow> s \<noteq> [] \<Longrightarrow> to_digit radix (CHR ''+'') = None \<Longrightarrow> n < 2 ^ w \<Longrightarrow>
     from_str_radix w radix s = Some n"
  by (cases s) (auto simp: from_str_radix_def split: option.splits)

lemma plus_no_digit [simp]: "to_digit 10 (CHR ''+'') = None" "to_digit 16 (CHR ''+'') = None"
  by (simp_all add: to_digit_def)

lemma parse_u64_dec [simp]: "parse_u64 (dec_of_nat (unat n)) = Some n"
proof -
  have "from_str_radix 64 10 (dec_of_nat (unat n)) = Some (unat n)"
    using unsigned_less [of n] by (intro from_str_radix_digits [OF digits_value_dec]) simp_all
  then show ?thesis by (simp add: parse_u64_def)
qed

section \<open>UTF-8\<close>

definition cont_byte :: "u8 \<Rightarrow> bool" where
  "cont_byte b \<longleftrightarrow> 0x80 \<le> b \<and> b \<le> 0xBF"

text \<open>\<open>str::from_utf8\<close> accepts exactly the well-formed byte sequences.\<close>

fun utf8_valid :: "bytes \<Rightarrow> bool" where
  "utf8_valid [] \<longleftrightarrow> True"
| "utf8_valid (b # bs) \<longleftrightarrow>
     (if b < 0x80 then utf8_valid bs
      else if 0xC2 \<le> b \<and> b \<le> 0xDF
      then (case bs of c # cs \<Rightarrow> cont_byte c \<and> utf8_valid cs | _ \<Rightarrow> False)
      else if 0xE0 \<le> b \<and> b \<le> 0xEF
      then (case bs of c # d # cs \<Rightarrow>
              cont_byte c \<and> cont_byte d \<and> (b = 0xE0 \<longrightarrow> 0xA0 \<le> c) \<and> (b = 0xED \<longrightarrow> c \<le> 0x9F) \<and> utf8_valid cs
            | _ \<Rightarrow> False)
      else if 0xF0 \<le> b \<and> b \<le> 0xF4
      then (case bs of c # d # e # cs \<Rightarrow>
              cont_byte c \<and> cont_byte d \<and> cont_byte e \<and> (b = 0xF0 \<longrightarrow> 0x90 \<le> c) \<and> (b = 0xF4 \<longrightarrow> c \<le> 0x8F) \<and> utf8_valid cs
            | _ \<Rightarrow> False)
      else False)"

definition string_of_bytes :: "bytes \<Rightarrow> string" where
  "string_of_bytes bs = map (\<lambda>b. char_of (unat b)) bs"

definition bytes_of_string :: "string \<Rightarrow> bytes" where
  "bytes_of_string s = map (\<lambda>c. of_nat (of_char c)) s"

definition from_utf8 :: "bytes \<Rightarrow> string option" where
  "from_utf8 bs = (if utf8_valid bs then Some (string_of_bytes bs) else None)"

lemma string_of_bytes_of_string [simp]: "string_of_bytes (bytes_of_string s) = s"
proof -
  have "char_of (unat (of_nat (of_char c) :: u8)) = (c :: char)" for c
  proof -
    have "(of_char c :: nat) mod 256 = of_char c" by (metis char_of_char of_char_of)
    then show ?thesis by (simp add: unat_of_nat)
  qed
  then show ?thesis by (simp add: string_of_bytes_def bytes_of_string_def comp_def map_idI)
qed

lemma utf8_valid_ascii: "\<forall>b \<in> set bs. b < 0x80 \<Longrightarrow> utf8_valid bs"
  by (induction bs) auto

end
