(* ===== verification/Identity.thy ===== *)
theory Identity
  imports Rust_Strings
begin

text \<open>
  Structured identities of the authentication layer (\<^verbatim>\<open>crates/auth/src/identity.rs\<close> and the account helpers of
  \<^verbatim>\<open>crates/s3-types/src/lib.rs\<close>). A validated string type is the string itself; its constructor returns the error
  of a rejected value.
\<close>

section \<open>Account identifiers\<close>

definition AWS_ACCOUNT_ID_LEN :: nat where "AWS_ACCOUNT_ID_LEN = 12"

definition is_valid_aws_account_id :: "string \<Rightarrow> bool" where
  "is_valid_aws_account_id account_id \<longleftrightarrow> length account_id = AWS_ACCOUNT_ID_LEN \<and> list_all is_ascii_digit account_id"

definition aws_account_id_from_principal :: "string \<Rightarrow> string option" where
  "aws_account_id_from_principal who =
     (if is_valid_aws_account_id who then Some who
      else case strip_prefix ''arn:'' who of
             None \<Rightarrow> None
           | Some rest \<Rightarrow>
               (case split_at (CHR '':'') rest of
                  part # service # region # account_id # resource # _ \<Rightarrow>
                    if service \<noteq> ''iam'' then None
                    else if is_valid_aws_account_id account_id then Some account_id else None
                | _ \<Rightarrow> None))"

record AccountIdentity =
  account_principal :: string
  canonical_user_id :: string
  display_name :: string

definition AccountIdentity_account_id :: "AccountIdentity \<Rightarrow> string option" where
  "AccountIdentity_account_id self = aws_account_id_from_principal (account_principal self)"

section \<open>Validated names\<close>

datatype IdentityError =
    InvalidAccountId
  | InvalidStableRoleId
  | InvalidRoleName
  | InvalidRoleArn
  | InvalidIamPath
  | InvalidSourceIdentity
  | InvalidSessionLifetime
  | AccountMismatch

datatype RoleSessionNameError =
    TooShort
  | TooLong
  | InvalidCharacter
  | TooShortAndInvalidCharacter
  | TooLongAndInvalidCharacter

type_synonym AwsAccountId = string
type_synonym StableRoleId = string
type_synonym RoleName = string
type_synonym IamPath = string
type_synonym RoleSessionName = string
type_synonym SourceIdentity = string
type_synonym IamRoleArn = string
type_synonym IamUserArn = string

definition STABLE_ROLE_ID_PREFIX :: string where "STABLE_ROLE_ID_PREFIX = ''ARGR''"
definition GENERATED_ID_SUFFIX_LEN :: nat where "GENERATED_ID_SUFFIX_LEN = 20"
definition STABLE_ROLE_ID_LEN :: nat where
  "STABLE_ROLE_ID_LEN = length STABLE_ROLE_ID_PREFIX + GENERATED_ID_SUFFIX_LEN"
definition ROLE_NAME_MAX_LEN :: nat where "ROLE_NAME_MAX_LEN = 64"
definition IAM_PATH_MAX_LEN :: nat where "IAM_PATH_MAX_LEN = 512"
definition ROLE_SESSION_NAME_MIN_LEN :: nat where "ROLE_SESSION_NAME_MIN_LEN = 2"
definition ROLE_SESSION_NAME_MAX_LEN :: nat where "ROLE_SESSION_NAME_MAX_LEN = 64"
definition SOURCE_IDENTITY_MIN_LEN :: nat where "SOURCE_IDENTITY_MIN_LEN = 2"
definition SOURCE_IDENTITY_MAX_LEN :: nat where "SOURCE_IDENTITY_MAX_LEN = 256"

definition AwsAccountId_new :: "string \<Rightarrow> (IdentityError, AwsAccountId) result" where
  "AwsAccountId_new value = (if \<not> is_valid_aws_account_id value then Inl InvalidAccountId else Inr value)"

definition StableRoleId_new :: "string \<Rightarrow> (IdentityError, StableRoleId) result" where
  "StableRoleId_new value =
     (if length value = STABLE_ROLE_ID_LEN \<and> take (length STABLE_ROLE_ID_PREFIX) value = STABLE_ROLE_ID_PREFIX \<and>
         list_all (\<lambda>c. is_ascii_uppercase c \<or> is_ascii_digit c) (drop (length STABLE_ROLE_ID_PREFIX) value)
      then Inr value else Inl InvalidStableRoleId)"

definition is_iam_name_byte :: "char \<Rightarrow> bool" where
  "is_iam_name_byte c \<longleftrightarrow> is_ascii_alphanumeric c \<or> c \<in> set ''_+=,.@-''"

definition RoleName_new :: "string \<Rightarrow> (IdentityError, RoleName) result" where
  "RoleName_new value =
     (if value = [] \<or> ROLE_NAME_MAX_LEN < length value \<or> \<not> list_all is_iam_name_byte value
      then Inl InvalidRoleName else Inr value)"

definition is_path_byte :: "char \<Rightarrow> bool" where
  "is_path_byte c = (let n = of_char c :: nat in 0x21 \<le> n \<and> n \<le> 0x7e)"

definition IamPath_new :: "string \<Rightarrow> (IdentityError, IamPath) result" where
  "IamPath_new value =
     (if value = ''/'' \<or>
         (3 \<le> length value \<and> length value \<le> IAM_PATH_MAX_LEN \<and> starts_with (CHR ''/'') value \<and> ends_with (CHR ''/'') value \<and>
          list_all is_path_byte (butlast (tl value)))
      then Inr value else Inl InvalidIamPath)"

definition RoleSessionName_new :: "string \<Rightarrow> (RoleSessionNameError, RoleSessionName) result" where
  "RoleSessionName_new value =
     (let invalid_character = (\<not> list_all is_iam_name_byte value) in
      if length (chars value) < ROLE_SESSION_NAME_MIN_LEN
      then Inl (if invalid_character then TooShortAndInvalidCharacter else TooShort)
      else if ROLE_SESSION_NAME_MAX_LEN < length (chars value)
      then Inl (if invalid_character then TooLongAndInvalidCharacter else TooLong)
      else if invalid_character then Inl InvalidCharacter
      else Inr value)"

definition SourceIdentity_new :: "string \<Rightarrow> (IdentityError, SourceIdentity) result" where
  "SourceIdentity_new value =
     (if \<not> (SOURCE_IDENTITY_MIN_LEN \<le> length (chars value) \<and> length (chars value) \<le> SOURCE_IDENTITY_MAX_LEN) \<or>
         \<not> list_all is_iam_name_byte value
      then Inl InvalidSourceIdentity else Inr value)"

section \<open>Principal ARNs\<close>

datatype IamPrincipalArnKind = Root | User | Role

record ParsedIamPrincipalArn =
  parsed_account_id :: AwsAccountId
  parsed_kind :: IamPrincipalArnKind

definition valid_iam_principal_name_and_path :: "string \<Rightarrow> bool" where
  "valid_iam_principal_name_and_path value =
     (if value = [] \<or> starts_with (CHR ''/'') value \<or> ends_with (CHR ''/'') value \<or>
         list_ex (\<lambda>c. c = CHR ''*'' \<or> c = CHR ''?'') value
      then False
      else
        let (path, name) = (case rsplit_once (CHR ''/'') value of None \<Rightarrow> ([], value) | Some parts \<Rightarrow> parts)
        in case RoleName_new name of
             Inl _ \<Rightarrow> False
           | Inr _ \<Rightarrow> path = [] \<or> (case IamPath_new (''/'' @ path @ ''/'') of Inl _ \<Rightarrow> False | Inr _ \<Rightarrow> True))"

definition strips_to_valid_name :: "string \<Rightarrow> string \<Rightarrow> bool" where
  "strips_to_valid_name prefix qualifier =
     (case strip_prefix prefix qualifier of None \<Rightarrow> False | Some rest \<Rightarrow> valid_iam_principal_name_and_path rest)"

definition parse_iam_principal_arn :: "string \<Rightarrow> ParsedIamPrincipalArn option" where
  "parse_iam_principal_arn value =
     (case strip_prefix ''arn:aws:iam::'' value of
        None \<Rightarrow> None
      | Some rest \<Rightarrow>
     (case split_once (CHR '':'') rest of
        None \<Rightarrow> None
      | Some (account_id, qualifier) \<Rightarrow>
     (case AwsAccountId_new account_id of
        Inl _ \<Rightarrow> None
      | Inr account_id \<Rightarrow>
          if qualifier = ''root'' then Some \<lparr>parsed_account_id = account_id, parsed_kind = Root\<rparr>
          else if strips_to_valid_name ''user/'' qualifier then Some \<lparr>parsed_account_id = account_id, parsed_kind = User\<rparr>
          else if strips_to_valid_name ''role/'' qualifier then Some \<lparr>parsed_account_id = account_id, parsed_kind = Role\<rparr>
          else None)))"

definition IamUserArn_from_configured_principal :: "string \<Rightarrow> string option \<Rightarrow> IamUserArn option" where
  "IamUserArn_from_configured_principal value expected_account_id =
     (case parse_iam_principal_arn value of
        None \<Rightarrow> None
      | Some parsed \<Rightarrow>
          if parsed_kind parsed \<noteq> User \<or> expected_account_id \<noteq> Some (parsed_account_id parsed) then None else Some value)"

definition IamRoleArn_new :: "string \<Rightarrow> (IdentityError, IamRoleArn) result" where
  "IamRoleArn_new value =
     (case parse_iam_principal_arn value of
        None \<Rightarrow> Inl InvalidRoleArn
      | Some parsed \<Rightarrow> if parsed_kind parsed \<noteq> Role then Inl InvalidRoleArn else Inr value)"

section \<open>Roles and sessions\<close>

record IamRoleIdentity =
  role_account_id :: AwsAccountId
  role_stable_id :: StableRoleId
  role_name :: RoleName
  role_path :: IamPath
  role_arn :: IamRoleArn

definition IamRoleIdentity_new :: "AwsAccountId \<Rightarrow> StableRoleId \<Rightarrow> RoleName \<Rightarrow> IamPath \<Rightarrow> IamRoleIdentity" where
  "IamRoleIdentity_new account_id stable_id name path =
     \<lparr>role_account_id = account_id, role_stable_id = stable_id, role_name = name, role_path = path,
      role_arn = ''arn:aws:iam::'' @ account_id @ '':role'' @ path @ name\<rparr>"

record LiveRoleIdentity =
  live_account :: AccountIdentity
  live_role :: IamRoleIdentity

definition LiveRoleIdentity_new :: "AccountIdentity \<Rightarrow> IamRoleIdentity \<Rightarrow> (IdentityError, LiveRoleIdentity) result" where
  "LiveRoleIdentity_new account role =
     (if AccountIdentity_account_id account \<noteq> Some (role_account_id role) then Inl AccountMismatch
      else Inr \<lparr>live_account = account, live_role = role\<rparr>)"

record SessionLifetime =
  issued_at_epoch_secs :: int
  expires_at_epoch_secs :: int

definition SessionLifetime_new :: "int \<Rightarrow> int \<Rightarrow> (IdentityError, SessionLifetime) result" where
  "SessionLifetime_new issued_at expires_at =
     (if issued_at < 0 \<or> expires_at \<le> issued_at then Inl InvalidSessionLifetime
      else Inr \<lparr>issued_at_epoch_secs = issued_at, expires_at_epoch_secs = expires_at\<rparr>)"

datatype SessionAuthorizationContext = Version1NoSessionPolicy

record AssumedRoleSessionIdentity =
  session_role :: IamRoleIdentity
  session_name :: RoleSessionName
  session_lifetime :: SessionLifetime
  source_identity :: "SourceIdentity option"
  session_arn :: string
  assumed_role_id :: string
  authorization_context :: SessionAuthorizationContext

definition AssumedRoleSessionIdentity_new ::
  "IamRoleIdentity \<Rightarrow> RoleSessionName \<Rightarrow> SessionLifetime \<Rightarrow> SourceIdentity option \<Rightarrow> AssumedRoleSessionIdentity" where
  "AssumedRoleSessionIdentity_new role name lifetime source =
     \<lparr>session_role = role, session_name = name, session_lifetime = lifetime, source_identity = source,
      session_arn = ''arn:aws:sts::'' @ role_account_id role @ '':assumed-role/'' @ role_name role @ ''/'' @ name,
      assumed_role_id = role_stable_id role @ '':'' @ name,
      authorization_context = Version1NoSessionPolicy\<rparr>"

type_synonym ConfiguredPrincipalIdentity = string

datatype PrincipalIdentity =
    Configured ConfiguredPrincipalIdentity "IamUserArn option"
  | AssumedRoleSession AssumedRoleSessionIdentity

record AuthenticatedIdentity =
  identity_account :: AccountIdentity
  identity_principal :: PrincipalIdentity

definition AuthenticatedIdentity_configured ::
  "AccountIdentity \<Rightarrow> ConfiguredPrincipalIdentity \<Rightarrow> AuthenticatedIdentity" where
  "AuthenticatedIdentity_configured account who =
     \<lparr>identity_account = account,
      identity_principal =
        Configured who (IamUserArn_from_configured_principal who (AccountIdentity_account_id account))\<rparr>"

definition assumed_role_session ::
  "AccountIdentity \<Rightarrow> AssumedRoleSessionIdentity \<Rightarrow> (IdentityError, AuthenticatedIdentity) result" where
  "assumed_role_session account session =
     (if AccountIdentity_account_id account \<noteq> Some (role_account_id (session_role session)) then Inl AccountMismatch
      else Inr \<lparr>identity_account = account, identity_principal = AssumedRoleSession session\<rparr>)"

fun principal_of :: "PrincipalIdentity \<Rightarrow> ConfiguredPrincipalIdentity option" where
  "principal_of (Configured who _) = Some who"
| "principal_of (AssumedRoleSession _) = None"

fun user_arn_of :: "PrincipalIdentity \<Rightarrow> IamUserArn option" where
  "user_arn_of (Configured _ arn) = arn"
| "user_arn_of (AssumedRoleSession _) = None"

fun role_session_of :: "PrincipalIdentity \<Rightarrow> AssumedRoleSessionIdentity option" where
  "role_session_of (Configured _ _) = None"
| "role_session_of (AssumedRoleSession session) = Some session"

definition configured_principal :: "AuthenticatedIdentity \<Rightarrow> ConfiguredPrincipalIdentity option" where
  "configured_principal self = principal_of (identity_principal self)"

definition configured_iam_user_arn :: "AuthenticatedIdentity \<Rightarrow> IamUserArn option" where
  "configured_iam_user_arn self = user_arn_of (identity_principal self)"

definition role_session :: "AuthenticatedIdentity \<Rightarrow> AssumedRoleSessionIdentity option" where
  "role_session self = role_session_of (identity_principal self)"

definition role_principal_arn :: "AuthenticatedIdentity \<Rightarrow> IamRoleArn option" where
  "role_principal_arn self = map_option (\<lambda>session. role_arn (session_role session)) (role_session self)"

definition session_principal_arn :: "AuthenticatedIdentity \<Rightarrow> string option" where
  "session_principal_arn self = map_option session_arn (role_session self)"

definition aws_userid :: "AuthenticatedIdentity \<Rightarrow> string option" where
  "aws_userid self = map_option assumed_role_id (role_session self)"

end
