(* ===== verification/Policy_Action.thy ===== *)
theory Policy_Action
  imports Main
begin

text \<open>
  The S3 actions a policy can name (\<^verbatim>\<open>crates/auth/src/bucket_policy.rs\<close>), with the lists of bucket and object
  actions.
\<close>

datatype PolicyAction =
    DeleteBucket
  | GetBucketPolicy
  | PutBucketPolicy
  | DeleteBucketPolicy
  | GetBucketLocation
  | GetBucketCors
  | GetBucketAcl
  | GetBucketVersioning
  | GetBucketOwnershipControls
  | GetBucketTagging
  | GetEncryptionConfiguration
  | GetLifecycleConfiguration
  | GetBucketPolicyStatus
  | GetBucketPublicAccessBlock
  | GetBucketObjectLockConfiguration
  | ListBucket
  | ListBucketVersions
  | ListBucketMultipartUploads
  | PutBucketAcl
  | PutBucketCors
  | PutBucketVersioning
  | PutBucketOwnershipControls
  | PutBucketTagging
  | PutEncryptionConfiguration
  | PutLifecycleConfiguration
  | PutBucketPublicAccessBlock
  | PutBucketObjectLockConfiguration
  | ListTagsForResource
  | TagResource
  | UntagResource
  | GetObject
  | GetObjectVersion
  | GetObjectAttributes
  | GetObjectVersionAttributes
  | GetObjectAcl
  | GetObjectVersionAcl
  | GetObjectTagging
  | GetObjectVersionTagging
  | GetObjectRetention
  | GetObjectLegalHold
  | PutObject
  | PutObjectAcl
  | PutObjectVersionAcl
  | PutObjectTagging
  | PutObjectVersionTagging
  | PutObjectRetention
  | PutObjectLegalHold
  | BypassGovernanceRetention
  | AbortMultipartUpload
  | DeleteObject
  | DeleteObjectVersion
  | DeleteObjectTagging
  | DeleteObjectVersionTagging

fun PolicyAction_as_str :: "PolicyAction \<Rightarrow> string" where
  "PolicyAction_as_str DeleteBucket = ''s3:DeleteBucket''"
| "PolicyAction_as_str GetBucketPolicy = ''s3:GetBucketPolicy''"
| "PolicyAction_as_str PutBucketPolicy = ''s3:PutBucketPolicy''"
| "PolicyAction_as_str DeleteBucketPolicy = ''s3:DeleteBucketPolicy''"
| "PolicyAction_as_str GetBucketLocation = ''s3:GetBucketLocation''"
| "PolicyAction_as_str GetBucketCors = ''s3:GetBucketCORS''"
| "PolicyAction_as_str GetBucketAcl = ''s3:GetBucketAcl''"
| "PolicyAction_as_str GetBucketVersioning = ''s3:GetBucketVersioning''"
| "PolicyAction_as_str GetBucketOwnershipControls = ''s3:GetBucketOwnershipControls''"
| "PolicyAction_as_str GetBucketTagging = ''s3:GetBucketTagging''"
| "PolicyAction_as_str GetEncryptionConfiguration = ''s3:GetEncryptionConfiguration''"
| "PolicyAction_as_str GetLifecycleConfiguration = ''s3:GetLifecycleConfiguration''"
| "PolicyAction_as_str GetBucketPolicyStatus = ''s3:GetBucketPolicyStatus''"
| "PolicyAction_as_str GetBucketPublicAccessBlock = ''s3:GetBucketPublicAccessBlock''"
| "PolicyAction_as_str GetBucketObjectLockConfiguration = ''s3:GetBucketObjectLockConfiguration''"
| "PolicyAction_as_str ListBucket = ''s3:ListBucket''"
| "PolicyAction_as_str ListBucketVersions = ''s3:ListBucketVersions''"
| "PolicyAction_as_str ListBucketMultipartUploads = ''s3:ListBucketMultipartUploads''"
| "PolicyAction_as_str PutBucketAcl = ''s3:PutBucketAcl''"
| "PolicyAction_as_str PutBucketCors = ''s3:PutBucketCORS''"
| "PolicyAction_as_str PutBucketVersioning = ''s3:PutBucketVersioning''"
| "PolicyAction_as_str PutBucketOwnershipControls = ''s3:PutBucketOwnershipControls''"
| "PolicyAction_as_str PutBucketTagging = ''s3:PutBucketTagging''"
| "PolicyAction_as_str PutEncryptionConfiguration = ''s3:PutEncryptionConfiguration''"
| "PolicyAction_as_str PutLifecycleConfiguration = ''s3:PutLifecycleConfiguration''"
| "PolicyAction_as_str PutBucketPublicAccessBlock = ''s3:PutBucketPublicAccessBlock''"
| "PolicyAction_as_str PutBucketObjectLockConfiguration = ''s3:PutBucketObjectLockConfiguration''"
| "PolicyAction_as_str ListTagsForResource = ''s3:ListTagsForResource''"
| "PolicyAction_as_str TagResource = ''s3:TagResource''"
| "PolicyAction_as_str UntagResource = ''s3:UntagResource''"
| "PolicyAction_as_str GetObject = ''s3:GetObject''"
| "PolicyAction_as_str GetObjectVersion = ''s3:GetObjectVersion''"
| "PolicyAction_as_str GetObjectAttributes = ''s3:GetObjectAttributes''"
| "PolicyAction_as_str GetObjectVersionAttributes = ''s3:GetObjectVersionAttributes''"
| "PolicyAction_as_str GetObjectAcl = ''s3:GetObjectAcl''"
| "PolicyAction_as_str GetObjectVersionAcl = ''s3:GetObjectVersionAcl''"
| "PolicyAction_as_str GetObjectTagging = ''s3:GetObjectTagging''"
| "PolicyAction_as_str GetObjectVersionTagging = ''s3:GetObjectVersionTagging''"
| "PolicyAction_as_str GetObjectRetention = ''s3:GetObjectRetention''"
| "PolicyAction_as_str GetObjectLegalHold = ''s3:GetObjectLegalHold''"
| "PolicyAction_as_str PutObject = ''s3:PutObject''"
| "PolicyAction_as_str PutObjectAcl = ''s3:PutObjectAcl''"
| "PolicyAction_as_str PutObjectVersionAcl = ''s3:PutObjectVersionAcl''"
| "PolicyAction_as_str PutObjectTagging = ''s3:PutObjectTagging''"
| "PolicyAction_as_str PutObjectVersionTagging = ''s3:PutObjectVersionTagging''"
| "PolicyAction_as_str PutObjectRetention = ''s3:PutObjectRetention''"
| "PolicyAction_as_str PutObjectLegalHold = ''s3:PutObjectLegalHold''"
| "PolicyAction_as_str BypassGovernanceRetention = ''s3:BypassGovernanceRetention''"
| "PolicyAction_as_str AbortMultipartUpload = ''s3:AbortMultipartUpload''"
| "PolicyAction_as_str DeleteObject = ''s3:DeleteObject''"
| "PolicyAction_as_str DeleteObjectVersion = ''s3:DeleteObjectVersion''"
| "PolicyAction_as_str DeleteObjectTagging = ''s3:DeleteObjectTagging''"
| "PolicyAction_as_str DeleteObjectVersionTagging = ''s3:DeleteObjectVersionTagging''"

definition SUPPORTED_BUCKET_POLICY_BUCKET_ACTIONS :: "PolicyAction list" where
  "SUPPORTED_BUCKET_POLICY_BUCKET_ACTIONS =
     [DeleteBucket, GetBucketPolicy, PutBucketPolicy, DeleteBucketPolicy,
      GetBucketLocation, GetBucketCors, GetBucketAcl, GetBucketVersioning,
      GetBucketOwnershipControls, GetBucketTagging, GetEncryptionConfiguration, GetLifecycleConfiguration,
      GetBucketPolicyStatus, GetBucketPublicAccessBlock, GetBucketObjectLockConfiguration, ListBucket,
      ListBucketVersions, ListBucketMultipartUploads, PutBucketAcl, PutBucketCors,
      PutBucketVersioning, PutBucketOwnershipControls, PutBucketTagging, PutEncryptionConfiguration,
      PutLifecycleConfiguration, PutBucketPublicAccessBlock, PutBucketObjectLockConfiguration, ListTagsForResource,
      TagResource, UntagResource]"

definition SUPPORTED_BUCKET_POLICY_OBJECT_ACTIONS :: "PolicyAction list" where
  "SUPPORTED_BUCKET_POLICY_OBJECT_ACTIONS =
     [GetObject, GetObjectVersion, GetObjectAttributes, GetObjectVersionAttributes,
      GetObjectAcl, GetObjectVersionAcl, GetObjectTagging, GetObjectVersionTagging,
      GetObjectRetention, GetObjectLegalHold, PutObject, PutObjectAcl,
      PutObjectVersionAcl, PutObjectTagging, PutObjectVersionTagging, PutObjectRetention,
      PutObjectLegalHold, BypassGovernanceRetention, AbortMultipartUpload, DeleteObject,
      DeleteObjectVersion, DeleteObjectTagging, DeleteObjectVersionTagging]"

end
