(* ===== verification/Policy.thy ===== *)
theory Policy
  imports Identity Policy_Action
begin

text \<open>
  The policy language: wildcard patterns and shared statement parts (\<^verbatim>\<open>crates/auth/src/policy.rs\<close>), the actions of
  \<^verbatim>\<open>crates/auth/src/bucket_policy.rs\<close> and the typed identity, session and trust policies of
  \<^verbatim>\<open>crates/auth/src/iam_policy.rs\<close>.
\<close>

section \<open>Wildcard patterns\<close>

record PolicyValue =
  pattern_value :: string
  escaped_wildcards :: "nat list"

definition PolicyValue_literal :: "string \<Rightarrow> PolicyValue" where
  "PolicyValue_literal s = \<lparr>pattern_value = s, escaped_wildcards = []\<rparr>"

definition push_pattern_fragment :: "PolicyValue \<Rightarrow> string \<Rightarrow> PolicyValue" where
  "push_pattern_fragment self s = self\<lparr>pattern_value := pattern_value self @ s\<rparr>"

definition push_literal_asterisk :: "PolicyValue \<Rightarrow> PolicyValue" where
  "push_literal_asterisk self =
     \<lparr>pattern_value = pattern_value self @ ''*'',
      escaped_wildcards = escaped_wildcards self @ [length (chars (pattern_value self))]\<rparr>"

definition push_literal_question_mark :: "PolicyValue \<Rightarrow> PolicyValue" where
  "push_literal_question_mark self =
     \<lparr>pattern_value = pattern_value self @ ''?'',
      escaped_wildcards = escaped_wildcards self @ [length (chars (pattern_value self))]\<rparr>"

text \<open>
  \<open>binary_search\<close> over positions \<open>lo..<hi\<close>; on a sorted list it finds the element exactly when it is there.
\<close>

function binary_search :: "nat list \<Rightarrow> nat \<Rightarrow> nat \<Rightarrow> nat \<Rightarrow> bool" where
  "binary_search xs x lo hi =
     (if hi \<le> lo then False
      else let mid = lo + (hi - lo) div 2
           in if xs ! mid = x then True
              else if xs ! mid < x then binary_search xs x (Suc mid) hi
              else binary_search xs x lo mid)"
  by pat_completeness auto
termination
  by (relation "measure (\<lambda>(xs, x, lo, hi). hi - lo)") (auto simp: Let_def)

declare binary_search.simps [simp del]

definition wildcard_is_escaped :: "PolicyValue \<Rightarrow> nat \<Rightarrow> bool" where
  "wildcard_is_escaped self char_index =
     binary_search (escaped_wildcards self) char_index 0 (length (escaped_wildcards self))"

definition asterisk_row :: "bool list \<Rightarrow> nat \<Rightarrow> bool list" where
  "asterisk_row previous n =
     fold (\<lambda>index current. current[index := previous ! index \<or> current ! (index - 1)]) [1..<n + 1]
       ((replicate (n + 1) False)[0 := previous ! 0])"

definition question_row :: "bool list \<Rightarrow> nat \<Rightarrow> bool list" where
  "question_row previous n = take 1 (replicate (n + 1) False) @ take n previous"

definition literal_row :: "string \<Rightarrow> bool list \<Rightarrow> string list \<Rightarrow> bool list" where
  "literal_row ch previous v =
     fold (\<lambda>(index, actual) current. if actual = ch \<and> previous ! index then current[index + 1 := True] else current)
       (enumerate 0 v) (replicate (length v + 1) False)"

definition wildcard_row :: "PolicyValue \<Rightarrow> string list \<Rightarrow> nat \<times> string \<Rightarrow> bool list \<Rightarrow> bool list" where
  "wildcard_row pattern v = (\<lambda>(index, ch) previous.
     if ch = ''*'' \<and> \<not> wildcard_is_escaped pattern index then asterisk_row previous (length v)
     else if ch = ''?'' \<and> \<not> wildcard_is_escaped pattern index then question_row previous (length v)
     else literal_row ch previous v)"

definition policy_value_wildcard_matches :: "PolicyValue \<Rightarrow> string \<Rightarrow> bool" where
  "policy_value_wildcard_matches pattern s =
     (let v = chars s in
      fold (wildcard_row pattern v) (enumerate 0 (chars (pattern_value pattern))) ((replicate (length v + 1) False)[0 := True]) !
        length v)"

definition wildcard_matches :: "string \<Rightarrow> string \<Rightarrow> bool" where
  "wildcard_matches pattern v = policy_value_wildcard_matches (PolicyValue_literal pattern) v"

definition action_pattern_matches :: "string \<Rightarrow> string \<Rightarrow> bool" where
  "action_pattern_matches pattern action = wildcard_matches (to_ascii_lowercase pattern) (to_ascii_lowercase action)"

section \<open>Statements\<close>

datatype PolicyEvaluation = ExplicitDeny | ExplicitAllow | NoMatch

datatype PolicyVersion = V2008_10_17 | V2012_10_17

fun PolicyVersion_as_str :: "PolicyVersion \<Rightarrow> string" where
  "PolicyVersion_as_str V2008_10_17 = ''2008-10-17''"
| "PolicyVersion_as_str V2012_10_17 = ''2012-10-17''"

datatype PolicyEffect = Allow | Deny

fun PolicyEffect_as_str :: "PolicyEffect \<Rightarrow> string" where
  "PolicyEffect_as_str Allow = ''Allow''"
| "PolicyEffect_as_str Deny = ''Deny''"

record PolicyConditionClause =
  operator :: string
  condition_key :: string
  condition_values :: "string list"

record PolicyStatementCore =
  sid :: "string option"
  effect :: PolicyEffect
  actions :: "string list"
  conditions :: "PolicyConditionClause list"

definition PolicyStatementCore_new ::
  "string option \<Rightarrow> PolicyEffect \<Rightarrow> string list \<Rightarrow> PolicyConditionClause list \<Rightarrow> PolicyStatementCore" where
  "PolicyStatementCore_new s e as cs = \<lparr>sid = s, effect = e, actions = as, conditions = cs\<rparr>"

section \<open>Supported action patterns\<close>

definition policy_action_pattern_is_supported :: "string \<Rightarrow> bool" where
  "policy_action_pattern_is_supported pattern =
     list_ex (\<lambda>action. action_pattern_matches pattern (PolicyAction_as_str action))
       (SUPPORTED_BUCKET_POLICY_BUCKET_ACTIONS @ SUPPORTED_BUCKET_POLICY_OBJECT_ACTIONS)"

end
