(* ===== verification/Iam_Policy.thy ===== *)
theory Iam_Policy
  imports Policy
begin

text \<open>
  Typed identity, session and trust policies (\<^verbatim>\<open>crates/auth/src/iam_policy.rs\<close>) and the authorization records
  that compose their decisions (\<^verbatim>\<open>crates/auth/src/authorization.rs\<close>). Loops that return early are recursive
  functions over the statements with the loop variables as arguments.
\<close>

section \<open>Validated policy strings\<close>

definition IAM_POLICY_NAME_MAX_LEN :: nat where "IAM_POLICY_NAME_MAX_LEN = 128"
definition IAM_ACTION_PATTERN_MAX_LEN :: nat where "IAM_ACTION_PATTERN_MAX_LEN = 128"
definition IAM_RESOURCE_PATTERN_MAX_LEN :: nat where "IAM_RESOURCE_PATTERN_MAX_LEN = 2048"

datatype IamPolicyError =
    InvalidPolicyName
  | InvalidActionPattern
  | InvalidResourcePattern
  | EmptyPolicy
  | EmptyActions
  | EmptyResources
  | EmptyPrincipals
  | InvalidTrustPrincipal

type_synonym InlinePolicyName = string
type_synonym IamActionPattern = string
type_synonym IamResourcePattern = string

definition InlinePolicyName_new :: "string \<Rightarrow> (IamPolicyError, InlinePolicyName) result" where
  "InlinePolicyName_new v =
     (if v \<noteq> [] \<and> length v \<le> IAM_POLICY_NAME_MAX_LEN \<and>
         list_all (\<lambda>c. is_ascii_alphanumeric c \<or> c \<in> set ''_+=,.@-'') v
      then Inr v else Inl InvalidPolicyName)"

definition IamActionPattern_new :: "string \<Rightarrow> (IamPolicyError, IamActionPattern) result" where
  "IamActionPattern_new v =
     (let valid_shape = (v \<noteq> [] \<and> length v \<le> IAM_ACTION_PATTERN_MAX_LEN \<and>
            list_all (\<lambda>c. is_ascii_alphanumeric c \<or> c \<in> set '':*?-'') v);
          supported = (policy_action_pattern_is_supported v \<or> action_pattern_matches v ''sts:AssumeRole'')
      in if valid_shape \<and> supported then Inr v else Inl InvalidActionPattern)"

definition IamResourcePattern_new :: "string \<Rightarrow> (IamPolicyError, IamResourcePattern) result" where
  "IamResourcePattern_new v =
     (if v \<noteq> [] \<and> length v \<le> IAM_RESOURCE_PATTERN_MAX_LEN \<and> list_all (\<lambda>c. \<not> is_control c) (chars v)
      then Inr v else Inl InvalidResourcePattern)"

section \<open>Trust principals\<close>

datatype RoleTrustPrincipalKind =
    Any
  | Account AwsAccountId
  | AccountRoot AwsAccountId
  | ExactIamPrincipal AwsAccountId

record RoleTrustPrincipal =
  trust_value :: string
  trust_kind :: RoleTrustPrincipalKind

definition RoleTrustPrincipal_kind :: "string \<Rightarrow> RoleTrustPrincipalKind option" where
  "RoleTrustPrincipal_kind v =
     (if v = ''*'' then Some Any
      else if is_valid_aws_account_id v then Some (Account v)
      else map_option (\<lambda>who. case parsed_kind who of
               Root \<Rightarrow> AccountRoot (parsed_account_id who)
             | User \<Rightarrow> ExactIamPrincipal (parsed_account_id who)
             | Role \<Rightarrow> ExactIamPrincipal (parsed_account_id who))
             (parse_iam_principal_arn v))"

definition RoleTrustPrincipal_new :: "string \<Rightarrow> (IamPolicyError, RoleTrustPrincipal) result" where
  "RoleTrustPrincipal_new v =
     (case (if length v \<le> IAM_RESOURCE_PATTERN_MAX_LEN then RoleTrustPrincipal_kind v else None) of
        None \<Rightarrow> Inl InvalidTrustPrincipal
      | Some kind \<Rightarrow> Inr \<lparr>trust_value = v, trust_kind = kind\<rparr>)"

datatype RoleTrustPolicyEvaluation = TrustExplicitDeny | SameAccountDirectAllow | DelegatedAllow | TrustNoMatch

datatype InvalidRoleTrustCaller = InvalidRoleTrustCaller

datatype RoleTrustPrincipalMatch = Delegated | SameAccountDirect

definition strongest_principal_match ::
  "RoleTrustPrincipalMatch option \<Rightarrow> RoleTrustPrincipalMatch option \<Rightarrow> RoleTrustPrincipalMatch option" where
  "strongest_principal_match left right =
     (if left = Some SameAccountDirect \<or> right = Some SameAccountDirect then Some SameAccountDirect
      else case left of None \<Rightarrow> right | Some m \<Rightarrow> Some m)"

definition matches_configured_caller ::
  "RoleTrustPrincipal \<Rightarrow> AwsAccountId \<Rightarrow> ConfiguredPrincipalIdentity \<Rightarrow> IamRoleIdentity \<Rightarrow> RoleTrustPrincipalMatch option" where
  "matches_configured_caller self caller_account_id caller_principal target_role =
     (let strength = (if caller_account_id = role_account_id target_role then SameAccountDirect else Delegated) in
      case trust_kind self of
        Any \<Rightarrow> Some strength
      | Account account_id \<Rightarrow> if account_id = caller_account_id then Some Delegated else None
      | AccountRoot account_id \<Rightarrow> if account_id = caller_account_id then Some Delegated else None
      | ExactIamPrincipal account_id \<Rightarrow>
          if account_id = caller_account_id \<and> trust_value self = caller_principal then Some strength else None)"

section \<open>Identity policies\<close>

record IdentityPolicyStatement =
  identity_core :: PolicyStatementCore
  resources :: "IamResourcePattern list"

definition IdentityPolicyStatement_new ::
  "PolicyEffect \<Rightarrow> IamActionPattern list \<Rightarrow> IamResourcePattern list \<Rightarrow> (IamPolicyError, IdentityPolicyStatement) result" where
  "IdentityPolicyStatement_new e as rs =
     (if as = [] then Inl EmptyActions
      else if rs = [] then Inl EmptyResources
      else Inr \<lparr>identity_core = PolicyStatementCore_new None e as [], resources = rs\<rparr>)"

definition statement_matches :: "IdentityPolicyStatement \<Rightarrow> string \<Rightarrow> string \<Rightarrow> bool" where
  "statement_matches self action resource \<longleftrightarrow>
     list_ex (\<lambda>pattern. action_pattern_matches pattern action) (actions (identity_core self)) \<and>
     list_ex (\<lambda>pattern. wildcard_matches pattern resource) (resources self)"

record IdentityPolicy =
  identity_version :: "PolicyVersion option"
  identity_statements :: "IdentityPolicyStatement list"

datatype S3IdentityPolicyResource = Bucket string | Object string string

datatype IdentityPolicyRequest =
    S3 PolicyAction S3IdentityPolicyResource
  | StsAssumeRole IamRoleIdentity

fun request_action :: "IdentityPolicyRequest \<Rightarrow> string" where
  "request_action (S3 action _) = PolicyAction_as_str action"
| "request_action (StsAssumeRole _) = ''sts:AssumeRole''"

fun resource_arn :: "IdentityPolicyRequest \<Rightarrow> string" where
  "resource_arn (S3 _ (Bucket bucket)) = ''arn:aws:s3:::'' @ bucket"
| "resource_arn (S3 _ (Object bucket key)) = ''arn:aws:s3:::'' @ bucket @ ''/'' @ key"
| "resource_arn (StsAssumeRole role) = role_arn role"

definition IdentityPolicy_new ::
  "PolicyVersion option \<Rightarrow> IdentityPolicyStatement list \<Rightarrow> (IamPolicyError, IdentityPolicy) result" where
  "IdentityPolicy_new version statements =
     (if statements = [] then Inl EmptyPolicy else Inr \<lparr>identity_version = version, identity_statements = statements\<rparr>)"

fun evaluate_statements :: "string \<Rightarrow> string \<Rightarrow> bool \<Rightarrow> IdentityPolicyStatement list \<Rightarrow> PolicyEvaluation" where
  "evaluate_statements action resource saw_allow [] = (if saw_allow then ExplicitAllow else NoMatch)"
| "evaluate_statements action resource saw_allow (statement # statements) =
     (if \<not> statement_matches statement action resource then evaluate_statements action resource saw_allow statements
      else case effect (identity_core statement) of
             Deny \<Rightarrow> ExplicitDeny
           | Allow \<Rightarrow> evaluate_statements action resource True statements)"

definition IdentityPolicy_evaluate :: "IdentityPolicy \<Rightarrow> IdentityPolicyRequest \<Rightarrow> PolicyEvaluation" where
  "IdentityPolicy_evaluate self request =
     evaluate_statements (request_action request) (resource_arn request) False (identity_statements self)"

datatype SessionPolicy = SessionPolicy IdentityPolicy

fun SessionPolicy_evaluate :: "SessionPolicy \<Rightarrow> IdentityPolicyRequest \<Rightarrow> PolicyEvaluation" where
  "SessionPolicy_evaluate (SessionPolicy policy) request = IdentityPolicy_evaluate policy request"

record InlineIdentityPolicy =
  inline_name :: InlinePolicyName
  document :: IdentityPolicy

section \<open>Trust policies\<close>

record RoleTrustPolicyStatement =
  trust_core :: PolicyStatementCore
  principals :: "RoleTrustPrincipal list"

definition RoleTrustPolicyStatement_new ::
  "PolicyEffect \<Rightarrow> RoleTrustPrincipal list \<Rightarrow> (IamPolicyError, RoleTrustPolicyStatement) result" where
  "RoleTrustPolicyStatement_new e ps =
     (if ps = [] then Inl EmptyPrincipals
      else Inr \<lparr>trust_core = PolicyStatementCore_new None e [''sts:AssumeRole''] [], principals = ps\<rparr>)"

record RoleTrustPolicy =
  trust_version :: "PolicyVersion option"
  trust_statements :: "RoleTrustPolicyStatement list"

definition RoleTrustPolicy_new ::
  "PolicyVersion option \<Rightarrow> RoleTrustPolicyStatement list \<Rightarrow> (IamPolicyError, RoleTrustPolicy) result" where
  "RoleTrustPolicy_new version statements =
     (if statements = [] then Inl EmptyPolicy else Inr \<lparr>trust_version = version, trust_statements = statements\<rparr>)"

definition statement_match ::
  "AwsAccountId \<Rightarrow> ConfiguredPrincipalIdentity \<Rightarrow> IamRoleIdentity \<Rightarrow> RoleTrustPolicyStatement \<Rightarrow> RoleTrustPrincipalMatch option" where
  "statement_match account caller role statement =
     foldl (\<lambda>current candidate. strongest_principal_match current (Some candidate)) None
       (List.map_filter (\<lambda>who. matches_configured_caller who account caller role) (principals statement))"

fun evaluate_trust ::
  "AwsAccountId \<Rightarrow> ConfiguredPrincipalIdentity \<Rightarrow> IamRoleIdentity \<Rightarrow> RoleTrustPrincipalMatch option \<Rightarrow>
   RoleTrustPolicyStatement list \<Rightarrow> RoleTrustPolicyEvaluation" where
  "evaluate_trust account caller role strongest_allow [] =
     (case strongest_allow of
        Some SameAccountDirect \<Rightarrow> SameAccountDirectAllow
      | Some Delegated \<Rightarrow> DelegatedAllow
      | None \<Rightarrow> TrustNoMatch)"
| "evaluate_trust account caller role strongest_allow (statement # statements) =
     (case statement_match account caller role statement of
        None \<Rightarrow> evaluate_trust account caller role strongest_allow statements
      | Some m \<Rightarrow>
          (case effect (trust_core statement) of
             Deny \<Rightarrow> TrustExplicitDeny
           | Allow \<Rightarrow> evaluate_trust account caller role (strongest_principal_match strongest_allow (Some m)) statements))"

definition evaluate_configured_caller ::
  "RoleTrustPolicy \<Rightarrow> AwsAccountId \<Rightarrow> ConfiguredPrincipalIdentity \<Rightarrow> IamRoleIdentity \<Rightarrow>
   (InvalidRoleTrustCaller, RoleTrustPolicyEvaluation) result" where
  "evaluate_configured_caller self caller_account_id caller_principal target_role =
     (case parse_iam_principal_arn caller_principal of
        None \<Rightarrow> Inl InvalidRoleTrustCaller
      | Some who \<Rightarrow>
          if parsed_kind who \<noteq> User \<or> parsed_account_id who \<noteq> caller_account_id then Inl InvalidRoleTrustCaller
          else Inr (evaluate_trust caller_account_id caller_principal target_role None (trust_statements self)))"

section \<open>Authorization records\<close>

definition MIN_ROLE_SESSION_DURATION_SECS :: u32 where "MIN_ROLE_SESSION_DURATION_SECS = 3600"
definition MAX_ROLE_SESSION_DURATION_SECS :: u32 where "MAX_ROLE_SESSION_DURATION_SECS = 43200"

datatype AuthorizationRecordError =
    InvalidMaximumSessionDuration
  | InvalidRoleTimestamps
  | DuplicateInlinePolicyName
  | RecordAccountMismatch
  | DuplicateStableRoleId
  | DuplicateRoleArn
  | DuplicateConfiguredPrincipal

datatype AuthorizationEvaluationError = InvalidConfiguredCaller

type_synonym RoleMaximumSessionDuration = u32

definition RoleMaximumSessionDuration_new :: "u32 \<Rightarrow> (AuthorizationRecordError, RoleMaximumSessionDuration) result" where
  "RoleMaximumSessionDuration_new seconds =
     (if MIN_ROLE_SESSION_DURATION_SECS \<le> seconds \<and> seconds \<le> MAX_ROLE_SESSION_DURATION_SECS
      then Inr seconds else Inl InvalidMaximumSessionDuration)"

record RoleRecordTimestamps =
  created_at_epoch_secs :: int
  updated_at_epoch_secs :: int

definition RoleRecordTimestamps_new :: "int \<Rightarrow> int \<Rightarrow> (AuthorizationRecordError, RoleRecordTimestamps) result" where
  "RoleRecordTimestamps_new created_at updated_at =
     (if 0 \<le> created_at \<and> created_at \<le> updated_at
      then Inr \<lparr>created_at_epoch_secs = created_at, updated_at_epoch_secs = updated_at\<rparr>
      else Inl InvalidRoleTimestamps)"

fun unique_names :: "string set \<Rightarrow> InlineIdentityPolicy list \<Rightarrow> bool" where
  "unique_names names [] = True"
| "unique_names names (policy # policies) =
     (if inline_name policy \<in> names then False else unique_names (insert (inline_name policy) names) policies)"

definition validate_unique_policy_names :: "InlineIdentityPolicy list \<Rightarrow> (AuthorizationRecordError, unit) result" where
  "validate_unique_policy_names policies =
     (if unique_names {} policies then Inr () else Inl DuplicateInlinePolicyName)"

fun evaluate_inline :: "IdentityPolicyRequest \<Rightarrow> bool \<Rightarrow> InlineIdentityPolicy list \<Rightarrow> PolicyEvaluation" where
  "evaluate_inline request saw_allow [] = (if saw_allow then ExplicitAllow else NoMatch)"
| "evaluate_inline request saw_allow (policy # policies) =
     (case IdentityPolicy_evaluate (document policy) request of
        ExplicitDeny \<Rightarrow> ExplicitDeny
      | ExplicitAllow \<Rightarrow> evaluate_inline request True policies
      | NoMatch \<Rightarrow> evaluate_inline request saw_allow policies)"

definition evaluate_inline_identity_policies ::
  "InlineIdentityPolicy list \<Rightarrow> IdentityPolicyRequest \<Rightarrow> PolicyEvaluation" where
  "evaluate_inline_identity_policies policies request = evaluate_inline request False policies"

datatype SessionPolicyRestriction = Absent | Restricted SessionPolicy

definition intersect_role_and_session_decisions :: "PolicyEvaluation \<Rightarrow> PolicyEvaluation \<Rightarrow> PolicyEvaluation" where
  "intersect_role_and_session_decisions role session =
     (if role = ExplicitDeny \<or> session = ExplicitDeny then ExplicitDeny
      else if role = ExplicitAllow \<and> session = ExplicitAllow then ExplicitAllow
      else NoMatch)"

definition compose_assume_role_decisions :: "RoleTrustPolicyEvaluation \<Rightarrow> PolicyEvaluation \<Rightarrow> PolicyEvaluation" where
  "compose_assume_role_decisions trust caller_identity =
     (if trust = TrustExplicitDeny \<or> caller_identity = ExplicitDeny then ExplicitDeny
      else case trust of
             SameAccountDirectAllow \<Rightarrow> ExplicitAllow
           | DelegatedAllow \<Rightarrow> if caller_identity = ExplicitAllow then ExplicitAllow else NoMatch
           | _ \<Rightarrow> NoMatch)"

record RoleAuthorizationRecord =
  record_identity :: LiveRoleIdentity
  timestamps :: RoleRecordTimestamps
  maximum_session_duration :: RoleMaximumSessionDuration
  trust_policy :: RoleTrustPolicy
  permission_policies :: "InlineIdentityPolicy list"

definition RoleAuthorizationRecord_new ::
  "LiveRoleIdentity \<Rightarrow> RoleRecordTimestamps \<Rightarrow> RoleMaximumSessionDuration \<Rightarrow> RoleTrustPolicy \<Rightarrow> InlineIdentityPolicy list \<Rightarrow>
   (AuthorizationRecordError, RoleAuthorizationRecord) result" where
  "RoleAuthorizationRecord_new who stamps duration trust policies =
     and_then (validate_unique_policy_names policies) (\<lambda>_.
     Inr \<lparr>record_identity = who, timestamps = stamps, maximum_session_duration = duration, trust_policy = trust,
          permission_policies = policies\<rparr>)"

definition evaluate_identity_permissions :: "RoleAuthorizationRecord \<Rightarrow> IdentityPolicyRequest \<Rightarrow> PolicyEvaluation" where
  "evaluate_identity_permissions self request = evaluate_inline_identity_policies (permission_policies self) request"

definition evaluate_session_permissions ::
  "RoleAuthorizationRecord \<Rightarrow> IdentityPolicyRequest \<Rightarrow> SessionPolicyRestriction \<Rightarrow> PolicyEvaluation" where
  "evaluate_session_permissions self request session_policy =
     (let role_decision = evaluate_identity_permissions self request in
      case session_policy of
        Absent \<Rightarrow> role_decision
      | Restricted policy \<Rightarrow> intersect_role_and_session_decisions role_decision (SessionPolicy_evaluate policy request))"

record ConfiguredPrincipalAuthorizationKey =
  key_account_id :: AwsAccountId
  key_principal :: ConfiguredPrincipalIdentity

record ConfiguredPrincipalAuthorizationRecord =
  record_key :: ConfiguredPrincipalAuthorizationKey
  record_account :: AccountIdentity
  identity_policies :: "InlineIdentityPolicy list"

definition ConfiguredPrincipalAuthorizationRecord_new ::
  "ConfiguredPrincipalAuthorizationKey \<Rightarrow> AccountIdentity \<Rightarrow> InlineIdentityPolicy list \<Rightarrow>
   (AuthorizationRecordError, ConfiguredPrincipalAuthorizationRecord) result" where
  "ConfiguredPrincipalAuthorizationRecord_new key account policies =
     (if AccountIdentity_account_id account \<noteq> Some (key_account_id key) then Inl RecordAccountMismatch
      else and_then (validate_unique_policy_names policies) (\<lambda>_.
        Inr \<lparr>record_key = key, record_account = account, identity_policies = policies\<rparr>))"

definition evaluate_caller_permissions ::
  "ConfiguredPrincipalAuthorizationRecord \<Rightarrow> IdentityPolicyRequest \<Rightarrow> PolicyEvaluation" where
  "evaluate_caller_permissions self request = evaluate_inline_identity_policies (identity_policies self) request"

definition evaluate_configured_caller_assume_role ::
  "RoleAuthorizationRecord \<Rightarrow> ConfiguredPrincipalAuthorizationRecord \<Rightarrow>
   (AuthorizationEvaluationError, PolicyEvaluation) result" where
  "evaluate_configured_caller_assume_role self caller =
     (let role = live_role (record_identity self) in
      case evaluate_configured_caller (trust_policy self) (key_account_id (record_key caller))
             (key_principal (record_key caller)) role of
        Inl _ \<Rightarrow> Inl InvalidConfiguredCaller
      | Inr trust \<Rightarrow>
          Inr (compose_assume_role_decisions trust (evaluate_caller_permissions caller (StsAssumeRole role))))"

section \<open>The record store\<close>

record AuthorizationRecordStore =
  roles :: "StableRoleId \<rightharpoonup> RoleAuthorizationRecord"
  role_arns :: "IamRoleArn \<rightharpoonup> StableRoleId"
  configured_principals :: "ConfiguredPrincipalAuthorizationKey \<rightharpoonup> ConfiguredPrincipalAuthorizationRecord"

definition AuthorizationRecordStore_new :: AuthorizationRecordStore where
  "AuthorizationRecordStore_new = \<lparr>roles = Map.empty, role_arns = Map.empty, configured_principals = Map.empty\<rparr>"

definition add_role ::
  "AuthorizationRecordStore \<Rightarrow> RoleAuthorizationRecord \<Rightarrow>
   AuthorizationRecordStore \<times> (AuthorizationRecordError, unit) result" where
  "add_role self r =
     (let stable_id = role_stable_id (live_role (record_identity r));
          arn = role_arn (live_role (record_identity r))
      in if roles self stable_id \<noteq> None then (self, Inl DuplicateStableRoleId)
         else if role_arns self arn \<noteq> None then (self, Inl DuplicateRoleArn)
         else (self\<lparr>role_arns := (role_arns self)(arn \<mapsto> stable_id), roles := (roles self)(stable_id \<mapsto> r)\<rparr>, Inr ()))"

definition role_by_arn :: "AuthorizationRecordStore \<Rightarrow> IamRoleArn \<Rightarrow> RoleAuthorizationRecord option" where
  "role_by_arn self arn = (case role_arns self arn of None \<Rightarrow> None | Some stable_id \<Rightarrow> roles self stable_id)"

definition add_configured_principal ::
  "AuthorizationRecordStore \<Rightarrow> ConfiguredPrincipalAuthorizationRecord \<Rightarrow>
   AuthorizationRecordStore \<times> (AuthorizationRecordError, unit) result" where
  "add_configured_principal self r =
     (if configured_principals self (record_key r) \<noteq> None then (self, Inl DuplicateConfiguredPrincipal)
      else (self\<lparr>configured_principals := (configured_principals self)(record_key r \<mapsto> r)\<rparr>, Inr ()))"

definition role_by_id :: "AuthorizationRecordStore \<Rightarrow> StableRoleId \<Rightarrow> RoleAuthorizationRecord option" where
  "role_by_id self stable_role_id = roles self stable_role_id"

definition principal_by_key ::
  "AuthorizationRecordStore \<Rightarrow> ConfiguredPrincipalAuthorizationKey \<Rightarrow> ConfiguredPrincipalAuthorizationRecord option" where
  "principal_by_key self key = configured_principals self key"

end
