(* ===== verification/Policy_Properties.thy ===== *)
theory Policy_Properties
  imports Iam_Policy
begin

text \<open>
  The wildcard matcher against the language of a pattern, the precedence of explicit denies, the composition
  of role, session and trust decisions, and the consistency of the record store.
\<close>

section \<open>Wildcard patterns\<close>

text \<open>The language of a pattern: the value splits into one piece for every character of the pattern.\<close>

datatype token = Lit string | AnyChar | AnySeq

fun piece_ok :: "token \<Rightarrow> string list \<Rightarrow> bool" where
  "piece_ok (Lit c) s \<longleftrightarrow> s = [c]"
| "piece_ok AnyChar s \<longleftrightarrow> length s = 1"
| "piece_ok AnySeq s \<longleftrightarrow> True"

definition in_language :: "token list \<Rightarrow> string list \<Rightarrow> bool" where
  "in_language ts v \<longleftrightarrow> (\<exists>pieces. list_all2 piece_ok ts pieces \<and> concat pieces = v)"

definition tokens :: "PolicyValue \<Rightarrow> token list" where
  "tokens pattern = map (\<lambda>(i, c).
     if c = ''*'' \<and> i \<notin> set (escaped_wildcards pattern) then AnySeq
     else if c = ''?'' \<and> i \<notin> set (escaped_wildcards pattern) then AnyChar else Lit c)
     (enumerate 0 (chars (pattern_value pattern)))"

lemma in_language_Nil: "in_language [] v \<longleftrightarrow> v = []"
  by (auto simp: in_language_def)

lemma in_language_snoc: "in_language (ts @ [t]) v \<longleftrightarrow> (\<exists>a b. v = a @ b \<and> in_language ts a \<and> piece_ok t b)"
proof
  assume "in_language (ts @ [t]) v"
  then obtain pieces where p: "list_all2 piece_ok (ts @ [t]) pieces" "concat pieces = v" by (auto simp: in_language_def)
  then obtain ps b where "pieces = ps @ [b]" "list_all2 piece_ok ts ps" "piece_ok t b"
    by (auto simp: list_all2_append1 list_all2_Cons1)
  with p(2) show "\<exists>a b. v = a @ b \<and> in_language ts a \<and> piece_ok t b"
    unfolding in_language_def by (metis concat.simps concat_append append_Nil2)
next
  assume "\<exists>a b. v = a @ b \<and> in_language ts a \<and> piece_ok t b"
  then obtain b ps where "v = concat ps @ b" "list_all2 piece_ok ts ps" "piece_ok t b" by (auto simp: in_language_def)
  then show "in_language (ts @ [t]) v"
    unfolding in_language_def by (intro exI [of _ "ps @ [b]"]) (auto intro: list_all2_appendI)
qed

lemma length_rows [simp]:
  "length (asterisk_row prev n) = n + 1"
  "length prev = n + 1 \<Longrightarrow> length (question_row prev n) = n + 1"
  "length (literal_row c prev v) = length v + 1"
proof -
  have "length (fold (\<lambda>i cur. cur[i := prev ! i \<or> cur ! (i - 1)]) xs cur) = length cur" for xs and cur :: "bool list"
    by (induction xs arbitrary: cur) auto
  then show "length (asterisk_row prev n) = n + 1" by (simp add: asterisk_row_def)
  have "length (fold (\<lambda>(i, a) cur. if a = c \<and> prev ! i then cur[i + 1 := True] else cur) xs cur) = length cur"
    for xs and cur :: "bool list"
    by (induction xs arbitrary: cur) auto
  then show "length (literal_row c prev v) = length v + 1" by (simp add: literal_row_def)
qed (simp add: question_row_def)

lemma asterisk_row_nth:
  assumes "j \<le> n"
  shows "asterisk_row prev n ! j \<longleftrightarrow> (\<exists>i \<le> j. prev ! i)"
proof -
  let ?step = "\<lambda>i cur. cur[i := prev ! i \<or> cur ! (i - 1)]" and ?init = "(replicate (n + 1) False)[0 := prev ! 0]"
  have "length (fold ?step [1..<k + 1] ?init) = n + 1 \<and>
      (\<forall>j \<le> k. fold ?step [1..<k + 1] ?init ! j \<longleftrightarrow> (\<exists>i \<le> j. prev ! i))" if "k \<le> n" for k
    using that
  proof (induction k)
    case (Suc k)
    let ?cur = "fold ?step [1..<k + 1] ?init"
    have eq: "fold ?step [1..<Suc k + 1] ?init = ?cur[Suc k := prev ! Suc k \<or> ?cur ! k]" by simp
    have IH: "length ?cur = n + 1" "\<And>j. j \<le> k \<Longrightarrow> ?cur ! j \<longleftrightarrow> (\<exists>i \<le> j. prev ! i)" using Suc by simp_all
    show ?case unfolding eq using IH Suc.prems by (auto simp: nth_list_update le_Suc_eq)
  qed simp
  with assms show ?thesis unfolding asterisk_row_def by blast
qed

lemma question_row_nth:
  "length prev = n + 1 \<Longrightarrow> j \<le> n \<Longrightarrow> question_row prev n ! j \<longleftrightarrow> 0 < j \<and> prev ! (j - 1)"
  by (auto simp: question_row_def nth_append nth_Cons')

lemma literal_row_nth:
  assumes "j \<le> length v"
  shows "literal_row c prev v ! j \<longleftrightarrow> 0 < j \<and> v ! (j - 1) = c \<and> prev ! (j - 1)"
proof -
  let ?step = "\<lambda>(i, a) cur. if a = c \<and> prev ! i then cur[i + 1 := True] else cur"
  have "fold ?step (enumerate 0 (take k v)) (replicate (length v + 1) False) =
      map (\<lambda>j. 0 < j \<and> j \<le> k \<and> v ! (j - 1) = c \<and> prev ! (j - 1)) [0..<length v + 1]" if "k \<le> length v" for k
    using that
  proof (induction k)
    case 0
    show ?case by (intro nth_equalityI) (auto simp del: upt_Suc replicate.simps)
  next
    case (Suc k)
    then have "enumerate 0 (take (Suc k) v) = enumerate 0 (take k v) @ [(k, v ! k)]"
      by (simp add: take_Suc_conv_app_nth enumerate_append_eq)
    with Suc show ?case by (intro nth_equalityI) (auto simp: nth_list_update le_Suc_eq simp del: upt_Suc)
  qed
  from this [of "length v"] assms show ?thesis by (simp add: literal_row_def del: upt_Suc)
qed

lemma take_split_iff: "j \<le> length v \<Longrightarrow> take j v = a @ b \<Longrightarrow> length a \<le> j \<and> a = take (length a) v"
  by (metis append_eq_conv_conj length_append length_take le_add1 min.absorb2 take_take min_def)

lemma row_step:
  assumes "length prev = length v + 1" and "\<And>j. j \<le> length v \<Longrightarrow> prev ! j \<longleftrightarrow> in_language ts (take j v)" and "j \<le> length v"
  shows "asterisk_row prev (length v) ! j \<longleftrightarrow> in_language (ts @ [AnySeq]) (take j v)"
    and "question_row prev (length v) ! j \<longleftrightarrow> in_language (ts @ [AnyChar]) (take j v)"
    and "literal_row c prev v ! j \<longleftrightarrow> in_language (ts @ [Lit c]) (take j v)"
proof -
  have split: "(\<exists>i \<le> j. in_language ts (take i v) \<and> P (drop i (take j v))) \<longleftrightarrow>
      (\<exists>a b. take j v = a @ b \<and> in_language ts a \<and> P b)" for P
  proof
    assume "\<exists>i \<le> j. in_language ts (take i v) \<and> P (drop i (take j v))"
    then obtain i where "i \<le> j" "in_language ts (take i v)" "P (drop i (take j v))" by blast
    moreover have "take j v = take i v @ drop i (take j v)"
      using \<open>i \<le> j\<close> by (metis append_take_drop_id take_take min.absorb1)
    ultimately show "\<exists>a b. take j v = a @ b \<and> in_language ts a \<and> P b" by blast
  next
    assume "\<exists>a b. take j v = a @ b \<and> in_language ts a \<and> P b"
    then obtain a b where ab: "take j v = a @ b" "in_language ts a" "P b" by blast
    with take_split_iff [OF assms(3) ab(1)] show "\<exists>i \<le> j. in_language ts (take i v) \<and> P (drop i (take j v))"
      by (intro exI [of _ "length a"]) auto
  qed
  have prev: "i \<le> j \<Longrightarrow> prev ! i \<longleftrightarrow> in_language ts (take i v)" for i using assms(2,3) by simp
  have one: "(\<exists>i \<le> j. Q i \<and> length (drop i (take j v)) = 1) \<longleftrightarrow> 0 < j \<and> Q (j - 1)" for Q
  proof -
    have "length (drop i (take j v)) = 1 \<longleftrightarrow> 0 < j \<and> i = j - 1" if "i \<le> j" for i using that assms(3) by auto
    then show ?thesis by (metis diff_le_self)
  qed
  have last: "0 < j \<Longrightarrow> drop (j - 1) (take j v) = [v ! (j - 1)]"
    using assms(3) by (cases j) (auto simp: take_Suc_conv_app_nth)
  show "asterisk_row prev (length v) ! j \<longleftrightarrow> in_language (ts @ [AnySeq]) (take j v)"
    unfolding asterisk_row_nth [OF assms(3)] in_language_snoc piece_ok.simps split [symmetric] using prev by auto
  show "question_row prev (length v) ! j \<longleftrightarrow> in_language (ts @ [AnyChar]) (take j v)"
    unfolding question_row_nth [OF assms(1,3)] in_language_snoc piece_ok.simps split [symmetric] one using prev by auto
  show "literal_row c prev v ! j \<longleftrightarrow> in_language (ts @ [Lit c]) (take j v)"
  proof -
    have "(\<exists>i \<le> j. in_language ts (take i v) \<and> drop i (take j v) = [c]) \<longleftrightarrow>
        0 < j \<and> in_language ts (take (j - 1) v) \<and> v ! (j - 1) = c"
    proof
      assume "\<exists>i \<le> j. in_language ts (take i v) \<and> drop i (take j v) = [c]"
      then obtain i where i: "i \<le> j" "in_language ts (take i v)" "drop i (take j v) = [c]" by blast
      have "j - i = 1" using arg_cong [OF i(3), of length] assms(3) by (simp add: min_absorb2)
      then have "0 < j" "i = j - 1" using i(1) by auto
      with i last show "0 < j \<and> in_language ts (take (j - 1) v) \<and> v ! (j - 1) = c" by simp
    qed (use last in \<open>auto intro: exI [of _ "j - 1"]\<close>)
    then show ?thesis
      unfolding literal_row_nth [OF assms(3)] in_language_snoc piece_ok.simps split [symmetric] using prev [of "j - 1"] by auto
  qed
qed

lemma binary_search_iff:
  assumes "sorted xs" and "hi \<le> length xs"
  shows "binary_search xs x lo hi \<longleftrightarrow> (\<exists>i. lo \<le> i \<and> i < hi \<and> xs ! i = x)"
  using assms
proof (induction xs x lo hi rule: binary_search.induct)
  case (1 xs x lo hi)
  show ?case
  proof (cases "hi \<le> lo")
    case False
    define mid where "mid = lo + (hi - lo) div 2"
    have mid: "lo \<le> mid" "mid < hi" using False by (auto simp: mid_def)
    have step: "binary_search xs x lo hi =
        (xs ! mid = x \<or> (if xs ! mid < x then binary_search xs x (Suc mid) hi else binary_search xs x lo mid))"
      using False by (subst binary_search.simps) (simp add: Let_def mid_def)
    have mono: "i \<le> k \<Longrightarrow> k < length xs \<Longrightarrow> xs ! i \<le> xs ! k" for i k using "1.prems"(1) by (simp add: sorted_nth_mono)
    consider (eq) "xs ! mid = x" | (less) "xs ! mid < x" | (greater) "x < xs ! mid" by linarith
    then show ?thesis
    proof cases
      case eq
      with mid step show ?thesis by blast
    next
      case less
      have "xs ! i \<noteq> x" if "i \<le> mid" for i using mono [OF that] mid(2) "1.prems"(2) less by fastforce
      moreover have "binary_search xs x (Suc mid) hi \<longleftrightarrow> (\<exists>i. Suc mid \<le> i \<and> i < hi \<and> xs ! i = x)"
        using "1.IH"(1) [OF False mid_def] less "1.prems" by auto
      moreover have "lo \<le> i \<and> i < hi \<and> xs ! i = x \<longleftrightarrow> Suc mid \<le> i \<and> i < hi \<and> xs ! i = x" for i
        using calculation(1) [of i] mid(1) by (cases "i \<le> mid") auto
      ultimately show ?thesis using step less by simp
    next
      case greater
      have "xs ! i \<noteq> x" if "mid \<le> i" "i < hi" for i using mono [OF that(1)] that(2) "1.prems"(2) greater by fastforce
      moreover have "binary_search xs x lo mid \<longleftrightarrow> (\<exists>i. lo \<le> i \<and> i < mid \<and> xs ! i = x)"
        using "1.IH"(2) [OF False mid_def] greater mid "1.prems" by auto
      moreover have "lo \<le> i \<and> i < hi \<and> xs ! i = x \<longleftrightarrow> lo \<le> i \<and> i < mid \<and> xs ! i = x" for i
        using calculation(1) [of i] mid(2) by (cases "mid \<le> i") auto
      ultimately show ?thesis using step greater by simp
    qed
  qed (simp add: binary_search.simps)
qed

text \<open>The values that the operations of \<open>PolicyValue\<close> can build.\<close>

inductive built :: "PolicyValue \<Rightarrow> bool" where
  literal: "built (PolicyValue_literal s)"
| fragment: "built v \<Longrightarrow> built (push_pattern_fragment v s)"
| asterisk: "built v \<Longrightarrow> built (push_literal_asterisk v)"
| question: "built v \<Longrightarrow> built (push_literal_question_mark v)"

lemma built_sorted: "built v \<Longrightarrow> sorted (escaped_wildcards v) \<and> (\<forall>i \<in> set (escaped_wildcards v). i < length (chars (pattern_value v)))"
proof (induction rule: built.induct)
  case (fragment v s)
  then show ?case
    using length_chars_append [of "pattern_value v" s] by (force simp: push_pattern_fragment_def)
qed (auto simp: PolicyValue_literal_def push_literal_asterisk_def push_literal_question_mark_def
      sorted_append less_imp_le length_chars_snoc is_continuation_def less_SucI)

lemma wildcard_is_escaped_iff: "built v \<Longrightarrow> wildcard_is_escaped v i \<longleftrightarrow> i \<in> set (escaped_wildcards v)"
  using built_sorted [of v]
  by (auto simp: wildcard_is_escaped_def binary_search_iff in_set_conv_nth)

lemma wildcard_rows:
  assumes "built pattern" and "k \<le> length (chars (pattern_value pattern))"
  shows "length (fold (wildcard_row pattern v) (take k (enumerate 0 (chars (pattern_value pattern))))
      ((replicate (length v + 1) False)[0 := True])) = length v + 1 \<and>
    (\<forall>j \<le> length v. fold (wildcard_row pattern v) (take k (enumerate 0 (chars (pattern_value pattern))))
      ((replicate (length v + 1) False)[0 := True]) ! j \<longleftrightarrow> in_language (take k (tokens pattern)) (take j v))"
  using assms(2)
proof (induction k)
  case 0
  show ?case by (auto simp: in_language_Nil nth_Cons')
next
  case (Suc k)
  let ?es = "enumerate 0 (chars (pattern_value pattern))" and ?init = "(replicate (length v + 1) False)[0 := True]"
  obtain row where fold_row: "fold (wildcard_row pattern v) (take k ?es) ?init = row" by blast
  have k: "k < length (chars (pattern_value pattern))" using Suc.prems by simp
  let ?c = "chars (pattern_value pattern) ! k"
  have es: "take (Suc k) ?es = take k ?es @ [(k, ?c)]"
    using k by (simp add: take_Suc_conv_app_nth nth_enumerate_eq)
  have ts: "take (Suc k) (tokens pattern) = take k (tokens pattern) @ [tokens pattern ! k]"
    using k by (simp add: take_Suc_conv_app_nth tokens_def)
  have row: "length row = length v + 1" "\<And>j. j \<le> length v \<Longrightarrow> row ! j \<longleftrightarrow> in_language (take k (tokens pattern)) (take j v)"
    using Suc unfolding fold_row by simp_all
  note step = row_step [OF row]
  have tok: "tokens pattern ! k = (if ?c = ''*'' \<and> \<not> wildcard_is_escaped pattern k then AnySeq
      else if ?c = ''?'' \<and> \<not> wildcard_is_escaped pattern k then AnyChar else Lit ?c)"
    using k by (simp add: tokens_def nth_enumerate_eq wildcard_is_escaped_iff [OF assms(1)])
  show ?case
    unfolding es ts fold_append comp_def fold_row by (simp add: wildcard_row_def tok step row(1))
qed

lemma policy_value_matches_language:
  assumes "built pattern"
  shows "policy_value_wildcard_matches pattern v \<longleftrightarrow> in_language (tokens pattern) (chars v)"
  using wildcard_rows [OF assms order_refl, of "chars v"]
  by (simp add: policy_value_wildcard_matches_def tokens_def Let_def)

text \<open>
  C31. The table-driven matcher accepts exactly the language of the pattern: the value splits into pieces, one
  for each character, where an unescaped asterisk takes any piece, an unescaped question mark takes one
  character, and every other character, escaped wildcards included, takes itself.
\<close>

theorem wildcard_matches_language:
  assumes "built pattern"
  shows "policy_value_wildcard_matches pattern v \<longleftrightarrow> in_language (tokens pattern) (chars v)"
  by (rule policy_value_matches_language [OF assms])

theorem wildcard_matches_language_witness:
  "policy_value_wildcard_matches (push_literal_asterisk (PolicyValue_literal ''a*'')) ''abc*'' \<longleftrightarrow>
     in_language [Lit ''a'', AnySeq, Lit ''*''] [''a'', ''b'', ''c'', ''*'']"
  using wildcard_matches_language [OF built.asterisk [OF built.literal], of "''a*''" "''abc*''"]
  by (simp add: tokens_def push_literal_asterisk_def PolicyValue_literal_def is_continuation_def)

section \<open>Explicit denies\<close>

text \<open>
  The loops over statements and over attached policies share a contract: the first deny ends the loop, and an
  allow is remembered.
\<close>

locale deny_overrides =
  fixes eval :: "bool \<Rightarrow> 'a list \<Rightarrow> PolicyEvaluation" and decide :: "'a \<Rightarrow> PolicyEvaluation"
  assumes eval_Nil: "eval saw [] = (if saw then ExplicitAllow else NoMatch)"
    and eval_Deny: "decide x = ExplicitDeny \<Longrightarrow> eval saw (x # xs) = ExplicitDeny"
    and eval_Allow: "decide x = ExplicitAllow \<Longrightarrow> eval saw (x # xs) = eval True xs"
    and eval_NoMatch: "decide x = NoMatch \<Longrightarrow> eval saw (x # xs) = eval saw xs"
begin

lemma eval_deny_iff: "eval saw xs = ExplicitDeny \<longleftrightarrow> list_ex (\<lambda>x. decide x = ExplicitDeny) xs"
proof (induction xs arbitrary: saw)
  case (Cons x xs)
  then show ?case by (cases "decide x") (simp_all add: eval_Deny eval_Allow eval_NoMatch)
qed (simp add: eval_Nil)

lemma eval_allow_iff:
  "eval saw xs = ExplicitAllow \<longleftrightarrow>
     \<not> list_ex (\<lambda>x. decide x = ExplicitDeny) xs \<and> (saw \<or> list_ex (\<lambda>x. decide x = ExplicitAllow) xs)"
proof (induction xs arbitrary: saw)
  case (Cons x xs)
  then show ?case by (cases "decide x") (simp_all add: eval_Deny eval_Allow eval_NoMatch)
qed (simp add: eval_Nil)

end

definition statement_decision :: "IdentityPolicyRequest \<Rightarrow> IdentityPolicyStatement \<Rightarrow> PolicyEvaluation" where
  "statement_decision request statement =
     (if \<not> statement_matches statement (request_action request) (resource_arn request) then NoMatch
      else case effect (identity_core statement) of Deny \<Rightarrow> ExplicitDeny | Allow \<Rightarrow> ExplicitAllow)"

interpretation statements: deny_overrides "evaluate_statements (request_action request) (resource_arn request)"
  "statement_decision request" for request
  by unfold_locales (auto simp: statement_decision_def split: if_splits PolicyEffect.splits)

interpretation attached: deny_overrides "evaluate_inline request"
  "\<lambda>policy. IdentityPolicy_evaluate (document policy) request" for request
  by unfold_locales auto

definition grants :: "PolicyEffect \<Rightarrow> IdentityPolicyRequest \<Rightarrow> IdentityPolicy \<Rightarrow> bool" where
  "grants e request policy \<longleftrightarrow>
     list_ex (\<lambda>s. effect (identity_core s) = e \<and> statement_matches s (request_action request) (resource_arn request))
       (identity_statements policy)"

lemma statement_decision_iff:
  "statement_decision request s = ExplicitDeny \<longleftrightarrow>
     effect (identity_core s) = Deny \<and> statement_matches s (request_action request) (resource_arn request)"
  "statement_decision request s = ExplicitAllow \<longleftrightarrow>
     effect (identity_core s) = Allow \<and> statement_matches s (request_action request) (resource_arn request)"
  by (auto simp: statement_decision_def split: PolicyEffect.splits)

lemma evaluate_grants:
  "IdentityPolicy_evaluate policy request = ExplicitDeny \<longleftrightarrow> grants Deny request policy"
  "IdentityPolicy_evaluate policy request = ExplicitAllow \<longleftrightarrow> grants Allow request policy \<and> \<not> grants Deny request policy"
  by (auto simp: IdentityPolicy_evaluate_def statements.eval_deny_iff statements.eval_allow_iff statement_decision_iff grants_def)

lemma inline_grants:
  "evaluate_inline_identity_policies policies request = ExplicitDeny \<longleftrightarrow> list_ex (grants Deny request \<circ> document) policies"
  "evaluate_inline_identity_policies policies request = ExplicitAllow \<longleftrightarrow>
     list_ex (grants Allow request \<circ> document) policies \<and> \<not> list_ex (grants Deny request \<circ> document) policies"
  by (auto simp: evaluate_inline_identity_policies_def attached.eval_deny_iff attached.eval_allow_iff evaluate_grants
      list_ex_iff comp_def)

lemma decision_cases: "e = NoMatch \<longleftrightarrow> e \<noteq> ExplicitDeny \<and> e \<noteq> ExplicitAllow"
  by (cases e) auto

text \<open>
  C32. A role session is denied exactly when a deny statement of an attached policy or of the session policy
  applies to the request, and otherwise allowed exactly when an allow statement applies on the role side and,
  if there is a session policy, also there: the order of statements and policies does not matter, and a
  session policy never adds a permission.
\<close>

theorem session_permissions_exact:
  "evaluate_session_permissions self request restriction =
     (let denied = (list_ex (grants Deny request \<circ> document) (permission_policies self) \<or>
            (case restriction of Absent \<Rightarrow> False | Restricted (SessionPolicy policy) \<Rightarrow> grants Deny request policy));
          allowed = (list_ex (grants Allow request \<circ> document) (permission_policies self) \<and>
            (case restriction of Absent \<Rightarrow> True | Restricted (SessionPolicy policy) \<Rightarrow> grants Allow request policy))
      in if denied then ExplicitDeny else if allowed then ExplicitAllow else NoMatch)"
proof (cases restriction)
  case Absent
  let ?e = "evaluate_inline_identity_policies (permission_policies self) request"
  show ?thesis
    using inline_grants [of "permission_policies self" request]
    by (cases ?e) (auto simp: Absent evaluate_session_permissions_def evaluate_identity_permissions_def Let_def)
next
  case (Restricted sp)
  obtain policy where sp: "sp = SessionPolicy policy" by (cases sp)
  let ?e = "evaluate_inline_identity_policies (permission_policies self) request"
  show ?thesis
    using inline_grants [of "permission_policies self" request] evaluate_grants [of policy request]
    by (cases ?e; cases "IdentityPolicy_evaluate policy request")
      (auto simp: Restricted sp evaluate_session_permissions_def evaluate_identity_permissions_def Let_def
        intersect_role_and_session_decisions_def)
qed

section \<open>Assuming a role\<close>

definition trusts ::
  "PolicyEffect \<Rightarrow> (RoleTrustPrincipalMatch \<Rightarrow> bool) \<Rightarrow> AwsAccountId \<Rightarrow> ConfiguredPrincipalIdentity \<Rightarrow> IamRoleIdentity \<Rightarrow>
   RoleTrustPolicyStatement list \<Rightarrow> bool" where
  "trusts e P account caller role statements \<longleftrightarrow>
     list_ex (\<lambda>s. effect (trust_core s) = e \<and>
       list_ex (\<lambda>who. case matches_configured_caller who account caller role of None \<Rightarrow> False | Some m \<Rightarrow> P m) (principals s))
       statements"

lemma strongest_fold:
  "foldl (\<lambda>current candidate. strongest_principal_match current (Some candidate)) acc ms = Some SameAccountDirect \<longleftrightarrow>
     acc = Some SameAccountDirect \<or> SameAccountDirect \<in> set ms"
  "foldl (\<lambda>current candidate. strongest_principal_match current (Some candidate)) acc ms = None \<longleftrightarrow> acc = None \<and> ms = []"
proof (induction ms arbitrary: acc)
  case (Cons m ms)
  {
    case 1
    show ?case using Cons(1) by (cases m) (auto simp: strongest_principal_match_def split: option.splits)
  next
    case 2
    show ?case using Cons(2) by (auto simp: strongest_principal_match_def split: option.splits)
  }
qed simp_all

lemma statement_match_iff:
  "statement_match account caller role s = None \<longleftrightarrow>
     \<not> list_ex (\<lambda>who. matches_configured_caller who account caller role \<noteq> None) (principals s)"
  "statement_match account caller role s = Some SameAccountDirect \<longleftrightarrow>
     list_ex (\<lambda>who. matches_configured_caller who account caller role = Some SameAccountDirect) (principals s)"
  unfolding statement_match_def strongest_fold
  by (auto simp: List.map_filter_def list_ex_iff filter_empty_conv image_iff intro: sym)

lemma strongest_with_some:
  "strongest_principal_match acc (Some m) = Some SameAccountDirect \<longleftrightarrow> acc = Some SameAccountDirect \<or> m = SameAccountDirect"
  "strongest_principal_match acc (Some m) \<noteq> None"
  by (cases m; auto simp: strongest_principal_match_def split: option.splits)+

lemma trusts_Cons:
  "trusts e (\<lambda>_. True) account caller role (s # ss) \<longleftrightarrow>
     effect (trust_core s) = e \<and> statement_match account caller role s \<noteq> None \<or> trusts e (\<lambda>_. True) account caller role ss"
  "trusts e (\<lambda>m. m = SameAccountDirect) account caller role (s # ss) \<longleftrightarrow>
     effect (trust_core s) = e \<and> statement_match account caller role s = Some SameAccountDirect \<or>
     trusts e (\<lambda>m. m = SameAccountDirect) account caller role ss"
  unfolding statement_match_iff
  by (auto simp: trusts_def list_ex_iff split: option.splits)

lemma evaluate_trust_iff:
  "evaluate_trust account caller role acc ss = TrustExplicitDeny \<longleftrightarrow> trusts Deny (\<lambda>_. True) account caller role ss"
  "evaluate_trust account caller role acc ss = SameAccountDirectAllow \<longleftrightarrow>
     \<not> trusts Deny (\<lambda>_. True) account caller role ss \<and>
     (acc = Some SameAccountDirect \<or> trusts Allow (\<lambda>m. m = SameAccountDirect) account caller role ss)"
  "evaluate_trust account caller role acc ss = TrustNoMatch \<longleftrightarrow>
     \<not> trusts Deny (\<lambda>_. True) account caller role ss \<and> acc = None \<and> \<not> trusts Allow (\<lambda>_. True) account caller role ss"
proof (induction ss arbitrary: acc)
  case Nil
  {
    case 1
    show ?case by (auto simp: trusts_def split: option.splits RoleTrustPrincipalMatch.splits)
  next
    case 2
    show ?case by (auto simp: trusts_def split: option.splits RoleTrustPrincipalMatch.splits)
  next
    case 3
    show ?case by (auto simp: trusts_def split: option.splits RoleTrustPrincipalMatch.splits)
  }
next
  case (Cons s ss)
  note simps = trusts_Cons strongest_with_some Cons
  {
    case 1
    show ?case
      by (cases "statement_match account caller role s"; cases "effect (trust_core s)") (simp_all add: simps)
  next
    case 2
    show ?case
      by (cases "statement_match account caller role s"; cases "effect (trust_core s)") (auto simp: simps)
  next
    case 3
    show ?case
      by (cases "statement_match account caller role s"; cases "effect (trust_core s)") (simp_all add: simps)
  }
qed

text \<open>
  C33. A configured user may assume a role exactly when no trust statement denies the user, no policy of the
  user denies the request, and either the trust policy names a principal of the role's own account directly,
  or a trust statement allows the user and a policy of the user allows the request. Callers whose principal
  is not a user of their own account are refused.
\<close>

theorem assume_role_exact:
  "evaluate_configured_caller_assume_role self caller =
     (let account = key_account_id (record_key caller); user = key_principal (record_key caller);
          role = live_role (record_identity self); trust = trust_statements (trust_policy self);
          own = (\<lambda>e. list_ex (grants e (StsAssumeRole role) \<circ> document) (identity_policies caller))
      in if parse_iam_principal_arn user \<noteq> Some \<lparr>parsed_account_id = account, parsed_kind = User\<rparr>
         then Inl InvalidConfiguredCaller
         else if trusts Deny (\<lambda>_. True) account user role trust \<or> own Deny then Inr ExplicitDeny
         else if trusts Allow (\<lambda>m. m = SameAccountDirect) account user role trust \<or>
                 trusts Allow (\<lambda>_. True) account user role trust \<and> own Allow
         then Inr ExplicitAllow else Inr NoMatch)"
proof -
  let ?account = "key_account_id (record_key caller)" and ?user = "key_principal (record_key caller)"
    and ?role = "live_role (record_identity self)" and ?trust = "trust_statements (trust_policy self)"
  let ?t = "evaluate_trust ?account ?user ?role None ?trust"
    and ?o = "evaluate_inline_identity_policies (identity_policies caller) (StsAssumeRole ?role)"
  have valid: "evaluate_configured_caller (trust_policy self) ?account ?user ?role =
      (if parse_iam_principal_arn ?user \<noteq> Some \<lparr>parsed_account_id = ?account, parsed_kind = User\<rparr>
       then Inl InvalidRoleTrustCaller else Inr ?t)"
    by (cases "parse_iam_principal_arn ?user") (auto simp: evaluate_configured_caller_def)
  have direct: "trusts Allow (\<lambda>m. m = SameAccountDirect) a u r ss \<Longrightarrow> trusts Allow (\<lambda>_. True) a u r ss" for a u r ss
    by (auto simp: trusts_def list_ex_iff split: option.splits)
  have trust: "?t = TrustExplicitDeny \<longleftrightarrow> trusts Deny (\<lambda>_. True) ?account ?user ?role ?trust"
    "?t = SameAccountDirectAllow \<longleftrightarrow> \<not> trusts Deny (\<lambda>_. True) ?account ?user ?role ?trust \<and>
      trusts Allow (\<lambda>m. m = SameAccountDirect) ?account ?user ?role ?trust"
    "?t = TrustNoMatch \<longleftrightarrow> \<not> trusts Deny (\<lambda>_. True) ?account ?user ?role ?trust \<and>
      \<not> trusts Allow (\<lambda>_. True) ?account ?user ?role ?trust"
    by (simp_all add: evaluate_trust_iff)
  show ?thesis
    using inline_grants [of "identity_policies caller" "StsAssumeRole ?role"] trust
      direct [of ?account ?user ?role ?trust]
    by (cases ?t; cases ?o)
      (simp_all add: evaluate_configured_caller_assume_role_def evaluate_caller_permissions_def valid Let_def
        compose_assume_role_decisions_def)
qed

section \<open>The record store\<close>








definition sample_role :: "IamPath \<Rightarrow> IamRoleIdentity" where
  "sample_role path = IamRoleIdentity_new ''123456789012'' ''ARGR0123456789ABCDEFGHIJ'' ''ops'' path"



section \<open>Role ARNs\<close>

lemma name_bytes: "RoleName_new n = Inr n' \<Longrightarrow> n \<noteq> [] \<and> CHR ''/'' \<notin> set n \<and> CHR ''*'' \<notin> set n \<and> CHR ''?'' \<notin> set n"
proof -
  have "\<not> is_iam_name_byte (CHR ''/'')" "\<not> is_iam_name_byte (CHR ''*'')" "\<not> is_iam_name_byte (CHR ''?'')"
    by (simp_all add: is_iam_name_byte_def is_ascii_alphanumeric_def is_ascii_digit_def is_ascii_uppercase_def is_ascii_lowercase_def)
  then show "RoleName_new n = Inr n' \<Longrightarrow> n \<noteq> [] \<and> CHR ''/'' \<notin> set n \<and> CHR ''*'' \<notin> set n \<and> CHR ''?'' \<notin> set n"
    by (auto simp: RoleName_new_def list_all_iff split: if_splits)
qed

lemma account_id_no_colon: "is_valid_aws_account_id a \<Longrightarrow> CHR '':'' \<notin> set a"
proof -
  have "\<not> is_ascii_digit (CHR '':'')" by (simp add: is_ascii_digit_def)
  then show "is_valid_aws_account_id a \<Longrightarrow> CHR '':'' \<notin> set a" by (auto simp: is_valid_aws_account_id_def list_all_iff)
qed

lemma path_shape:
  assumes "IamPath_new p = Inr p'"
  shows "p = ''/'' \<or> (\<exists>q. p = ''/'' @ q @ ''/'' \<and> q \<noteq> [])"
proof (cases "p = ''/''")
  case False
  with assms have p: "3 \<le> length p" "hd p = CHR ''/''" "last p = CHR ''/''"
    by (auto simp: IamPath_new_def starts_with_def ends_with_def split: if_splits)
  then obtain t where t: "p = CHR ''/'' # t" by (cases p) auto
  then have ne: "butlast t \<noteq> []" "t \<noteq> []" using p(1) by (auto simp flip: length_greater_0_conv)
  then have "t = butlast t @ ''/''" using p(3) append_butlast_last_id [of t] by (simp add: t)
  with t ne(1) show ?thesis by (metis append_Cons append_Nil)
qed simp

lemma valid_name_and_path:
  assumes "RoleName_new n = Inr n" and "IamPath_new p = Inr p"
  shows "valid_iam_principal_name_and_path (tl p @ n) \<longleftrightarrow>
    CHR ''*'' \<notin> set p \<and> CHR ''?'' \<notin> set p \<and> \<not> starts_with (CHR ''/'') (tl p)"
proof -
  note n = name_bytes [OF assms(1)]
  have lead: "starts_with (CHR ''/'') (tl p @ n) \<longleftrightarrow> starts_with (CHR ''/'') (tl p)"
    using n by (cases "tl p"; cases n) (auto simp: starts_with_def)
  have "last n \<in> set n" "CHR ''/'' \<notin> set n" using n by (blast intro: last_in_set)+
  then have "last n \<noteq> CHR ''/''" by metis
  then have trail: "\<not> ends_with (CHR ''/'') (tl p @ n)" using n by (simp add: ends_with_def)
  have wild: "list_ex (\<lambda>c. c = CHR ''*'' \<or> c = CHR ''?'') (tl p @ n) \<longleftrightarrow> CHR ''*'' \<in> set p \<or> CHR ''?'' \<in> set p"
  proof -
    obtain rest where p: "p = CHR ''/'' # rest" using path_shape [OF assms(2)] by (elim disjE exE conjE) simp_all
    have "CHR ''*'' \<notin> set n" "CHR ''?'' \<notin> set n" using n by simp_all
    then show ?thesis by (auto simp: p list_ex_iff)
  qed
  show ?thesis
  proof (cases "p = ''/''")
    case True
    then have rs: "rsplit_once (CHR ''/'') (tl p @ n) = None" using n by (simp add: rsplit_once_None_iff)
    show ?thesis
      unfolding valid_iam_principal_name_and_path_def rs lead wild using n trail by (simp add: True assms(1))
  next
    case False
    then obtain q where q: "p = ''/'' @ q @ ''/''" "q \<noteq> []" using path_shape [OF assms(2)] by blast
    then have rs: "rsplit_once (CHR ''/'') (tl p @ n) = Some (q, n)" using n by (simp add: rsplit_once_Some_iff)
    have path: "IamPath_new (''/'' @ q @ ''/'') = Inr p" using q(1) assms(2) by simp
    show ?thesis
      unfolding valid_iam_principal_name_and_path_def rs lead wild option.case prod.case Let_def assms(1) path sum.case
      using n trail q(2) by simp
  qed
qed

text \<open>
  C35. The ARN that a role identity builds from its validated parts is read back as a role of the same account
  exactly when the path holds no wildcard character and does not start with an empty segment. The path type
  admits both, so some roles have an ARN that the ARN type refuses.
\<close>

theorem role_arn_read_back:
  assumes "AwsAccountId_new a = Inr a" and "RoleName_new n = Inr n" and "IamPath_new p = Inr p"
  shows "(parse_iam_principal_arn (role_arn (IamRoleIdentity_new a i n p)) =
      Some \<lparr>parsed_account_id = a, parsed_kind = Role\<rparr> \<longleftrightarrow>
      CHR ''*'' \<notin> set p \<and> CHR ''?'' \<notin> set p \<and> \<not> starts_with (CHR ''/'') (tl p)) \<and>
    (IamRoleArn_new (role_arn (IamRoleIdentity_new a i n p)) = Inr (role_arn (IamRoleIdentity_new a i n p)) \<longleftrightarrow>
      CHR ''*'' \<notin> set p \<and> CHR ''?'' \<notin> set p \<and> \<not> starts_with (CHR ''/'') (tl p))"
proof -
  have a: "is_valid_aws_account_id a" using assms(1) by (simp add: AwsAccountId_new_def split: if_splits)
  obtain rest where p: "p = CHR ''/'' # rest" using path_shape [OF assms(3)] by auto
  let ?q = "''role/'' @ rest @ n"
  have split: "split_once (CHR '':'') (a @ '':'' @ ?q) = Some (a, ?q)"
    using account_id_no_colon [OF a] by (simp add: split_once_Some_iff)
  have kinds: "?q \<noteq> ''root''" "\<not> strips_to_valid_name ''user/'' ?q"
    "strips_to_valid_name ''role/'' ?q \<longleftrightarrow> valid_iam_principal_name_and_path (rest @ n)"
    by (simp_all add: strips_to_valid_name_def)
  have arn: "role_arn (IamRoleIdentity_new a i n p) = ''arn:aws:iam::'' @ a @ '':'' @ ?q"
    by (simp add: IamRoleIdentity_new_def p)
  have "parse_iam_principal_arn (role_arn (IamRoleIdentity_new a i n p)) =
      (if valid_iam_principal_name_and_path (rest @ n) then Some \<lparr>parsed_account_id = a, parsed_kind = Role\<rparr> else None)"
    unfolding arn parse_iam_principal_arn_def strip_prefix_append option.case split prod.case assms(1) sum.case
    using kinds by (simp only: if_False)
  then show ?thesis
    using valid_name_and_path [OF assms(2,3)] by (auto simp: IamRoleArn_new_def p split: if_splits)
qed

theorem role_arn_read_back_witness:
  "IamRoleArn_new (role_arn (sample_role ''/team/'')) = Inr (role_arn (sample_role ''/team/'')) \<and>
   IamRoleArn_new (role_arn (sample_role ''/*/'')) \<noteq> Inr (role_arn (sample_role ''/*/''))"
proof -
  have parts: "AwsAccountId_new ''123456789012'' = Inr ''123456789012''" "RoleName_new ''ops'' = Inr ''ops''"
    "IamPath_new ''/team/'' = Inr ''/team/''" "IamPath_new ''/*/'' = Inr ''/*/''"
    by code_simp+
  show ?thesis
    using role_arn_read_back [OF parts(1,2,3)] role_arn_read_back [OF parts(1,2,4)]
    by (simp add: sample_role_def starts_with_def)
qed

end
