(* ===== verification/Server_Error.thy ===== *)
theory Server_Error
  imports Rust_Strings
begin

text \<open>
  The errors of the server that the modelled operations raise (\<^verbatim>\<open>crates/server-core/src/error.rs\<close>), with the diagnostics
  of a signature mismatch (\<^verbatim>\<open>crates/auth/src/error.rs\<close>).
\<close>

record SignatureMismatchDiagnostics =
  diagnostics_access_key_id :: string
  string_to_sign :: string
  signature_provided :: string
  canonical_request :: "string option"

datatype AuthError = SignatureMismatch "SignatureMismatchDiagnostics option"

datatype ServerError =
    Auth AuthError
  | InvalidRequest string
  | InvalidArgument string
  | ObjectTooLarge u64 u64
  | PreconditionFailed string
  | NotModified string u64
  | InvalidChunkSize nat nat nat
  | MalformedChunkedBody string
  | IncompleteBody

text \<open>A call either returns a value, returns an error, or panics.\<close>

datatype 'e failure = Error 'e | Panic

end
