(* ===== verification/Chunked.thy ===== *)
theory Chunked
  imports Server_Error "HOL-Library.List_Lexorder" "HOL-Library.Char_ord"
begin

text \<open>
  The incremental decoder of aws-chunked request bodies (\<^verbatim>\<open>crates/server-http/src/http/chunked.rs\<close>). The digest,
  the message authentication code and the constant-time comparison of the packages are the fields of \<open>Crypto\<close>;
  a running digest is the bytes it has been given. A call that would panic returns \<open>Panic\<close>.
\<close>

section \<open>Signing context\<close>

record Crypto =
  sha256 :: "bytes \<Rightarrow> bytes"
  hmac_sha256 :: "bytes \<Rightarrow> bytes \<Rightarrow> bytes"
  ct_eq :: "bytes \<Rightarrow> bytes \<Rightarrow> bool"

record StreamingSigningContext =
  signing_key :: bytes
  seed_signature :: string
  scope :: string
  timestamp :: string
  access_key_id :: string
  seed_canonical_request :: string

definition constant_time_eq :: "Crypto \<Rightarrow> bytes \<Rightarrow> bytes \<Rightarrow> bool" where
  "constant_time_eq crypto a b = (if length a \<noteq> length b then False else ct_eq crypto a b)"

definition hex_encode :: "bytes \<Rightarrow> string" where
  "hex_encode bs = concat (map (\<lambda>b. [hex_char (unat (drop_bit 4 b)), hex_char (unat (b AND 0x0f))]) bs)"

definition sha256_hex :: "Crypto \<Rightarrow> bytes \<Rightarrow> string" where
  "sha256_hex crypto bs = hex_encode (sha256 crypto bs)"

section \<open>Lines\<close>

definition MIN_CHUNK_SIZE :: nat where "MIN_CHUNK_SIZE = 8192"
definition MAX_CHUNKED_LINE_BYTES :: nat where "MAX_CHUNKED_LINE_BYTES = 16 * 1024"
definition MAX_CHUNKED_TRAILER_BYTES :: nat where "MAX_CHUNKED_TRAILER_BYTES = 64 * 1024"
definition MAX_CHUNKED_TRAILER_COUNT :: nat where "MAX_CHUNKED_TRAILER_COUNT = 128"

abbreviation CR :: u8 where "CR \<equiv> 13"
abbreviation LF :: u8 where "LF \<equiv> 10"

function find_crlf :: "bytes \<Rightarrow> nat \<Rightarrow> nat option" where
  "find_crlf data i =
     (if i + 1 < length data
      then if data ! i = CR \<and> data ! (i + 1) = LF then Some i else find_crlf data (i + 1)
      else None)"
  by pat_completeness auto
termination
  by (relation "measure (\<lambda>(data, i). length data - i)") auto

declare find_crlf.simps [simp del]

definition chunked_line_too_long :: ServerError where
  "chunked_line_too_long =
     MalformedChunkedBody (''chunked line exceeds '' @ dec_of_nat MAX_CHUNKED_LINE_BYTES @ '' bytes'')"

definition chunked_trailers_too_large :: ServerError where
  "chunked_trailers_too_large = MalformedChunkedBody ''chunked trailer section exceeds limit''"

text \<open>The line, if there is one, with the new pending bytes and the rest of the wire.\<close>

definition read_crlf_line :: "bytes \<Rightarrow> bytes \<Rightarrow> (ServerError, bytes option \<times> bytes \<times> bytes) result" where
  "read_crlf_line pending wire =
     (if pending = [] then
        (case find_crlf wire 0 of
           Some crlf_pos \<Rightarrow>
             if MAX_CHUNKED_LINE_BYTES < crlf_pos then Inl chunked_line_too_long
             else Inr (Some (take crlf_pos wire), pending, drop (crlf_pos + 2) wire)
         | None \<Rightarrow>
             if MAX_CHUNKED_LINE_BYTES < length wire then Inl chunked_line_too_long
             else Inr (None, wire, []))
      else if last pending = CR \<and> wire \<noteq> [] \<and> hd wire = LF then
        if MAX_CHUNKED_LINE_BYTES < length (butlast pending) then Inl chunked_line_too_long
        else Inr (Some (butlast pending), [], tl wire)
      else
        and_then
          (case find_crlf wire 0 of
             Some crlf_pos \<Rightarrow>
               if MAX_CHUNKED_LINE_BYTES < length pending + crlf_pos then Inl chunked_line_too_long
               else Inr (pending @ take (crlf_pos + 2) wire, drop (crlf_pos + 2) wire)
           | None \<Rightarrow>
               if MAX_CHUNKED_LINE_BYTES < length pending + length wire then Inl chunked_line_too_long
               else Inr (pending @ wire, []))
          (\<lambda>(pending, wire).
             case find_crlf pending 0 of
               Some crlf_pos \<Rightarrow> Inr (Some (take crlf_pos pending), drop (crlf_pos + 2) pending, wire)
             | None \<Rightarrow> Inr (None, pending, wire)))"

definition parse_chunk_header :: "bytes \<Rightarrow> (ServerError, nat \<times> string option) result" where
  "parse_chunk_header line =
     and_then (ok_or (from_utf8 line) (MalformedChunkedBody ''non-UTF8 chunk header'')) (\<lambda>line_str.
     let (size_part, rest) = (case split_once (CHR '';'') line_str of Some (s, r) \<Rightarrow> (s, Some r) | None \<Rightarrow> (line_str, None)) in
     and_then (ok_or (from_str_radix 64 16 (trim size_part)) (MalformedChunkedBody (''invalid chunk size: '' @ size_part)))
       (\<lambda>size.
     Inr (size, Option.bind rest (strip_prefix ''chunk-signature=''))))"

section \<open>Signatures\<close>

definition newline :: string where "newline = [char_of (10 :: nat)]"

definition check_signature ::
  "Crypto \<Rightarrow> StreamingSigningContext \<Rightarrow> string \<Rightarrow> string \<Rightarrow> (ServerError, unit) result" where
  "check_signature crypto ctx to_sign claimed_sig =
     (let expected = hmac_sha256 crypto (signing_key ctx) (bytes_of_string to_sign);
          expected_hex = hex_encode expected
      in if \<not> constant_time_eq crypto (bytes_of_string expected_hex) (bytes_of_string claimed_sig)
         then Inl (Auth (SignatureMismatch (Some
           \<lparr>diagnostics_access_key_id = access_key_id ctx, string_to_sign = to_sign, signature_provided = claimed_sig,
            canonical_request = Some (seed_canonical_request ctx)\<rparr>)))
         else Inr ())"

definition chunk_string_to_sign :: "Crypto \<Rightarrow> StreamingSigningContext \<Rightarrow> string \<Rightarrow> string \<Rightarrow> string" where
  "chunk_string_to_sign crypto ctx prev chunk_hash =
     ''AWS4-HMAC-SHA256-PAYLOAD'' @ newline @ timestamp ctx @ newline @ scope ctx @ newline @ prev @ newline @
     sha256_hex crypto [] @ newline @ chunk_hash"

definition verify_chunk_signature_hash ::
  "Crypto \<Rightarrow> StreamingSigningContext \<Rightarrow> string \<Rightarrow> string \<Rightarrow> string \<Rightarrow> (ServerError, unit) result" where
  "verify_chunk_signature_hash crypto ctx prev chunk_hash claimed_sig =
     check_signature crypto ctx (chunk_string_to_sign crypto ctx prev chunk_hash) claimed_sig"

definition verify_chunk_signature ::
  "Crypto \<Rightarrow> StreamingSigningContext \<Rightarrow> string \<Rightarrow> bytes \<Rightarrow> string \<Rightarrow> (ServerError, unit) result" where
  "verify_chunk_signature crypto ctx prev chunk_data claimed_sig =
     verify_chunk_signature_hash crypto ctx prev (sha256_hex crypto chunk_data) claimed_sig"

definition TRAILER_SIGNATURE :: string where "TRAILER_SIGNATURE = ''x-amz-trailer-signature''"

definition canonical_trailers :: "(string \<times> string) list \<Rightarrow> string" where
  "canonical_trailers content_trailers =
     concat (map (\<lambda>(k, v). k @ '':'' @ v @ newline) (sort_key fst content_trailers))"

definition trailer_string_to_sign :: "Crypto \<Rightarrow> StreamingSigningContext \<Rightarrow> string \<Rightarrow> (string \<times> string) list \<Rightarrow> string" where
  "trailer_string_to_sign crypto ctx prev content_trailers =
     ''AWS4-HMAC-SHA256-TRAILER'' @ newline @ timestamp ctx @ newline @ scope ctx @ newline @ prev @ newline @
     sha256_hex crypto (bytes_of_string (canonical_trailers content_trailers))"

definition verify_trailer_signature ::
  "Crypto \<Rightarrow> StreamingSigningContext \<Rightarrow> string \<Rightarrow> (string \<times> string) list \<Rightarrow> (ServerError, unit) result" where
  "verify_trailer_signature crypto ctx prev trailers =
     (let claimed_sig = map_option snd (find (\<lambda>(k, _). k = TRAILER_SIGNATURE) trailers);
          content_trailers = filter (\<lambda>(k, _). k \<noteq> TRAILER_SIGNATURE) trailers
      in if content_trailers = [] \<and> claimed_sig = None then Inr ()
         else and_then (ok_or claimed_sig IncompleteBody) (\<lambda>claimed_sig.
           check_signature crypto ctx (trailer_string_to_sign crypto ctx prev content_trailers) claimed_sig))"

section \<open>The decoder\<close>

datatype ChunkedDecoderState =
    ReadingHeader
  | ReadingData nat nat "string option"
  | ExpectingDataCrlf bool
  | ReadingTrailers
  | Failed
  | Done

record IncrementalChunkedDecoder =
  streaming :: "StreamingSigningContext option"
  trailer_mode :: bool
  prev_sig :: "string option"
  chunk_number :: nat
  prev_chunk_size :: "nat option"
  expected_decoded_remaining :: "u64 option"
  current_chunk_hash :: "bytes option"
  dec_buf :: bytes
  dec_state :: ChunkedDecoderState
  trailers :: "(string \<times> string) list"
  trailer_bytes :: nat
  trailer_count :: nat
  dec_done :: bool

definition new_with_expected_len ::
  "StreamingSigningContext option \<Rightarrow> bool \<Rightarrow> u64 option \<Rightarrow> IncrementalChunkedDecoder" where
  "new_with_expected_len stream mode expected_decoded_len =
     \<lparr>streaming = stream, trailer_mode = mode, prev_sig = map_option seed_signature stream, chunk_number = 0,
      prev_chunk_size = None, expected_decoded_remaining = expected_decoded_len, current_chunk_hash = None,
      dec_buf = [], dec_state = ReadingHeader, trailers = [], trailer_bytes = 0, trailer_count = 0, dec_done = False\<rparr>"

definition IncrementalChunkedDecoder_new ::
  "StreamingSigningContext option \<Rightarrow> bool \<Rightarrow> IncrementalChunkedDecoder" where
  "IncrementalChunkedDecoder_new stream mode = new_with_expected_len stream mode None"

text \<open>
  One round of the loop of \<open>feed_inner\<close>: it goes on with the rest of the wire and the payload so far, leaves the
  loop, or fails.
\<close>

datatype FeedFlow =
    Next IncrementalChunkedDecoder bytes bytes
  | Stop IncrementalChunkedDecoder bytes
  | Fail IncrementalChunkedDecoder "ServerError failure"

definition terminal_chunk ::
  "Crypto \<Rightarrow> IncrementalChunkedDecoder \<Rightarrow> string option \<Rightarrow> bytes \<Rightarrow> bytes \<Rightarrow> FeedFlow" where
  "terminal_chunk crypto self chunk_sig wire payload =
     (if expected_decoded_remaining self \<noteq> None \<and> expected_decoded_remaining self \<noteq> Some 0
      then Fail self (Error (MalformedChunkedBody (''decoded content length mismatch: '' @
             dec_of_nat (unat (the (expected_decoded_remaining self))) @ '' bytes remaining'')))
      else case streaming self of
        None \<Rightarrow> Next (self\<lparr>dec_state := ReadingTrailers\<rparr>) wire payload
      | Some ctx \<Rightarrow>
          (case (chunk_sig, prev_sig self) of
             (Some sig, Some prev) \<Rightarrow>
               (case verify_chunk_signature crypto ctx prev [] sig of
                  Inl e \<Rightarrow> Fail self (Error e)
                | Inr _ \<Rightarrow> Next (self\<lparr>prev_sig := Some sig, dec_state := ReadingTrailers\<rparr>) wire payload)
           | _ \<Rightarrow> Fail self Panic))"

definition start_chunk ::
  "IncrementalChunkedDecoder \<Rightarrow> nat \<Rightarrow> string option \<Rightarrow> bytes \<Rightarrow> bytes \<Rightarrow> FeedFlow" where
  "start_chunk self chunk_size chunk_sig wire payload =
     (let size_check = (case prev_chunk_size self of
            Some prev_size \<Rightarrow>
              if prev_size < MIN_CHUNK_SIZE
              then Inl (InvalidChunkSize (chunk_number self) prev_size MIN_CHUNK_SIZE) else Inr ()
          | None \<Rightarrow> Inr ());
          length_check = (case expected_decoded_remaining self of
            Some remaining \<Rightarrow>
              if 2 ^ 64 \<le> chunk_size then Inl (ObjectTooLarge (- 1) remaining)
              else if unat remaining < chunk_size
              then Inl (MalformedChunkedBody (''chunk size '' @ dec_of_nat chunk_size @
                     '' exceeds remaining decoded content length '' @ dec_of_nat (unat remaining)))
              else Inr ()
          | None \<Rightarrow> Inr ())
      in case and_then size_check (\<lambda>_. length_check) of
           Inl e \<Rightarrow> Fail self (Error e)
         | Inr _ \<Rightarrow>
             Next (self\<lparr>current_chunk_hash := map_option (\<lambda>_. []) (streaming self),
                        dec_state := ReadingData chunk_size chunk_size chunk_sig\<rparr>) wire payload)"

definition header_line :: "Crypto \<Rightarrow> IncrementalChunkedDecoder \<Rightarrow> bytes \<Rightarrow> bytes \<Rightarrow> bytes \<Rightarrow> FeedFlow" where
  "header_line crypto self line wire payload =
     (case parse_chunk_header line of
        Inl e \<Rightarrow> Fail self (Error e)
      | Inr (chunk_size, chunk_sig) \<Rightarrow>
          if streaming self \<noteq> None \<and> chunk_sig = None
          then Fail self (Error (MalformedChunkedBody ''missing chunk-signature in signed chunked upload''))
          else if chunk_size = 0 then terminal_chunk crypto self chunk_sig wire payload
          else start_chunk self chunk_size chunk_sig wire payload)"

definition step_header :: "Crypto \<Rightarrow> IncrementalChunkedDecoder \<Rightarrow> bytes \<Rightarrow> bytes \<Rightarrow> FeedFlow" where
  "step_header crypto self wire payload =
     (case read_crlf_line (dec_buf self) wire of
        Inl e \<Rightarrow> Fail self (Error e)
      | Inr (None, buf, wire) \<Rightarrow> Stop (self\<lparr>dec_buf := buf\<rparr>) payload
      | Inr (Some line, buf, wire) \<Rightarrow> header_line crypto (self\<lparr>dec_buf := buf\<rparr>) line wire payload)"

definition finish_chunk ::
  "Crypto \<Rightarrow> IncrementalChunkedDecoder \<Rightarrow> nat \<Rightarrow> string option \<Rightarrow> bytes \<Rightarrow> bytes \<Rightarrow> FeedFlow" where
  "finish_chunk crypto self chunk_size sig wire payload =
     (let finish = (\<lambda>self. Next (self\<lparr>prev_chunk_size := Some chunk_size, chunk_number := chunk_number self + 1,
                                        dec_state := ExpectingDataCrlf False\<rparr>) wire payload)
      in case streaming self of
           None \<Rightarrow> finish self
         | Some ctx \<Rightarrow>
             (case (sig, current_chunk_hash self, prev_sig self) of
                (Some s, Some hashed, Some prev) \<Rightarrow>
                  let self = self\<lparr>current_chunk_hash := None\<rparr> in
                  (case verify_chunk_signature_hash crypto ctx prev (hex_encode (sha256 crypto hashed)) s of
                     Inl e \<Rightarrow> Fail self (Error e)
                   | Inr _ \<Rightarrow> finish (self\<lparr>prev_sig := Some s\<rparr>))
              | _ \<Rightarrow> Fail self Panic))"

definition step_data ::
  "Crypto \<Rightarrow> IncrementalChunkedDecoder \<Rightarrow> nat \<Rightarrow> nat \<Rightarrow> string option \<Rightarrow> bytes \<Rightarrow> bytes \<Rightarrow> FeedFlow" where
  "step_data crypto self chunk_size remaining sig wire payload =
     (if wire = [] then Stop self payload
      else
        let taken = min remaining (length wire);
            chunk_data = take taken wire;
            self = self\<lparr>current_chunk_hash := map_option (\<lambda>hashed. hashed @ chunk_data) (current_chunk_hash self)\<rparr>
        in case (case expected_decoded_remaining self of
                   None \<Rightarrow> Some None
                 | Some decoded_remaining \<Rightarrow> map_option Some (checked_sub decoded_remaining (of_nat taken))) of
             None \<Rightarrow> Fail self Panic
           | Some decoded_remaining \<Rightarrow>
               let self = self\<lparr>expected_decoded_remaining := decoded_remaining,
                               dec_state := ReadingData chunk_size (remaining - taken) sig\<rparr>;
                   payload = payload @ chunk_data;
                   wire = drop taken wire
               in if remaining - taken \<noteq> 0 then Stop self payload
                  else finish_chunk crypto self chunk_size sig wire payload)"

definition step_lf :: "IncrementalChunkedDecoder \<Rightarrow> bytes \<Rightarrow> bytes \<Rightarrow> FeedFlow" where
  "step_lf self wire payload =
     (case wire of
        [] \<Rightarrow> Stop self payload
      | b # rest \<Rightarrow>
          if b \<noteq> LF then Fail self (Error (MalformedChunkedBody ''missing CRLF after chunk data''))
          else Next (self\<lparr>dec_state := ReadingHeader\<rparr>) rest payload)"

definition step_crlf :: "IncrementalChunkedDecoder \<Rightarrow> bool \<Rightarrow> bytes \<Rightarrow> bytes \<Rightarrow> FeedFlow" where
  "step_crlf self seen_cr wire payload =
     (if seen_cr then step_lf self wire payload
      else case wire of
             [] \<Rightarrow> Stop self payload
           | b # rest \<Rightarrow>
               if b \<noteq> CR then Fail self (Error (MalformedChunkedBody ''missing CRLF after chunk data''))
               else step_lf (self\<lparr>dec_state := ExpectingDataCrlf True\<rparr>) rest payload)"

definition push_trailer ::
  "IncrementalChunkedDecoder \<Rightarrow> bytes \<Rightarrow> IncrementalChunkedDecoder \<times> (ServerError, unit) result" where
  "push_trailer self line =
     (let self = self\<lparr>trailer_count := trailer_count self + 1, trailer_bytes := trailer_bytes self + (length line + 2)\<rparr>
      in if MAX_CHUNKED_TRAILER_COUNT < trailer_count self \<or> MAX_CHUNKED_TRAILER_BYTES < trailer_bytes self
         then (self, Inl chunked_trailers_too_large)
         else case from_utf8 line of
           None \<Rightarrow> (self, Inl (MalformedChunkedBody ''non-UTF8 trailer''))
         | Some line_str \<Rightarrow>
             (case split_once (CHR '':'') line_str of
                Some (key, v) \<Rightarrow>
                  (self\<lparr>trailers := trailers self @ [(to_ascii_lowercase (trim key), trim v)]\<rparr>, Inr ())
              | None \<Rightarrow> (self, Inl IncompleteBody)))"

definition finish_trailers :: "Crypto \<Rightarrow> IncrementalChunkedDecoder \<Rightarrow> bytes \<Rightarrow> FeedFlow" where
  "finish_trailers crypto self payload =
     (let finish = Stop (self\<lparr>trailers := filter (\<lambda>(k, _). k \<noteq> TRAILER_SIGNATURE) (trailers self),
                              dec_state := Done, dec_done := True\<rparr>) payload
      in if trailer_mode self
         then (case streaming self of
                 None \<Rightarrow> finish
               | Some ctx \<Rightarrow>
                   (case prev_sig self of
                      None \<Rightarrow> Fail self Panic
                    | Some prev \<Rightarrow>
                        (case verify_trailer_signature crypto ctx prev (trailers self) of
                           Inl e \<Rightarrow> Fail self (Error e)
                         | Inr _ \<Rightarrow> finish)))
         else finish)"

lemma find_crlf_bounds: "find_crlf data i = Some j \<Longrightarrow> i \<le> j \<and> j + 1 < length data"
proof (induction data i rule: find_crlf.induct)
  case (1 data i)
  then show ?case by (subst (asm) find_crlf.simps) (auto split: if_splits)
qed

text \<open>Every line takes at least the two bytes of its end from the input.\<close>

lemma read_crlf_line_shrinks:
  assumes "read_crlf_line pending wire = Inr (Some line, pending', wire')"
  shows "length pending' + length wire' + 2 \<le> length pending + length wire"
proof -
  have drop2: "find_crlf bs 0 = Some j \<Longrightarrow> length (drop (j + 2) bs) + 2 \<le> length bs" for bs j
    using find_crlf_bounds [of bs 0 j] by simp
  show ?thesis
  proof (cases "pending = [] \<or> last pending = CR \<and> wire \<noteq> [] \<and> hd wire = LF")
    case True
    with assms drop2 show ?thesis
      by (cases pending; cases wire) (fastforce simp: read_crlf_line_def split: option.splits if_splits)+
  next
    case False
    show ?thesis
    proof (cases "find_crlf wire 0")
      case None
      with assms False obtain j where j: "find_crlf (pending @ wire) 0 = Some j"
        by (auto simp: read_crlf_line_def split: if_splits option.splits)
      with assms False None find_crlf_bounds [OF j] show ?thesis by (auto simp: read_crlf_line_def split: if_splits)
    next
      case (Some i)
      with assms False obtain j where j: "find_crlf (pending @ take (i + 2) wire) 0 = Some j"
        by (auto simp: read_crlf_line_def split: if_splits option.splits)
      with assms False Some find_crlf_bounds [OF j] find_crlf_bounds [OF Some] show ?thesis
        by (auto simp: read_crlf_line_def split: if_splits)
    qed
  qed
qed

lemma push_trailer_buf [simp]: "push_trailer self line = (self', r) \<Longrightarrow> dec_buf self' = dec_buf self"
  by (auto simp: push_trailer_def Let_def split: option.splits if_splits)

function read_trailers :: "Crypto \<Rightarrow> IncrementalChunkedDecoder \<Rightarrow> bytes \<Rightarrow> bytes \<Rightarrow> FeedFlow" where
  "read_trailers crypto self wire payload =
     (case read_crlf_line (dec_buf self) wire of
        Inl e \<Rightarrow> Fail self (Error e)
      | Inr (None, buf, wire) \<Rightarrow> Stop (self\<lparr>dec_buf := buf\<rparr>) payload
      | Inr (Some line, buf, wire) \<Rightarrow>
          let self = self\<lparr>dec_buf := buf\<rparr> in
          if line = [] then finish_trailers crypto self payload
          else (case push_trailer self line of
                  (self, Inl e) \<Rightarrow> Fail self (Error e)
                | (self, Inr _) \<Rightarrow> read_trailers crypto self wire payload))"
  by pat_completeness auto
termination
  by (relation "measure (\<lambda>(crypto, self, wire, payload). length (dec_buf self) + length wire)")
    (auto dest!: read_crlf_line_shrinks push_trailer_buf [OF sym])

declare read_trailers.simps [simp del]

definition feed_step :: "Crypto \<Rightarrow> IncrementalChunkedDecoder \<Rightarrow> bytes \<Rightarrow> bytes \<Rightarrow> FeedFlow" where
  "feed_step crypto self wire payload =
     (case dec_state self of
        ReadingHeader \<Rightarrow> step_header crypto self wire payload
      | ReadingData chunk_size remaining sig \<Rightarrow> step_data crypto self chunk_size remaining sig wire payload
      | ExpectingDataCrlf seen_cr \<Rightarrow> step_crlf self seen_cr wire payload
      | ReadingTrailers \<Rightarrow> read_trailers crypto self wire payload
      | Failed \<Rightarrow> Fail self Panic
      | Done \<Rightarrow> Stop self payload)"

text \<open>A bound on the rounds left: two for every byte of input, and one for the data of an open chunk.\<close>

definition rounds :: "IncrementalChunkedDecoder \<Rightarrow> bytes \<Rightarrow> nat" where
  "rounds self wire = 2 * (length (dec_buf self) + length wire) +
     (case dec_state self of ReadingData _ _ _ \<Rightarrow> 1 | _ \<Rightarrow> 0)"

lemma trailers_never_next: "read_trailers crypto self wire payload \<noteq> Next self' wire' payload'"
proof (induction crypto self wire payload rule: read_trailers.induct)
  case (1 crypto self wire payload)
  then show ?case
    by (subst read_trailers.simps)
      (auto simp: finish_trailers_def Let_def split: sum.splits option.splits prod.splits)
qed

lemma feed_step_rounds:
  assumes "feed_step crypto self wire payload = Next self' wire' payload'"
  shows "rounds self' wire' < rounds self wire"
proof (cases "dec_state self")
  case ReadingHeader
  with assms show ?thesis
    by (auto simp: feed_step_def step_header_def header_line_def terminal_chunk_def start_chunk_def rounds_def Let_def
        dest!: read_crlf_line_shrinks split: sum.splits option.splits if_splits)
next
  case (ReadingData chunk_size remaining sig)
  with assms show ?thesis
    by (auto simp: feed_step_def step_data_def finish_chunk_def rounds_def Let_def
        split: sum.splits option.splits if_splits)
next
  case (ExpectingDataCrlf seen_cr)
  with assms show ?thesis
    by (auto simp: feed_step_def step_crlf_def step_lf_def rounds_def split: list.splits if_splits)
next
  case ReadingTrailers
  with assms trailers_never_next show ?thesis by (simp add: feed_step_def)
qed (use assms in \<open>auto simp: feed_step_def\<close>)

function feed_loop ::
  "Crypto \<Rightarrow> IncrementalChunkedDecoder \<Rightarrow> bytes \<Rightarrow> bytes \<Rightarrow>
   IncrementalChunkedDecoder \<times> (ServerError failure, bytes) result" where
  "feed_loop crypto self wire payload =
     (case feed_step crypto self wire payload of
        Next self wire payload \<Rightarrow> feed_loop crypto self wire payload
      | Stop self payload \<Rightarrow> (self, Inr payload)
      | Fail self e \<Rightarrow> (self, Inl e))"
  by pat_completeness auto
termination
  by (relation "measure (\<lambda>(crypto, self, wire, payload). rounds self wire)") (auto intro: feed_step_rounds)

declare feed_loop.simps [simp del]

definition feed_inner ::
  "Crypto \<Rightarrow> IncrementalChunkedDecoder \<Rightarrow> bytes \<Rightarrow> IncrementalChunkedDecoder \<times> (ServerError failure, bytes) result" where
  "feed_inner crypto self wire =
     (if dec_done self then (self, Inl (Error (MalformedChunkedBody ''data after chunked body complete'')))
      else feed_loop crypto self wire [])"

definition feed ::
  "Crypto \<Rightarrow> IncrementalChunkedDecoder \<Rightarrow> bytes \<Rightarrow> IncrementalChunkedDecoder \<times> (ServerError failure, bytes) result" where
  "feed crypto self wire =
     (if dec_state self = Failed
      then (self, Inl (Error (MalformedChunkedBody ''chunked decoder previously failed'')))
      else let (self, r) = feed_inner crypto self wire in
        if isl r \<and> \<not> dec_done self then (self\<lparr>dec_state := Failed, current_chunk_hash := None\<rparr>, r)
        else (self, r))"

definition is_done :: "IncrementalChunkedDecoder \<Rightarrow> bool" where
  "is_done self = dec_done self"

definition into_trailers :: "IncrementalChunkedDecoder \<Rightarrow> (string \<times> string) list" where
  "into_trailers self = trailers self"

end
