(* ===== verification/Chunked_Lines.thy ===== *)
theory Chunked_Lines
  imports Chunked
begin

text \<open>
  Lines of the chunked body. The reader that keeps a fragment between calls is the plain reader on the fragment
  followed by the new bytes, so reading does not depend on where the wire is cut.
\<close>

definition crlf_at :: "bytes \<Rightarrow> nat \<Rightarrow> bool" where
  "crlf_at bs j \<longleftrightarrow> j + 1 < length bs \<and> bs ! j = CR \<and> bs ! (j + 1) = LF"

lemma find_crlf_Some_iff: "find_crlf bs i = Some j \<longleftrightarrow> i \<le> j \<and> crlf_at bs j \<and> (\<forall>k. i \<le> k \<and> k < j \<longrightarrow> \<not> crlf_at bs k)"
proof (induction bs i rule: find_crlf.induct)
  case (1 bs i)
  show ?case
  proof (cases "i + 1 < length bs \<and> \<not> crlf_at bs i")
    case True
    then have "find_crlf bs i = find_crlf bs (i + 1)" by (subst find_crlf.simps) (auto simp: crlf_at_def)
    moreover have "find_crlf bs (i + 1) = Some j \<longleftrightarrow>
        i + 1 \<le> j \<and> crlf_at bs j \<and> (\<forall>k. i + 1 \<le> k \<and> k < j \<longrightarrow> \<not> crlf_at bs k)"
      using 1 True by (simp add: crlf_at_def)
    moreover have "i \<le> k \<longleftrightarrow> i + 1 \<le> k \<or> k = i" for k by auto
    ultimately show ?thesis using True by auto
  next
    case False
    have "find_crlf bs i = (if i + 1 < length bs then Some i else None)"
      using False by (subst find_crlf.simps) (auto simp: crlf_at_def)
    with False show ?thesis by (auto simp: crlf_at_def)
  qed
qed

lemma find_crlf_None_iff: "find_crlf bs i = None \<longleftrightarrow> (\<forall>k \<ge> i. \<not> crlf_at bs k)"
proof
  assume none: "find_crlf bs i = None"
  show "\<forall>k \<ge> i. \<not> crlf_at bs k"
  proof (rule ccontr)
    assume "\<not> (\<forall>k \<ge> i. \<not> crlf_at bs k)"
    then have ex: "\<exists>k. i \<le> k \<and> crlf_at bs k" by blast
    have "find_crlf bs i = Some (LEAST k. i \<le> k \<and> crlf_at bs k)"
      unfolding find_crlf_Some_iff using LeastI_ex [OF ex] not_less_Least [where P = "\<lambda>k. i \<le> k \<and> crlf_at bs k"] by blast
    with none show False by simp
  qed
qed (metis find_crlf_Some_iff not_Some_eq)

lemma crlf_at_append:
  "crlf_at (a @ b) j \<longleftrightarrow> crlf_at a j \<or> (a \<noteq> [] \<and> j + 1 = length a \<and> last a = CR \<and> b \<noteq> [] \<and> hd b = LF) \<or>
     (length a \<le> j \<and> crlf_at b (j - length a))"
proof -
  consider "j + 1 < length a" | "j + 1 = length a" | "length a \<le> j" by linarith
  then show ?thesis
  proof cases
    case 2
    then have "a \<noteq> []" by auto
    moreover have "length a - 1 = j" using 2 by simp
    ultimately have "a \<noteq> []" and "last a = a ! j" by (simp_all add: last_conv_nth)
    with 2 show ?thesis by (auto simp: crlf_at_def nth_append hd_conv_nth)
  qed (auto simp: crlf_at_def nth_append Suc_diff_le)
qed

definition no_crlf :: "bytes \<Rightarrow> bool" where
  "no_crlf bs \<longleftrightarrow> find_crlf bs 0 = None"

lemma no_crlf_iff: "no_crlf bs \<longleftrightarrow> (\<forall>k. \<not> crlf_at bs k)"
  by (simp add: no_crlf_def find_crlf_None_iff)

lemma no_crlf_Nil [simp]: "no_crlf []"
  by (simp add: no_crlf_iff crlf_at_def)

lemma find_crlf_append_Some: "find_crlf a 0 = Some j \<Longrightarrow> find_crlf (a @ b) 0 = Some j"
  unfolding find_crlf_Some_iff by (auto simp: crlf_at_append) (auto simp: crlf_at_def)

definition straddles :: "bytes \<Rightarrow> bytes \<Rightarrow> bool" where
  "straddles a b \<longleftrightarrow> a \<noteq> [] \<and> last a = CR \<and> b \<noteq> [] \<and> hd b = LF"

lemma find_crlf_append:
  assumes "no_crlf a"
  shows "find_crlf (a @ b) 0 =
    (if straddles a b then Some (length a - 1) else map_option (\<lambda>i. length a + i) (find_crlf b 0))"
proof -
  have at: "crlf_at (a @ b) j \<longleftrightarrow> straddles a b \<and> j + 1 = length a \<or> length a \<le> j \<and> crlf_at b (j - length a)" for j
    using assms by (auto simp: crlf_at_append no_crlf_iff straddles_def)
  show ?thesis
  proof (cases "straddles a b")
    case True
    then have "0 < length a" by (auto simp: straddles_def)
    then have "find_crlf (a @ b) 0 = Some (length a - 1)" unfolding find_crlf_Some_iff at using True by auto
    with True show ?thesis by simp
  next
    case False
    show ?thesis
    proof (cases "find_crlf b 0")
      case None
      then have "find_crlf (a @ b) 0 = None" using False by (auto simp: find_crlf_None_iff at)
      with False None show ?thesis by simp
    next
      case (Some i)
      then have i: "crlf_at b i" "\<And>k. k < i \<Longrightarrow> \<not> crlf_at b k" by (simp_all add: find_crlf_Some_iff)
      have "\<not> crlf_at b (k - length a)" if "k < length a + i" "length a \<le> k" for k using i(2) that by simp
      then have "find_crlf (a @ b) 0 = Some (length a + i)"
        unfolding find_crlf_Some_iff at using False i(1) by auto
      with False Some show ?thesis by simp
    qed
  qed
qed

text \<open>The reader, as a function of the fragment followed by the wire.\<close>

definition read_line_spec :: "bytes \<Rightarrow> (ServerError, bytes option \<times> bytes \<times> bytes) result" where
  "read_line_spec bs =
     (case find_crlf bs 0 of
        Some j \<Rightarrow> if MAX_CHUNKED_LINE_BYTES < j then Inl chunked_line_too_long
                  else Inr (Some (take j bs), [], drop (j + 2) bs)
      | None \<Rightarrow> if MAX_CHUNKED_LINE_BYTES < length bs then Inl chunked_line_too_long else Inr (None, bs, []))"

lemma read_crlf_line_eq:
  assumes "no_crlf pending"
  shows "read_crlf_line pending wire = read_line_spec (pending @ wire)"
proof (cases "pending = [] \<or> straddles pending wire")
  case True
  then show ?thesis
  proof
    assume "straddles pending wire"
    then have s: "pending \<noteq> []" "last pending = CR" "wire \<noteq> []" "hd wire = LF" by (auto simp: straddles_def)
    have "find_crlf (pending @ wire) 0 = Some (length pending - 1)"
      using assms \<open>straddles pending wire\<close> by (simp add: find_crlf_append)
    moreover have "drop (length pending - 1 + 2) (pending @ wire) = tl wire"
      using s(1,3) by (cases wire; cases pending) auto
    moreover have "take (length pending - 1) (pending @ wire) = butlast pending" by (simp add: butlast_conv_take)
    ultimately show ?thesis using s by (simp add: read_crlf_line_def read_line_spec_def)
  qed (auto simp: read_crlf_line_def read_line_spec_def split: option.splits)
next
  case False
  then have branch: "pending \<noteq> []" "\<not> (last pending = CR \<and> wire \<noteq> [] \<and> hd wire = LF)" by (auto simp: straddles_def)
  have find: "find_crlf (pending @ w) 0 = map_option (\<lambda>i. length pending + i) (find_crlf w 0)"
    if "w = [] \<or> hd w = hd wire" "w = [] \<longleftrightarrow> wire = []" for w
    using that False assms by (auto simp: find_crlf_append straddles_def)
  show ?thesis
  proof (cases "find_crlf wire 0")
    case None
    with find [of wire] branch show ?thesis by (auto simp: read_crlf_line_def read_line_spec_def)
  next
    case (Some i)
    then have bound: "i + 1 < length wire" using find_crlf_bounds [of wire 0 i] by simp
    have "find_crlf (take (i + 2) wire) 0 = Some i"
      using Some bound unfolding find_crlf_Some_iff by (auto simp: crlf_at_def)
    then have "find_crlf (pending @ take (i + 2) wire) 0 = Some (length pending + i)"
      using find [of "take (i + 2) wire"] bound by (cases wire) auto
    moreover have "find_crlf (pending @ wire) 0 = Some (length pending + i)" using find [of wire] Some by simp
    ultimately show ?thesis using Some branch bound by (auto simp: read_crlf_line_def read_line_spec_def)
  qed
qed

lemma read_line_Some:
  assumes "no_crlf p" and "read_crlf_line p a = Inr (Some line, p', a')"
  shows "p' = []" and "length line \<le> MAX_CHUNKED_LINE_BYTES"
    and "read_crlf_line p (a @ b) = Inr (Some line, [], a' @ b)"
proof -
  have spec: "read_line_spec (p @ a) = Inr (Some line, p', a')" using assms by (simp add: read_crlf_line_eq)
  then obtain j where j: "find_crlf (p @ a) 0 = Some j"
    by (cases "find_crlf (p @ a) 0") (simp_all add: read_line_spec_def split: if_splits)
  have bound: "j + 2 \<le> length (p @ a)" using find_crlf_bounds [OF j] by simp
  have res: "j \<le> MAX_CHUNKED_LINE_BYTES" "line = take j (p @ a)" "p' = []" "a' = drop (j + 2) (p @ a)"
    using spec unfolding read_line_spec_def j by (simp_all split: if_splits)
  have j': "find_crlf ((p @ a) @ b) 0 = Some j" by (rule find_crlf_append_Some [OF j])
  have "read_line_spec ((p @ a) @ b) = Inr (Some line, [], a' @ b)"
    unfolding read_line_spec_def j' option.case res(2,4) using res(1) bound
    by (simp only: not_less [symmetric] if_False take_append drop_append) simp
  then show "read_crlf_line p (a @ b) = Inr (Some line, [], a' @ b)" using assms(1) by (simp add: read_crlf_line_eq)
  show "p' = []" "length line \<le> MAX_CHUNKED_LINE_BYTES" using res bound by simp_all
qed

lemma read_line_None:
  assumes "no_crlf p" and "read_crlf_line p a = Inr (None, p', a')"
  shows "p' = p @ a" and "a' = []" and "no_crlf p'" and "length p' \<le> MAX_CHUNKED_LINE_BYTES"
    and "read_crlf_line p (a @ b) = read_crlf_line p' b"
proof -
  have eqs: "p' = p @ a \<and> a' = [] \<and> no_crlf (p @ a) \<and> length (p @ a) \<le> MAX_CHUNKED_LINE_BYTES"
    using assms by (auto simp: read_crlf_line_eq read_line_spec_def no_crlf_def split: option.splits if_splits)
  then show "p' = p @ a" "a' = []" "no_crlf p'" "length p' \<le> MAX_CHUNKED_LINE_BYTES" by simp_all
  show "read_crlf_line p (a @ b) = read_crlf_line p' b" using assms(1) eqs by (simp add: read_crlf_line_eq)
qed

end
