(* ===== verification/Chunked_Slices.thy ===== *)
theory Chunked_Slices
  imports Chunked_Lines
begin

text \<open>
  Feeding the wire in slices. A call that stops leaves the decoder in the state from which the rest of the wire
  continues as if it had been part of the call.
\<close>

section \<open>The payload of one round\<close>

fun map_flow :: "(bytes \<Rightarrow> bytes) \<Rightarrow> FeedFlow \<Rightarrow> FeedFlow" where
  "map_flow f (Next s w p) = Next s w (f p)"
| "map_flow f (Stop s p) = Stop s (f p)"
| "map_flow f (Fail s e) = Fail s e"

lemma finish_trailers_payload:
  "finish_trailers crypto s p = map_flow ((@) p) (finish_trailers crypto s [])"
  by (simp add: finish_trailers_def Let_def split: option.split sum.split)

lemma read_trailers_payload:
  "read_trailers crypto s w p = map_flow ((@) p) (read_trailers crypto s w [])"
proof (induction crypto s w p rule: read_trailers.induct)
  case (1 crypto s w p)
  show ?case
  proof (cases "read_crlf_line (dec_buf s) w")
    case (Inr r)
    obtain l b w' where r: "r = (l, b, w')" by (cases r)
    show ?thesis
    proof (cases l)
      case None
      then show ?thesis using Inr r by (simp add: read_trailers.simps)
    next
      case (Some line)
      obtain s' e where push: "push_trailer (s\<lparr>dec_buf := b\<rparr>) line = (s', e)" by fastforce
      show ?thesis
        using Inr r Some push "1.IH" [of r l "(b, w')" line b w' "s\<lparr>dec_buf := b\<rparr>" s' e]
          finish_trailers_payload [of crypto "s\<lparr>dec_buf := b\<rparr>" p]
        by (cases e) (auto simp: read_trailers.simps [of crypto s] Let_def)
    qed
  qed (simp add: read_trailers.simps)
qed

lemma finish_chunk_payload:
  "finish_chunk crypto s n sig w p = map_flow ((@) p) (finish_chunk crypto s n sig w [])"
  by (simp add: finish_chunk_def Let_def split: option.split sum.split)

lemma finish_chunk_payload_append:
  "finish_chunk crypto s n sig w (p @ q) = map_flow ((@) p) (finish_chunk crypto s n sig w q)"
  by (simp add: finish_chunk_def Let_def split: option.split sum.split)

lemma header_line_payload:
  "header_line crypto s line w p = map_flow ((@) p) (header_line crypto s line w [])"
  by (simp add: header_line_def terminal_chunk_def start_chunk_def Let_def split: option.split sum.split)

lemma feed_step_payload: "feed_step crypto s w p = map_flow ((@) p) (feed_step crypto s w [])"
proof (cases "dec_state s")
  case ReadingHeader
  then show ?thesis
    by (simp add: feed_step_def step_header_def header_line_payload [of crypto _ _ _ p] split: option.split sum.split)
next
  case (ReadingData n rem sig)
  then show ?thesis
    using finish_chunk_payload_append [of crypto _ n sig _ p]
    by (simp add: feed_step_def step_data_def Let_def split: option.split)
next
  case (ExpectingDataCrlf seen)
  then show ?thesis by (simp add: feed_step_def step_crlf_def step_lf_def split: list.split)
next
  case ReadingTrailers
  then show ?thesis using read_trailers_payload [of crypto s w p] by (simp add: feed_step_def)
qed (simp_all add: feed_step_def)

lemma feed_loop_payload:
  "feed_loop crypto s w (p @ q) = (case feed_loop crypto s w q of (s', r) \<Rightarrow> (s', map_sum id ((@) p) r))"
proof (induction crypto s w q rule: feed_loop.induct)
  case (1 crypto s w q)
  have "feed_step crypto s w (p @ q) = map_flow ((@) p) (feed_step crypto s w q)"
    using feed_step_payload [of crypto s w "p @ q"] feed_step_payload [of crypto s w q]
    by (cases "feed_step crypto s w []") simp_all
  then show ?case
    using 1 by (cases "feed_step crypto s w q") (simp_all add: feed_loop.simps [of crypto s w])
qed

section \<open>Rounds on a longer wire\<close>

lemma finish_chunk_grow:
  "finish_chunk crypto s n sig w p = Next s' w' p' \<Longrightarrow>
     w' = w \<and> p' = p \<and> finish_chunk crypto s n sig (w @ b) p = Next s' (w @ b) p"
  by (auto simp: finish_chunk_def Let_def split: option.splits sum.splits)

lemma finish_chunk_Stop: "finish_chunk crypto s n sig w p \<noteq> Stop s' p'"
  by (auto simp: finish_chunk_def Let_def split: option.splits sum.splits)

lemma terminal_chunk_grow:
  "terminal_chunk crypto s sig w p = Next s' w' p' \<Longrightarrow>
     w' = w \<and> dec_buf s' = dec_buf s \<and> terminal_chunk crypto s sig (w @ b) p = Next s' (w @ b) p'"
  "terminal_chunk crypto s sig w p \<noteq> Stop t q"
  unfolding terminal_chunk_def by (auto split: option.splits sum.splits if_splits)

lemma start_chunk_grow:
  "start_chunk s n sig w p = Next s' w' p' \<Longrightarrow>
     w' = w \<and> dec_buf s' = dec_buf s \<and> start_chunk s n sig (w @ b) p = Next s' (w @ b) p'"
  "start_chunk s n sig w p \<noteq> Stop t q"
  unfolding start_chunk_def Let_def by (auto split: sum.splits)

lemma header_line_grow:
  assumes "header_line crypto s line w p = Next s' w' p'"
  shows "w' = w \<and> dec_buf s' = dec_buf s \<and> header_line crypto s line (w @ b) p = Next s' (w @ b) p'"
proof -
  obtain n sig where header: "parse_chunk_header line = Inr (n, sig)"
    and signed: "streaming s = None \<or> sig \<noteq> None"
    using assms by (auto simp: header_line_def split: sum.splits if_splits)
  show ?thesis
    using assms header signed terminal_chunk_grow(1) [of crypto s sig w p s' w' p' b]
      start_chunk_grow(1) [of s n sig w p s' w' p' b]
    by (cases "n = 0") (auto simp: header_line_def)
qed

lemma header_line_Stop: "header_line crypto s line w p \<noteq> Stop s' p'"
  unfolding header_line_def by (simp add: terminal_chunk_grow(2) start_chunk_grow(2) split: sum.split)

lemma finish_chunk_buf: "finish_chunk crypto s n sig w p = Next s' w' p' \<Longrightarrow> dec_buf s' = dec_buf s"
  by (auto simp: finish_chunk_def Let_def split: option.splits sum.splits)

lemma feed_step_grow:
  assumes "no_crlf (dec_buf s)" and "feed_step crypto s a p = Next s' a' p'"
  shows "feed_step crypto s (a @ b) p = Next s' (a' @ b) p' \<and> no_crlf (dec_buf s')"
proof (cases "dec_state s")
  case ReadingHeader
  then obtain line buf w where line: "read_crlf_line (dec_buf s) a = Inr (Some line, buf, w)"
    and rest: "header_line crypto (s\<lparr>dec_buf := buf\<rparr>) line w p = Next s' a' p'"
    using assms(2) by (auto simp: feed_step_def step_header_def split: sum.splits option.splits)
  note grow = read_line_Some [OF assms(1) line] and rest' = header_line_grow [OF rest, of b]
  show ?thesis using ReadingHeader grow(1) grow(3) [of b] rest' by (simp add: feed_step_def step_header_def)
next
  case (ReadingData n rem sig)
  have "rem \<le> length a" "a \<noteq> []"
    using assms(2) ReadingData by (auto simp: feed_step_def step_data_def Let_def split: option.splits if_splits)
  with assms ReadingData show ?thesis
    using finish_chunk_grow [of crypto _ n sig "drop rem a" _ s' a' p' b] finish_chunk_buf [of crypto _ n sig _ _ s']
    by (fastforce simp: feed_step_def step_data_def Let_def min_absorb1 split: option.splits)
next
  case (ExpectingDataCrlf seen)
  with assms show ?thesis
    by (auto simp: feed_step_def step_crlf_def step_lf_def split: list.splits if_splits)
next
  case ReadingTrailers
  with assms(2) trailers_never_next show ?thesis by (simp add: feed_step_def)
qed (use assms(2) in \<open>simp_all add: feed_step_def\<close>)

lemma finish_trailers_done: "finish_trailers crypto s p = Stop s' p' \<Longrightarrow> dec_done s'"
  by (auto simp: finish_trailers_def Let_def split: option.splits sum.splits if_splits)

lemma push_trailer_state: "push_trailer s line = (s', r) \<Longrightarrow> dec_state s' = dec_state s"
  by (auto simp: push_trailer_def Let_def split: option.splits if_splits)

text \<open>Two rounds that agree, up to the fragment a failed decoder still holds.\<close>

definition same_flow :: "FeedFlow \<Rightarrow> FeedFlow \<Rightarrow> bool" where
  "same_flow x y \<longleftrightarrow> x = y \<or> (\<exists>s t e. x = Fail s e \<and> y = Fail t e)"

lemma same_flow_refl [simp]: "same_flow x x"
  by (simp add: same_flow_def)

lemma same_flow_Fail [simp]: "same_flow (Fail s e) (Fail t e)"
  by (simp add: same_flow_def)

lemma read_trailers_stop:
  assumes "no_crlf (dec_buf s)" and "read_trailers crypto s a p = Stop s' p'" and "\<not> dec_done s'"
    and "dec_state s = ReadingTrailers"
  shows "no_crlf (dec_buf s') \<and> dec_state s' = ReadingTrailers \<and> length (dec_buf s') \<le> MAX_CHUNKED_LINE_BYTES \<and>
    same_flow (read_trailers crypto s (a @ b) p) (read_trailers crypto s' b p')"
  using assms
proof (induction crypto s a p rule: read_trailers.induct)
  case (1 crypto s a p)
  obtain l buf w where l: "read_crlf_line (dec_buf s) a = Inr (l, buf, w)"
    using "1.prems"(2) by (cases "read_crlf_line (dec_buf s) a") (auto simp: read_trailers.simps [of crypto s])
  show ?case
  proof (cases l)
    case None
    note line = read_line_None [OF "1.prems"(1) l [unfolded None]]
    have s': "s' = s\<lparr>dec_buf := buf\<rparr>" "p' = p"
      using "1.prems"(2) l None by (auto simp: read_trailers.simps [of crypto s])
    have "same_flow (read_trailers crypto s (a @ b) p) (read_trailers crypto s' b p')"
      unfolding s' read_trailers.simps [of crypto s "a @ b"] read_trailers.simps [of crypto "s\<lparr>dec_buf := buf\<rparr>" b] line(5)
      by (cases "read_crlf_line buf b") (auto split: option.split)
    then show ?thesis using line "1.prems"(4) s' by simp
  next
    case (Some line)
    note l' = l [unfolded Some]
    note grow = read_line_Some [OF "1.prems"(1) l']
    have "line \<noteq> []"
      using "1.prems"(2,3) l' finish_trailers_done by (auto simp: read_trailers.simps [of crypto s] Let_def)
    obtain t r where push: "push_trailer (s\<lparr>dec_buf := buf\<rparr>) line = (t, r)" by fastforce
    have t: "dec_buf t = []" "dec_state t = ReadingTrailers"
      using push_trailer_buf [OF push] push_trailer_state [OF push] grow(1) "1.prems"(4) by simp_all
    have r: "r = Inr ()" and rest: "read_trailers crypto t w p = Stop s' p'"
      using "1.prems"(2) l' push \<open>line \<noteq> []\<close>
      by (cases r; simp add: read_trailers.simps [of crypto s] Let_def)+
    have step: "read_trailers crypto s (a @ b) p = read_trailers crypto t (w @ b) p"
      using grow(3) [of b] push r \<open>line \<noteq> []\<close> grow(1) by (simp add: read_trailers.simps [of crypto s] Let_def)
    show ?thesis
      unfolding step
      using "1.IH" [OF l' refl refl refl refl \<open>line \<noteq> []\<close> push [symmetric] r] t rest "1.prems"(3) by simp
  qed
qed

lemma checked_sub_twice:
  assumes "checked_sub d (of_nat n) = Some e" and "n + m < 2 ^ 64"
  shows "checked_sub (d :: u64) (of_nat (n + m)) = checked_sub e (of_nat m)"
proof -
  have n: "of_nat n \<le> d" and e: "e = d - of_nat n" using assms(1) by (auto simp: checked_sub_def split: if_splits)
  have nat: "k \<le> n + m \<Longrightarrow> unat (of_nat k :: u64) = k" for k
    using assms(2) by (simp add: unat_of_nat)
  have "unat (of_nat (n + m) :: u64) \<le> unat d \<longleftrightarrow> unat (of_nat m :: u64) \<le> unat d - unat (of_nat n :: u64)"
    unfolding nat [OF order_refl] nat [OF le_add1] nat [OF le_add2] using n nat [OF le_add1]
    by (auto simp: word_le_nat_alt)
  then have "of_nat (n + m) \<le> d \<longleftrightarrow> (of_nat m :: u64) \<le> d - of_nat n"
    by (simp only: word_le_nat_alt unat_sub [OF n])
  then show ?thesis by (simp add: checked_sub_def e algebra_simps)
qed

text \<open>One round on chunk data, with the change to the decoder as one function.\<close>

definition remaining_after :: "u64 option \<Rightarrow> nat \<Rightarrow> u64 option option" where
  "remaining_after d k = (case d of None \<Rightarrow> Some None | Some d \<Rightarrow> map_option Some (checked_sub d (of_nat k)))"

definition after_data ::
  "IncrementalChunkedDecoder \<Rightarrow> bytes \<Rightarrow> u64 option \<Rightarrow> ChunkedDecoderState \<Rightarrow> IncrementalChunkedDecoder" where
  "after_data s c d st =
     s\<lparr>current_chunk_hash := map_option (\<lambda>h. h @ c) (current_chunk_hash s), expected_decoded_remaining := d, dec_state := st\<rparr>"

lemma after_data_simps [simp]:
  "dec_state (after_data s c d st) = st"
  "dec_buf (after_data s c d st) = dec_buf s"
  "expected_decoded_remaining (after_data s c d st) = d"
  "streaming (after_data s c d st) = streaming s"
  "trailer_mode (after_data s c d st) = trailer_mode s"
  "prev_sig (after_data s c d st) = prev_sig s"
  "trailers (after_data s c d st) = trailers s"
  "trailer_bytes (after_data s c d st) = trailer_bytes s"
  "trailer_count (after_data s c d st) = trailer_count s"
  "dec_done (after_data s c d st) = dec_done s"
  "current_chunk_hash (after_data s c d st) = map_option (\<lambda>h. h @ c) (current_chunk_hash s)"
  "after_data (after_data s c d st) c' d' st' = after_data s (c @ c') d' st'"
  by (simp_all add: after_data_def option.map_comp comp_def)

lemma remaining_after_twice:
  "remaining_after d n = Some e \<Longrightarrow> n + m < 2 ^ 64 \<Longrightarrow> remaining_after d (n + m) = remaining_after e m"
  unfolding remaining_after_def using checked_sub_twice by (auto split: option.splits)

lemma step_data_eq:
  assumes "w \<noteq> []"
  shows "step_data crypto s n rem sig w p =
    (let k = min rem (length w); c = take k w in
     case remaining_after (expected_decoded_remaining s) k of
       None \<Rightarrow> Fail (s\<lparr>current_chunk_hash := map_option (\<lambda>h. h @ c) (current_chunk_hash s)\<rparr>) Panic
     | Some d \<Rightarrow>
         if rem - k \<noteq> 0 then Stop (after_data s c d (ReadingData n (rem - k) sig)) (p @ c)
         else finish_chunk crypto (after_data s c d (ReadingData n 0 sig)) n sig (drop k w) (p @ c))"
  using assms by (simp add: step_data_def remaining_after_def after_data_def Let_def split: option.split)

lemma step_data_stop:
  assumes "step_data crypto s n rem sig a p = Stop s' p'" and "rem < 2 ^ 64" and "dec_state s = ReadingData n rem sig"
  shows "\<exists>rem' \<le> rem. dec_state s' = ReadingData n rem' sig \<and> dec_buf s' = dec_buf s \<and>
    same_flow (step_data crypto s n rem sig (a @ b) p) (step_data crypto s' n rem' sig b p')"
proof (cases "a = []")
  case True
  with assms show ?thesis by (intro exI [of _ rem]) (simp add: step_data_def)
next
  case False
  let ?d = "expected_decoded_remaining s"
  obtain d where d: "remaining_after ?d (min rem (length a)) = Some d"
    using assms(1) unfolding step_data_eq [OF False] Let_def by (cases "remaining_after ?d (min rem (length a))") simp_all
  have short: "length a < rem"
    using assms(1) finish_chunk_Stop unfolding step_data_eq [OF False] Let_def d option.case
    by (cases "length a < rem") (simp_all add: min_absorb1)
  then have k: "min rem (length a) = length a" by simp
  have s': "s' = after_data s a d (ReadingData n (rem - length a) sig)" and p': "p' = p @ a"
    using assms(1) short unfolding step_data_eq [OF False] Let_def k d [unfolded k] option.case by simp_all
  have "same_flow (step_data crypto s n rem sig (a @ b) p) (step_data crypto s' n (rem - length a) sig b p')"
  proof (cases "b = []")
    case True
    then show ?thesis using assms(1) by (simp add: step_data_def [of crypto s' n "rem - length a"])
  next
    case b: False
    define j where "j = min (rem - length a) (length b)"
    have j: "min rem (length (a @ b)) = length a + j" using short by (auto simp: j_def min_def)
    have less: "length a + j < 2 ^ 64" using assms(2) short by (simp add: j_def)
    have sub: "remaining_after ?d (length a + j) = remaining_after d j"
      using remaining_after_twice [OF d [unfolded k] less] .
    have ab: "a @ b \<noteq> []" using b by simp
    show ?thesis
      unfolding step_data_eq [OF ab] step_data_eq [OF b] Let_def j j_def [symmetric] s' p' sub after_data_simps
      by (cases "remaining_after d j") (simp_all add: diff_diff_left)
  qed
  then show ?thesis unfolding s' by (intro exI [of _ "rem - length a"]) simp
qed

text \<open>What every reachable decoder satisfies and slicing needs.\<close>

definition dec_ok :: "IncrementalChunkedDecoder \<Rightarrow> bool" where
  "dec_ok s \<longleftrightarrow> no_crlf (dec_buf s) \<and> length (dec_buf s) \<le> MAX_CHUNKED_LINE_BYTES \<and>
     (case dec_state s of ReadingData n rem sig \<Rightarrow> rem \<le> n \<and> n < 2 ^ 64 | _ \<Rightarrow> True)"

lemma from_str_radix_bound: "from_str_radix w radix str = Some n \<Longrightarrow> n < 2 ^ w"
  by (simp add: from_str_radix_def Let_def split: option.splits if_splits)

lemma parse_chunk_header_size:
  assumes "parse_chunk_header line = Inr (n, sig)"
  shows "n < 2 ^ 64"
proof -
  obtain size_part where "from_str_radix 64 16 (trim size_part) = Some n"
    using assms unfolding parse_chunk_header_def
    by (auto simp only: and_then_Inr_iff ok_or_Inr_iff Let_def case_prod_unfold prod.inject sum.inject)
  then show ?thesis by (rule from_str_radix_bound)
qed

lemma start_chunk_Next:
  "start_chunk s n sig w p = Next s' w' p' \<Longrightarrow> dec_state s' = ReadingData n n sig"
  by (auto simp: start_chunk_def Let_def split: sum.splits)

lemma terminal_chunk_Next: "terminal_chunk crypto s sig w p = Next s' w' p' \<Longrightarrow> dec_state s' = ReadingTrailers"
  by (auto simp: terminal_chunk_def split: option.splits sum.splits if_splits)

lemma finish_chunk_Next:
  "finish_chunk crypto s n sig w p = Next s' w' p' \<Longrightarrow> dec_state s' = ExpectingDataCrlf False"
  by (auto simp: finish_chunk_def Let_def split: option.splits sum.splits)

lemma feed_step_ok:
  assumes "dec_ok s" and "feed_step crypto s w p = Next s' w' p'"
  shows "dec_ok s'"
proof (cases "dec_state s")
  case ReadingHeader
  then obtain line buf u where line: "read_crlf_line (dec_buf s) w = Inr (Some line, buf, u)"
    and rest: "header_line crypto (s\<lparr>dec_buf := buf\<rparr>) line u p = Next s' w' p'"
    using assms(2) by (auto simp: feed_step_def step_header_def split: sum.splits option.splits)
  have buf: "dec_buf s' = []"
    using header_line_grow [OF rest, of "[]"] read_line_Some(1) [OF _ line] assms(1) by (simp add: dec_ok_def)
  obtain n sig where "parse_chunk_header line = Inr (n, sig)"
    and "terminal_chunk crypto (s\<lparr>dec_buf := buf\<rparr>) sig u p = Next s' w' p' \<or> start_chunk (s\<lparr>dec_buf := buf\<rparr>) n sig u p = Next s' w' p'"
    using rest by (auto simp: header_line_def split: sum.splits if_splits)
  with buf show ?thesis
    using parse_chunk_header_size by (auto simp: dec_ok_def dest!: terminal_chunk_Next start_chunk_Next)
next
  case (ReadingData n rem sig)
  then have w: "w \<noteq> []" using assms(2) by (auto simp: feed_step_def step_data_def)
  obtain t u q where "finish_chunk crypto t n sig u q = Next s' w' p'" and "dec_buf t = dec_buf s"
    using assms(2) ReadingData unfolding feed_step_def
    by (auto simp: step_data_eq [OF w] Let_def split: option.splits if_splits)
  with assms(1) show ?thesis
    using finish_chunk_buf [of crypto t n sig u q s' w' p'] by (auto simp: dec_ok_def dest!: finish_chunk_Next)
next
  case (ExpectingDataCrlf seen)
  with assms show ?thesis
    by (auto simp: feed_step_def step_crlf_def step_lf_def dec_ok_def split: list.splits if_splits)
next
  case ReadingTrailers
  with assms(2) trailers_never_next show ?thesis by (simp add: feed_step_def)
qed (use assms(2) in \<open>simp_all add: feed_step_def\<close>)

lemma feed_step_stop:
  assumes "dec_ok s" and "feed_step crypto s a p = Stop s' p'" and "\<not> dec_done s'"
  shows "dec_ok s' \<and> same_flow (feed_step crypto s (a @ b) p) (feed_step crypto s' b p')"
proof (cases "dec_state s")
  case ReadingHeader
  then obtain buf u where line: "read_crlf_line (dec_buf s) a = Inr (None, buf, u)" and s': "s' = s\<lparr>dec_buf := buf\<rparr>" "p' = p"
    using assms(2) header_line_Stop by (auto simp: feed_step_def step_header_def split: sum.splits option.splits)
  note more = read_line_None [OF _ line]
  have "same_flow (step_header crypto s (a @ b) p) (step_header crypto (s\<lparr>dec_buf := buf\<rparr>) b p)"
    unfolding step_header_def using more(5) assms(1)
    by (cases "read_crlf_line buf b") (auto simp: dec_ok_def split: option.split)
  then show ?thesis using ReadingHeader assms(1) more unfolding s' by (simp add: feed_step_def dec_ok_def)
next
  case (ReadingData n rem sig)
  with assms(1) have "rem \<le> n" "n < 2 ^ 64" by (simp_all add: dec_ok_def)
  then obtain rem' where "rem' \<le> rem" "dec_state s' = ReadingData n rem' sig" "dec_buf s' = dec_buf s"
    "same_flow (step_data crypto s n rem sig (a @ b) p) (step_data crypto s' n rem' sig b p')"
    using step_data_stop [of crypto s n rem sig a p s' p' b] assms(2) ReadingData by (auto simp: feed_step_def)
  with ReadingData assms(1) show ?thesis by (auto simp: feed_step_def dec_ok_def)
next
  case (ExpectingDataCrlf seen)
  with assms show ?thesis
    by (cases a; cases seen) (auto simp: feed_step_def step_crlf_def step_lf_def dec_ok_def split: list.splits if_splits)
next
  case ReadingTrailers
  with assms read_trailers_stop [of s crypto a p s' p' b] show ?thesis by (simp add: feed_step_def dec_ok_def)
qed (use assms in \<open>auto simp: feed_step_def\<close>)

lemma same_flow_loop:
  assumes "same_flow (feed_step crypto s a p) (feed_step crypto t b q)"
  shows "snd (feed_loop crypto s a p) = snd (feed_loop crypto t b q) \<and>
    (isl (snd (feed_loop crypto t b q)) \<or> feed_loop crypto s a p = feed_loop crypto t b q)"
  using assms unfolding same_flow_def feed_loop.simps [of crypto s a p] feed_loop.simps [of crypto t b q] by auto

lemma feed_loop_split:
  assumes "dec_ok s" and "feed_loop crypto s a p = (s', Inr p')" and "\<not> dec_done s'"
  shows "dec_ok s' \<and> snd (feed_loop crypto s (a @ b) p) = snd (feed_loop crypto s' b p') \<and>
    (isl (snd (feed_loop crypto s' b p')) \<or> feed_loop crypto s (a @ b) p = feed_loop crypto s' b p')"
  using assms
proof (induction crypto s a p rule: feed_loop.induct)
  case (1 crypto s a p)
  show ?case
  proof (cases "feed_step crypto s a p")
    case (Next t w q)
    have "feed_loop crypto s (a @ b) p = feed_loop crypto t (w @ b) q"
      using feed_step_grow [of s crypto a p t w q b] Next "1.prems"(1) by (simp add: feed_loop.simps [of crypto s] dec_ok_def)
    moreover have "feed_loop crypto t w q = (s', Inr p')" using "1.prems"(2) Next by (simp add: feed_loop.simps [of crypto s])
    ultimately show ?thesis using "1.IH" [OF Next feed_step_ok [OF "1.prems"(1) Next]] "1.prems"(3) by simp
  next
    case (Stop t q)
    then have "t = s'" "q = p'" using "1.prems"(2) by (simp_all add: feed_loop.simps [of crypto s])
    with feed_step_stop [OF "1.prems"(1) Stop, of b] "1.prems"(3) show ?thesis using same_flow_loop by blast
  next
    case (Fail t e)
    then show ?thesis using "1.prems"(2) by (simp add: feed_loop.simps [of crypto s])
  qed
qed

end
