(* ===== verification/Chunked_Bodies.thy ===== *)
theory Chunked_Bodies
  imports Chunked_Slices
begin

text \<open>
  The bodies the decoder accepts, as a grammar over the wire: header lines and data of the chunks, the line of the
  terminal chunk, trailer lines and the empty line. The signature of a chunk is the one computed over the
  signature before it and the data.
\<close>

abbreviation CRLF :: bytes where "CRLF \<equiv> [CR, LF]"

section \<open>Lines\<close>

definition line_ok :: "bytes \<Rightarrow> bool" where
  "line_ok l \<longleftrightarrow> find_crlf (l @ CRLF) 0 = Some (length l) \<and> length l \<le> MAX_CHUNKED_LINE_BYTES"

lemma line_ok_Nil [simp]: "line_ok []"
  by (simp add: line_ok_def find_crlf.simps)

lemma read_line_iff:
  "read_crlf_line [] w = Inr (Some l, b, w') \<longleftrightarrow> line_ok l \<and> w = l @ CRLF @ w' \<and> b = []"
proof
  assume read: "read_crlf_line [] w = Inr (Some l, b, w')"
  then obtain j where j: "find_crlf w 0 = Some j"
    by (cases "find_crlf w 0") (simp_all add: read_crlf_line_def split: if_splits)
  with read have l: "j \<le> MAX_CHUNKED_LINE_BYTES" "l = take j w" "b = []" "w' = drop (j + 2) w"
    by (simp_all add: read_crlf_line_def split: if_splits)
  have at: "j + 1 < length w" "w ! j = CR" "w ! (j + 1) = LF" "\<And>k. k < j \<Longrightarrow> \<not> crlf_at w k"
    using j unfolding find_crlf_Some_iff by (auto simp: crlf_at_def)
  have "take 2 (drop j w) = CRLF"
    using at(1-3) by (simp add: numeral_2_eq_2 take_Suc_conv_app_nth)
  then have two: "take (j + 2) w = l @ CRLF" unfolding l(2) by (metis take_add)
  have "find_crlf (take (j + 2) w) 0 = Some j"
    unfolding find_crlf_Some_iff using at by (auto simp: crlf_at_def)
  moreover have "w = take (j + 2) w @ w'" unfolding l(4) by simp
  moreover have "length l = j" using at(1) l(2) by simp
  ultimately show "line_ok l \<and> w = l @ CRLF @ w' \<and> b = []"
    using l(1,3) two by (simp add: line_ok_def)
next
  assume w: "line_ok l \<and> w = l @ CRLF @ w' \<and> b = []"
  then have "find_crlf ((l @ CRLF) @ w') 0 = Some (length l)"
    by (simp only: find_crlf_append_Some line_ok_def)
  with w show "read_crlf_line [] w = Inr (Some l, b, w')" by (simp add: read_crlf_line_def line_ok_def)
qed

section \<open>Signatures\<close>

definition ct_ok :: "Crypto \<Rightarrow> bool" where
  "ct_ok crypto \<longleftrightarrow> (\<forall>a b. length a = length b \<longrightarrow> ct_eq crypto a b = (a = b))"

definition mac :: "Crypto \<Rightarrow> StreamingSigningContext \<Rightarrow> string \<Rightarrow> string" where
  "mac crypto ctx to_sign = hex_encode (hmac_sha256 crypto (signing_key ctx) (bytes_of_string to_sign))"

definition chunk_signature :: "Crypto \<Rightarrow> StreamingSigningContext \<Rightarrow> string \<Rightarrow> bytes \<Rightarrow> string" where
  "chunk_signature crypto ctx prev data = mac crypto ctx (chunk_string_to_sign crypto ctx prev (sha256_hex crypto data))"

lemma bytes_of_string_inject: "bytes_of_string a = bytes_of_string b \<longleftrightarrow> a = b"
  by (metis string_of_bytes_of_string)

lemma check_signature_iff: "ct_ok crypto \<Longrightarrow> check_signature crypto ctx to_sign sig = Inr u \<longleftrightarrow> sig = mac crypto ctx to_sign"
  by (auto simp: check_signature_def constant_time_eq_def ct_ok_def mac_def Let_def bytes_of_string_inject)

lemma verify_chunk_iff:
  "ct_ok crypto \<Longrightarrow> verify_chunk_signature crypto ctx prev data sig = Inr u \<longleftrightarrow> sig = chunk_signature crypto ctx prev data"
  "ct_ok crypto \<Longrightarrow> verify_chunk_signature_hash crypto ctx prev (hex_encode (sha256 crypto data)) sig = Inr u \<longleftrightarrow>
     sig = chunk_signature crypto ctx prev data"
  by (simp_all add: verify_chunk_signature_def verify_chunk_signature_hash_def check_signature_iff chunk_signature_def sha256_hex_def)

lemma verify_own_signature:
  "ct_ok crypto \<Longrightarrow> verify_chunk_signature_hash crypto ctx q (hex_encode (sha256 crypto data)) (chunk_signature crypto ctx q data) = Inr ()"
  by (simp add: verify_chunk_iff)

text \<open>The signature on a header line: ignored without a signing context, and the right one with it.\<close>

definition signed_ok ::
  "Crypto \<Rightarrow> StreamingSigningContext option \<Rightarrow> string option \<Rightarrow> bytes \<Rightarrow> string option \<Rightarrow> bool" where
  "signed_ok crypto stream prev data sig =
     (case stream of None \<Rightarrow> True
      | Some ctx \<Rightarrow> (\<exists>q. prev = Some q \<and> sig = Some (chunk_signature crypto ctx q data)))"

definition next_sig :: "StreamingSigningContext option \<Rightarrow> string option \<Rightarrow> string option \<Rightarrow> string option" where
  "next_sig stream prev sig = (if stream = None then prev else sig)"

section \<open>Rounds of the decoder\<close>

definition expects_done :: "u64 option \<Rightarrow> bool" where
  "expects_done expected \<longleftrightarrow> expected = None \<or> expected = Some 0"

definition expects_more :: "u64 option \<Rightarrow> nat \<Rightarrow> bool" where
  "expects_more expected n \<longleftrightarrow> (case expected of None \<Rightarrow> True | Some e \<Rightarrow> n \<le> unat e)"

definition size_ok :: "nat option \<Rightarrow> bool" where
  "size_ok prev_size \<longleftrightarrow> (case prev_size of None \<Rightarrow> True | Some n \<Rightarrow> MIN_CHUNK_SIZE \<le> n)"

lemma terminal_chunk_iff:
  assumes "ct_ok crypto" and "streaming s = None \<or> sig \<noteq> None"
  shows "terminal_chunk crypto s sig w p = Next t w' p' \<longleftrightarrow>
    expects_done (expected_decoded_remaining s) \<and> signed_ok crypto (streaming s) (prev_sig s) [] sig \<and>
    t = s\<lparr>prev_sig := next_sig (streaming s) (prev_sig s) sig, dec_state := ReadingTrailers\<rparr> \<and> w' = w \<and> p' = p"
proof (cases "streaming s")
  case None
  have "s\<lparr>dec_state := ReadingTrailers\<rparr> = s\<lparr>prev_sig := prev_sig s, dec_state := ReadingTrailers\<rparr>" by (cases s) simp
  with None show ?thesis by (auto simp: terminal_chunk_def expects_done_def signed_ok_def next_sig_def)
next
  case (Some ctx)
  then obtain q where "sig = Some q" using assms(2) by auto
  with Some assms(1) show ?thesis
    by (auto simp: terminal_chunk_def expects_done_def signed_ok_def next_sig_def verify_chunk_iff
        split: option.splits sum.splits)
       (metis old.unit.exhaust verify_chunk_iff(1) Inl_Inr_False)+
qed

lemma start_chunk_iff:
  "n < 2 ^ 64 \<Longrightarrow> start_chunk s n sig w p = Next t w' p' \<longleftrightarrow>
     size_ok (prev_chunk_size s) \<and> expects_more (expected_decoded_remaining s) n \<and>
     t = s\<lparr>current_chunk_hash := map_option (\<lambda>_. []) (streaming s), dec_state := ReadingData n n sig\<rparr> \<and> w' = w \<and> p' = p"
  by (auto simp: start_chunk_def Let_def size_ok_def expects_more_def split: option.splits)

lemma finish_chunk_iff:
  assumes "ct_ok crypto" and "streaming s = None \<longleftrightarrow> current_chunk_hash s = None"
    and "\<And>h. current_chunk_hash s = Some h \<Longrightarrow> h = data"
  shows "finish_chunk crypto s n sig w p = Next t w' p' \<longleftrightarrow>
    signed_ok crypto (streaming s) (prev_sig s) data sig \<and>
    t = s\<lparr>prev_sig := next_sig (streaming s) (prev_sig s) sig, current_chunk_hash := None, prev_chunk_size := Some n,
          chunk_number := chunk_number s + 1, dec_state := ExpectingDataCrlf False\<rparr> \<and> w' = w \<and> p' = p"
proof (cases "streaming s")
  case None
  then have "s\<lparr>prev_chunk_size := Some n, chunk_number := chunk_number s + 1, dec_state := ExpectingDataCrlf False\<rparr> =
      s\<lparr>prev_sig := prev_sig s, current_chunk_hash := None, prev_chunk_size := Some n,
        chunk_number := chunk_number s + 1, dec_state := ExpectingDataCrlf False\<rparr>"
    using assms(2) by (cases s) simp
  with None show ?thesis by (auto simp: finish_chunk_def signed_ok_def next_sig_def Let_def)
next
  case (Some ctx)
  then obtain h where "current_chunk_hash s = Some h" using assms(2) by auto
  moreover have "h = data" using assms(3) calculation .
  ultimately show ?thesis
    using Some assms(1)
    by (cases sig; cases "prev_sig s"; cases "verify_chunk_signature_hash crypto ctx (the (prev_sig s)) (hex_encode (sha256 crypto data)) (the sig)")
      (auto simp: finish_chunk_def signed_ok_def next_sig_def Let_def
          verify_own_signature [OF assms(1)] dest!: verify_chunk_iff(2) [THEN iffD1, OF assms(1)])
qed

text \<open>What a header line does to the decoder.\<close>

definition header_ok ::
  "Crypto \<Rightarrow> IncrementalChunkedDecoder \<Rightarrow> nat \<Rightarrow> string option \<Rightarrow> IncrementalChunkedDecoder \<Rightarrow> bool" where
  "header_ok crypto s n sig t \<longleftrightarrow> (streaming s = None \<or> sig \<noteq> None) \<and>
     (if n = 0
      then expects_done (expected_decoded_remaining s) \<and> signed_ok crypto (streaming s) (prev_sig s) [] sig \<and>
           t = s\<lparr>prev_sig := next_sig (streaming s) (prev_sig s) sig, dec_state := ReadingTrailers\<rparr>
      else size_ok (prev_chunk_size s) \<and> expects_more (expected_decoded_remaining s) n \<and>
           t = s\<lparr>current_chunk_hash := map_option (\<lambda>_. []) (streaming s), dec_state := ReadingData n n sig\<rparr>)"

lemma header_line_iff:
  assumes "ct_ok crypto"
  shows "header_line crypto s l u p = Next t w' p' \<longleftrightarrow>
    (\<exists>n sig. parse_chunk_header l = Inr (n, sig) \<and> header_ok crypto s n sig t \<and> w' = u \<and> p' = p)"
proof (cases "parse_chunk_header l")
  case (Inr r)
  obtain n sig where r: "r = (n, sig)" by (cases r)
  have n: "n < 2 ^ 64" using parse_chunk_header_size Inr r by simp
  show ?thesis
  proof (cases "streaming s = None \<or> sig \<noteq> None")
    case signed: True
    show ?thesis
      using Inr r signed terminal_chunk_iff [OF assms signed, of u p t w' p'] start_chunk_iff [OF n, of s sig u p t w' p']
      by (cases "n = 0") (auto simp: header_line_def header_ok_def)
  next
    case False
    with Inr r show ?thesis by (auto simp: header_line_def header_ok_def)
  qed
qed (simp add: header_line_def)

lemma header_round:
  assumes "ct_ok crypto" and "dec_state s = ReadingHeader" and "dec_buf s = []"
  shows "feed_step crypto s w p = Next t w' p' \<longleftrightarrow>
    (\<exists>l n sig. w = l @ CRLF @ w' \<and> line_ok l \<and> parse_chunk_header l = Inr (n, sig) \<and> header_ok crypto s n sig t \<and> p' = p)"
proof -
  have buf: "s\<lparr>dec_buf := []\<rparr> = s" using assms(3) by (cases s) simp
  have "feed_step crypto s w p = Next t w' p' \<longleftrightarrow>
      (\<exists>l b u. read_crlf_line [] w = Inr (Some l, b, u) \<and> header_line crypto (s\<lparr>dec_buf := b\<rparr>) l u p = Next t w' p')"
    using assms(2,3) by (auto simp: feed_step_def step_header_def split: sum.splits option.splits)
  then show ?thesis unfolding read_line_iff header_line_iff [OF assms(1)] using buf by auto
qed

text \<open>The data of a chunk, when all of it is there.\<close>

definition after_chunk ::
  "IncrementalChunkedDecoder \<Rightarrow> nat \<Rightarrow> string option \<Rightarrow> ChunkedDecoderState \<Rightarrow> IncrementalChunkedDecoder" where
  "after_chunk s n sig st =
     s\<lparr>prev_sig := next_sig (streaming s) (prev_sig s) sig, current_chunk_hash := None,
       expected_decoded_remaining := map_option (\<lambda>e. e - of_nat n) (expected_decoded_remaining s),
       prev_chunk_size := Some n, chunk_number := chunk_number s + 1, dec_state := st\<rparr>"

lemma data_round:
  assumes "ct_ok crypto" and "dec_state s = ReadingData n n sig" and "0 < n" and "n < 2 ^ 64"
    and "current_chunk_hash s = map_option (\<lambda>_. []) (streaming s)" and "expects_more (expected_decoded_remaining s) n"
  shows "feed_step crypto s w p = Next t w' p' \<longleftrightarrow>
    (\<exists>d. w = d @ w' \<and> length d = n \<and> signed_ok crypto (streaming s) (prev_sig s) d sig \<and> p' = p @ d \<and>
       t = after_chunk s n sig (ExpectingDataCrlf False))"
proof (cases "n \<le> length w")
  case True
  then have w: "w \<noteq> []" using assms(3) by auto
  have "of_nat n \<le> e" if "expected_decoded_remaining s = Some e" for e :: u64
    using that assms(4,6) by (simp add: expects_more_def word_le_nat_alt unat_of_nat)
  then have rem: "remaining_after (expected_decoded_remaining s) n =
      Some (map_option (\<lambda>e. e - of_nat n) (expected_decoded_remaining s))"
    by (cases "expected_decoded_remaining s") (simp_all add: remaining_after_def checked_sub_def)
  let ?t = "after_data s (take n w) (map_option (\<lambda>e. e - of_nat n) (expected_decoded_remaining s)) (ReadingData n 0 sig)"
  have step: "feed_step crypto s w p = finish_chunk crypto ?t n sig (drop n w) (p @ take n w)"
    using True assms(2) by (simp add: feed_step_def step_data_eq [OF w] Let_def min_absorb1 rem)
  have hashed: "streaming ?t = None \<longleftrightarrow> current_chunk_hash ?t = None" "\<And>h. current_chunk_hash ?t = Some h \<Longrightarrow> h = take n w"
    using assms(5) by auto
  have finish: "finish_chunk crypto ?t n sig (drop n w) (p @ take n w) = Next t w' p' \<longleftrightarrow>
      signed_ok crypto (streaming s) (prev_sig s) (take n w) sig \<and>
      t = after_chunk s n sig (ExpectingDataCrlf False) \<and>
      w' = drop n w \<and> p' = p @ take n w"
  proof -
    have "?t\<lparr>prev_sig := next_sig (streaming ?t) (prev_sig ?t) sig, current_chunk_hash := None, prev_chunk_size := Some n,
        chunk_number := chunk_number ?t + 1, dec_state := ExpectingDataCrlf False\<rparr> = after_chunk s n sig (ExpectingDataCrlf False)"
      by (cases s) (simp add: after_data_def after_chunk_def)
    then show ?thesis using finish_chunk_iff [OF assms(1) hashed, of n sig "drop n w" "p @ take n w" t w' p'] by simp
  qed
  have "(\<exists>d. w = d @ w' \<and> length d = n \<and> Q d) \<longleftrightarrow> w' = drop n w \<and> Q (take n w)" for Q
  proof
    assume "\<exists>d. w = d @ w' \<and> length d = n \<and> Q d"
    then obtain d where "w = d @ w'" "length d = n" "Q d" by blast
    then show "w' = drop n w \<and> Q (take n w)" by simp
  next
    assume "w' = drop n w \<and> Q (take n w)"
    then show "\<exists>d. w = d @ w' \<and> length d = n \<and> Q d" using True by (intro exI [of _ "take n w"]) simp
  qed
  then show ?thesis unfolding step finish by auto
next
  case False
  have no: "feed_step crypto s w p \<noteq> Next t w' p'"
  proof (cases "w = []")
    case False
    with \<open>\<not> n \<le> length w\<close> assms(2) show ?thesis
      by (simp add: feed_step_def step_data_eq [OF False] Let_def split: option.split)
  qed (use assms(2) in \<open>simp add: feed_step_def step_data_def\<close>)
  with False show ?thesis by auto
qed

lemma crlf_round:
  "dec_state s = ExpectingDataCrlf False \<Longrightarrow>
     feed_step crypto s w p = Next t w' p' \<longleftrightarrow> w = CRLF @ w' \<and> p' = p \<and> t = s\<lparr>dec_state := ReadingHeader\<rparr>"
  by (auto simp: feed_step_def step_crlf_def step_lf_def split: list.splits)

section \<open>Trailers\<close>

definition trailer_of :: "bytes \<Rightarrow> (string \<times> string) option" where
  "trailer_of l = Option.bind (from_utf8 l) (\<lambda>str.
     map_option (\<lambda>(k, v). (to_ascii_lowercase (trim k), trim v)) (split_once (CHR '':'') str))"

definition lines_len :: "bytes list \<Rightarrow> nat" where
  "lines_len ls = sum_list (map (\<lambda>l. length l + 2) ls)"

definition after_trailers ::
  "IncrementalChunkedDecoder \<Rightarrow> bytes list \<Rightarrow> (string \<times> string) list \<Rightarrow> IncrementalChunkedDecoder" where
  "after_trailers s ls kvs =
     s\<lparr>trailer_count := trailer_count s + length ls, trailer_bytes := trailer_bytes s + lines_len ls,
       trailers := trailers s @ kvs\<rparr>"

lemma after_trailers_Nil [simp]: "after_trailers s [] [] = s"
  by (cases s) (simp add: after_trailers_def lines_len_def)

lemma after_trailers_simps [simp]:
  "after_trailers (after_trailers s ls kvs) ms lvs = after_trailers s (ls @ ms) (kvs @ lvs)"
  "dec_buf (after_trailers s ls kvs) = dec_buf s" "dec_done (after_trailers s ls kvs) = dec_done s"
  "streaming (after_trailers s ls kvs) = streaming s" "prev_sig (after_trailers s ls kvs) = prev_sig s"
  "trailer_mode (after_trailers s ls kvs) = trailer_mode s"
  "trailers (after_trailers s ls kvs) = trailers s @ kvs"
  by (simp_all add: after_trailers_def lines_len_def add.assoc)

definition trailers_fit :: "IncrementalChunkedDecoder \<Rightarrow> bytes list \<Rightarrow> bool" where
  "trailers_fit s ls \<longleftrightarrow> ls = [] \<or>
     trailer_count s + length ls \<le> MAX_CHUNKED_TRAILER_COUNT \<and> trailer_bytes s + lines_len ls \<le> MAX_CHUNKED_TRAILER_BYTES"

lemma push_trailer_iff:
  "push_trailer s l = (t, Inr u) \<longleftrightarrow>
     trailers_fit s [l] \<and> (\<exists>kv. trailer_of l = Some kv \<and> t = after_trailers s [l] [kv])"
proof -
  have same: "s\<lparr>trailer_count := trailer_count s + 1, trailer_bytes := trailer_bytes s + (length l + 2),
      trailers := trailers s @ [kv]\<rparr> = after_trailers s [l] [kv]" for kv
    by (simp add: after_trailers_def lines_len_def)
  show ?thesis
    by (auto simp: push_trailer_def trailers_fit_def lines_len_def trailer_of_def Let_def after_trailers_def
        split: option.splits)
qed

lemma trailers_fit_Cons:
  "trailers_fit s (l # ls) \<longleftrightarrow> trailers_fit s [l] \<and> trailers_fit (after_trailers s [l] [kv]) ls"
  by (auto simp: trailers_fit_def after_trailers_def lines_len_def)

definition trailer_lines_ok :: "bytes list \<Rightarrow> (string \<times> string) list \<Rightarrow> bool" where
  "trailer_lines_ok ls kvs \<longleftrightarrow> list_all2 (\<lambda>l kv. l \<noteq> [] \<and> line_ok l \<and> trailer_of l = Some kv) ls kvs"

definition wire_lines :: "bytes list \<Rightarrow> bytes" where
  "wire_lines ls = concat (map (\<lambda>l. l @ CRLF) ls)"

lemma trailers_round:
  assumes "dec_buf s = []" and "\<not> dec_done s"
  shows "read_trailers crypto s w p = Stop s' p' \<and> dec_done s' \<longleftrightarrow>
    (\<exists>l u. line_ok l \<and> w = l @ CRLF @ u \<and>
       (if l = [] then finish_trailers crypto s p = Stop s' p'
        else \<exists>t. push_trailer s l = (t, Inr ()) \<and> read_trailers crypto t u p = Stop s' p' \<and> dec_done s'))"
proof -
  have buf: "s\<lparr>dec_buf := []\<rparr> = s" using assms(1) by (cases s) simp
  have "read_trailers crypto s w p = Stop s' p' \<and> dec_done s' \<longleftrightarrow>
      (\<exists>l b u. read_crlf_line [] w = Inr (Some l, b, u) \<and>
         (if l = [] then finish_trailers crypto (s\<lparr>dec_buf := b\<rparr>) p = Stop s' p' \<and> dec_done s'
          else \<exists>t. push_trailer (s\<lparr>dec_buf := b\<rparr>) l = (t, Inr ()) \<and> read_trailers crypto t u p = Stop s' p' \<and> dec_done s'))"
    (is "_ \<longleftrightarrow> ?line")
  proof (cases "read_crlf_line [] w")
    case (Inr r)
    obtain l b u where r: "r = (l, b, u)" by (cases r)
    show ?thesis
    proof (cases l)
      case None
      with Inr r assms show ?thesis by (auto simp: read_trailers.simps [of crypto s w])
    next
      case (Some line)
      obtain t e where push: "push_trailer (s\<lparr>dec_buf := b\<rparr>) line = (t, e)" by fastforce
      show ?thesis
        using Inr r Some assms(1) push by (cases "line = []"; cases e) (simp_all add: read_trailers.simps [of crypto s w] Let_def)
    qed
  qed (use assms(1) in \<open>simp add: read_trailers.simps [of crypto s w]\<close>)
  moreover have "finish_trailers crypto s p = Stop s' p' \<and> dec_done s' \<longleftrightarrow> finish_trailers crypto s p = Stop s' p'"
    using finish_trailers_done by blast
  ultimately show ?thesis unfolding read_line_iff by (auto simp: buf)
qed

text \<open>The rest of the wire from the trailers on.\<close>

definition trailer_wire ::
  "Crypto \<Rightarrow> IncrementalChunkedDecoder \<Rightarrow> bytes \<Rightarrow> bytes \<Rightarrow> IncrementalChunkedDecoder \<Rightarrow> bytes \<Rightarrow> bool" where
  "trailer_wire crypto s w p s' p' \<longleftrightarrow>
     (\<exists>ls kvs rest. w = wire_lines ls @ CRLF @ rest \<and> trailer_lines_ok ls kvs \<and> trailers_fit s ls \<and>
        finish_trailers crypto (after_trailers s ls kvs) p = Stop s' p')"

lemma trailer_wire_Nil:
  "finish_trailers crypto s p = Stop s' p' \<Longrightarrow> trailer_wire crypto s (CRLF @ rest) p s' p'"
  unfolding trailer_wire_def
  by (intro exI [of _ "[]"] exI [of _ rest]) (simp add: wire_lines_def trailer_lines_ok_def trailers_fit_def)

lemma trailer_wire_Cons:
  assumes "l \<noteq> []" and "line_ok l" and "trailer_of l = Some kv" and "trailers_fit s [l]"
    and "trailer_wire crypto (after_trailers s [l] [kv]) w p s' p'"
  shows "trailer_wire crypto s (l @ CRLF @ w) p s' p'"
proof -
  obtain ls kvs rest where r: "w = wire_lines ls @ CRLF @ rest" "trailer_lines_ok ls kvs"
    "trailers_fit (after_trailers s [l] [kv]) ls"
    "finish_trailers crypto (after_trailers (after_trailers s [l] [kv]) ls kvs) p = Stop s' p'"
    using assms(5) unfolding trailer_wire_def by blast
  with assms trailers_fit_Cons [of s l ls kv] show ?thesis
    unfolding trailer_wire_def
    by (intro exI [of _ "l # ls"] exI [of _ "kv # kvs"] exI [of _ rest]) (simp add: wire_lines_def trailer_lines_ok_def)
qed

lemma trailer_wire_cases:
  assumes "trailer_wire crypto s w p s' p'"
  obtains rest where "w = CRLF @ rest" "finish_trailers crypto s p = Stop s' p'"
  | l kv u where "l \<noteq> []" "line_ok l" "trailer_of l = Some kv" "trailers_fit s [l]" "w = l @ CRLF @ u"
      "trailer_wire crypto (after_trailers s [l] [kv]) u p s' p'"
proof -
  obtain ls kvs rest where r: "w = wire_lines ls @ CRLF @ rest" "trailer_lines_ok ls kvs" "trailers_fit s ls"
    "finish_trailers crypto (after_trailers s ls kvs) p = Stop s' p'"
    using assms unfolding trailer_wire_def by blast
  show ?thesis
  proof (cases ls)
    case Nil
    with r that(1) [of rest] show ?thesis by (simp add: wire_lines_def trailer_lines_ok_def)
  next
    case (Cons l ls')
    then obtain kv kvs' where kvs: "kvs = kv # kvs'" "l \<noteq> []" "line_ok l" "trailer_of l = Some kv" "trailer_lines_ok ls' kvs'"
      using r(2) by (auto simp: trailer_lines_ok_def list_all2_Cons1)
    have fit: "trailers_fit s [l]" "trailers_fit (after_trailers s [l] [kv]) ls'"
      using r(3) trailers_fit_Cons [of s l ls' kv] Cons by simp_all
    have "trailer_wire crypto (after_trailers s [l] [kv]) (wire_lines ls' @ CRLF @ rest) p s' p'"
      unfolding trailer_wire_def using r(4) kvs fit Cons
      by (intro exI [of _ ls'] exI [of _ kvs'] exI [of _ rest]) simp
    moreover have "w = l @ CRLF @ (wire_lines ls' @ CRLF @ rest)" using r(1) Cons by (simp add: wire_lines_def)
    ultimately show ?thesis using that(2) kvs fit(1) by blast
  qed
qed

lemma read_trailers_iff:
  assumes "dec_buf s = []" and "\<not> dec_done s"
  shows "read_trailers crypto s w p = Stop s' p' \<and> dec_done s' \<longleftrightarrow> trailer_wire crypto s w p s' p'"
  using assms
proof (induction "length w" arbitrary: s w rule: less_induct)
  case less
  have IH: "read_trailers crypto (after_trailers s [l] [kv]) u p = Stop s' p' \<and> dec_done s' \<longleftrightarrow>
      trailer_wire crypto (after_trailers s [l] [kv]) u p s' p'" if "w = l @ CRLF @ u" for l u kv
    using less.hyps [of u "after_trailers s [l] [kv]"] that less.prems by simp
  show ?case
  proof
    assume "read_trailers crypto s w p = Stop s' p' \<and> dec_done s'"
    then obtain l u where l: "line_ok l" "w = l @ CRLF @ u" "if l = [] then finish_trailers crypto s p = Stop s' p'
        else \<exists>t. push_trailer s l = (t, Inr ()) \<and> read_trailers crypto t u p = Stop s' p' \<and> dec_done s'"
      unfolding trailers_round [OF less.prems] by blast
    show "trailer_wire crypto s w p s' p'"
    proof (cases "l = []")
      case True
      with l show ?thesis using trailer_wire_Nil by simp
    next
      case False
      with l(3) obtain t where t: "push_trailer s l = (t, Inr ())" "read_trailers crypto t u p = Stop s' p' \<and> dec_done s'" by auto
      then obtain kv where "trailers_fit s [l]" "trailer_of l = Some kv" "t = after_trailers s [l] [kv]"
        unfolding push_trailer_iff by blast
      with t(2) IH [OF l(2)] False l(1,2) trailer_wire_Cons show ?thesis by blast
    qed
  next
    assume "trailer_wire crypto s w p s' p'"
    then show "read_trailers crypto s w p = Stop s' p' \<and> dec_done s'"
    proof (cases rule: trailer_wire_cases)
      case (1 rest)
      then show ?thesis
        unfolding trailers_round [OF less.prems] by (intro exI [of _ "[]"] exI [of _ rest]) simp
    next
      case (2 l kv u)
      have "push_trailer s l = (after_trailers s [l] [kv], Inr ())" using 2 by (simp add: push_trailer_iff)
      with 2 IH [OF 2(5)] show ?thesis
        unfolding trailers_round [OF less.prems] by (intro exI [of _ l] exI [of _ u]) simp
    qed
  qed
qed

definition content :: "(string \<times> string) list \<Rightarrow> (string \<times> string) list" where
  "content kvs = filter (\<lambda>(k, _). k \<noteq> TRAILER_SIGNATURE) kvs"

text \<open>In trailer mode with a signing context, trailers must come with the signature over them.\<close>

definition trailers_signed ::
  "Crypto \<Rightarrow> bool \<Rightarrow> StreamingSigningContext option \<Rightarrow> string option \<Rightarrow> (string \<times> string) list \<Rightarrow> bool" where
  "trailers_signed crypto mode stream prev kvs \<longleftrightarrow>
     (mode \<longrightarrow> (case stream of None \<Rightarrow> True
        | Some ctx \<Rightarrow> \<exists>q. prev = Some q \<and>
            (case find (\<lambda>(k, _). k = TRAILER_SIGNATURE) kvs of
               None \<Rightarrow> content kvs = []
             | Some (_, sig) \<Rightarrow> sig = mac crypto ctx (trailer_string_to_sign crypto ctx q (content kvs)))))"

lemma verify_trailer_iff:
  assumes "ct_ok crypto"
  shows "verify_trailer_signature crypto ctx q kvs = Inr u \<longleftrightarrow>
    (case find (\<lambda>(k, _). k = TRAILER_SIGNATURE) kvs of
       None \<Rightarrow> content kvs = []
     | Some (_, sig) \<Rightarrow> sig = mac crypto ctx (trailer_string_to_sign crypto ctx q (content kvs)))"
  using check_signature_iff [OF assms]
  by (simp add: verify_trailer_signature_def content_def Let_def split: option.split prod.split)

lemma finish_trailers_iff:
  assumes "ct_ok crypto"
  shows "finish_trailers crypto s p = Stop s' p' \<longleftrightarrow>
    trailers_signed crypto (trailer_mode s) (streaming s) (prev_sig s) (trailers s) \<and> p' = p \<and>
    s' = s\<lparr>trailers := content (trailers s), dec_state := Done, dec_done := True\<rparr>"
proof (cases "trailer_mode s \<and> streaming s \<noteq> None \<and> prev_sig s \<noteq> None")
  case True
  then obtain ctx q where *: "trailer_mode s" "streaming s = Some ctx" "prev_sig s = Some q" by auto
  have "finish_trailers crypto s p = (case verify_trailer_signature crypto ctx q (trailers s) of
      Inl e \<Rightarrow> Fail s (Error e)
    | Inr _ \<Rightarrow> Stop (s\<lparr>trailers := content (trailers s), dec_state := Done, dec_done := True\<rparr>) p)"
    using * unfolding finish_trailers_def content_def Let_def by simp
  moreover have "trailers_signed crypto (trailer_mode s) (streaming s) (prev_sig s) (trailers s) \<longleftrightarrow>
      verify_trailer_signature crypto ctx q (trailers s) = Inr ()"
    using * by (simp add: trailers_signed_def verify_trailer_iff [OF assms])
  ultimately show ?thesis by (cases "verify_trailer_signature crypto ctx q (trailers s)") auto
next
  case False
  then show ?thesis
    by (cases "streaming s"; cases "prev_sig s")
      (auto simp: finish_trailers_def trailers_signed_def content_def Let_def)
qed

section \<open>Bodies\<close>

fun chunks_ok ::
  "Crypto \<Rightarrow> StreamingSigningContext option \<Rightarrow> string option \<Rightarrow> nat option \<Rightarrow> u64 option \<Rightarrow>
   (bytes \<times> bytes) list \<Rightarrow> bytes \<Rightarrow> string option \<Rightarrow> bool" where
  "chunks_ok crypto stream prev prev_size expected [] final prev' \<longleftrightarrow>
     line_ok final \<and> expects_done expected \<and>
     (\<exists>sig. parse_chunk_header final = Inr (0, sig) \<and> signed_ok crypto stream prev [] sig \<and> prev' = next_sig stream prev sig)"
| "chunks_ok crypto stream prev prev_size expected ((l, d) # cs) final prev' \<longleftrightarrow>
     line_ok l \<and> d \<noteq> [] \<and> size_ok prev_size \<and> expects_more expected (length d) \<and>
     (\<exists>sig. parse_chunk_header l = Inr (length d, sig) \<and> signed_ok crypto stream prev d sig \<and>
        chunks_ok crypto stream (next_sig stream prev sig) (Some (length d))
          (map_option (\<lambda>e. e - of_nat (length d)) expected) cs final prev')"

definition chunk_wire :: "(bytes \<times> bytes) list \<Rightarrow> bytes" where
  "chunk_wire cs = concat (map (\<lambda>(l, d). l @ CRLF @ d @ CRLF) cs)"

text \<open>A call that ends with the body complete goes from round to round until the trailers.\<close>

lemma loop_next:
  assumes "feed_loop crypto s w p = (s', Inr p')" and "dec_done s'" and "\<not> dec_done s"
    and "dec_state s \<noteq> ReadingTrailers" and "dec_state s \<noteq> Done"
  obtains t u q where "feed_step crypto s w p = Next t u q" "feed_loop crypto t u q = (s', Inr p')"
proof (cases "feed_step crypto s w p")
  case (Next t u q)
  with assms(1) that show ?thesis by (simp add: feed_loop.simps [of crypto s])
next
  case (Stop t q)
  have "\<not> dec_done t"
  proof (cases "dec_state s")
    case ReadingHeader
    with Stop assms(3) header_line_Stop show ?thesis
      by (auto simp: feed_step_def step_header_def split: sum.splits option.splits)
  next
    case (ReadingData n rem sig)
    show ?thesis
    proof (cases "w = []")
      case False
      with Stop assms(3) ReadingData finish_chunk_Stop show ?thesis
        by (auto simp: feed_step_def step_data_eq [OF False] Let_def split: option.splits if_splits)
    qed (use Stop assms(3) ReadingData in \<open>simp add: feed_step_def step_data_def\<close>)
  next
    case (ExpectingDataCrlf seen)
    with Stop assms(3) show ?thesis
      by (auto simp: feed_step_def step_crlf_def step_lf_def split: list.splits if_splits)
  qed (use Stop assms(4,5) in \<open>simp_all add: feed_step_def\<close>)
  with Stop assms(1,2) show ?thesis by (simp add: feed_loop.simps [of crypto s])
next
  case (Fail t e)
  with assms(1) show ?thesis by (simp add: feed_loop.simps [of crypto s])
qed

lemma loop_chunk:
  assumes "ct_ok crypto" and "dec_state s = ReadingHeader" and "dec_buf s = []"
    and "line_ok l" and "parse_chunk_header l = Inr (length d, sig)" and "d \<noteq> []"
    and "size_ok (prev_chunk_size s)" and "expects_more (expected_decoded_remaining s) (length d)"
    and "signed_ok crypto (streaming s) (prev_sig s) d sig"
  shows "feed_loop crypto s (l @ CRLF @ d @ CRLF @ w) p = feed_loop crypto (after_chunk s (length d) sig ReadingHeader) w (p @ d)"
proof -
  let ?n = "length d" and ?w = "d @ CRLF @ w"
  define t where "t = s\<lparr>current_chunk_hash := map_option (\<lambda>_. []) (streaming s), dec_state := ReadingData ?n ?n sig\<rparr>"
  have "header_ok crypto s ?n sig t"
    using assms(6-9) by (auto simp: header_ok_def t_def signed_ok_def split: option.splits)
  then have "feed_step crypto s (l @ CRLF @ ?w) p = Next t ?w p"
    unfolding header_round [OF assms(1-3)] using assms(4,5) by blast
  moreover have "feed_step crypto t ?w p = Next (after_chunk s ?n sig (ExpectingDataCrlf False)) (CRLF @ w) (p @ d)"
  proof -
    have t: "dec_state t = ReadingData ?n ?n sig" "current_chunk_hash t = map_option (\<lambda>_. []) (streaming t)"
      "expects_more (expected_decoded_remaining t) ?n" "0 < ?n" "?n < 2 ^ 64"
      using assms(6,8) parse_chunk_header_size [OF assms(5)] by (simp_all add: t_def)
    have "after_chunk t ?n sig (ExpectingDataCrlf False) = after_chunk s ?n sig (ExpectingDataCrlf False)"
      by (cases s) (simp add: t_def after_chunk_def)
    moreover have "signed_ok crypto (streaming t) (prev_sig t) d sig" using assms(9) by (simp add: t_def)
    ultimately show ?thesis
      unfolding data_round [OF assms(1) t(1,4,5,2,3)] by (intro exI [of _ d]) simp
  qed
  moreover have "feed_step crypto (after_chunk s ?n sig (ExpectingDataCrlf False)) (CRLF @ w) (p @ d) =
      Next (after_chunk s ?n sig ReadingHeader) w (p @ d)"
    by (subst crlf_round) (simp_all add: after_chunk_def)
  ultimately show ?thesis by (simp add: feed_loop.simps)
qed

definition at_trailers :: "IncrementalChunkedDecoder \<Rightarrow> string option \<Rightarrow> IncrementalChunkedDecoder" where
  "at_trailers s prev = s\<lparr>prev_sig := prev, dec_state := ReadingTrailers\<rparr>"

lemma loop_trailers:
  assumes "dec_buf s = []" and "\<not> dec_done s"
  shows "feed_loop crypto (at_trailers s prev) w p = (s', Inr p') \<and> dec_done s' \<longleftrightarrow>
    trailer_wire crypto (at_trailers s prev) w p s' p'"
proof -
  have "feed_step crypto (at_trailers s prev) w p = read_trailers crypto (at_trailers s prev) w p"
    by (simp add: feed_step_def at_trailers_def)
  then have "feed_loop crypto (at_trailers s prev) w p = (s', Inr p') \<longleftrightarrow>
      read_trailers crypto (at_trailers s prev) w p = Stop s' p'"
    using trailers_never_next [of crypto "at_trailers s prev" w p]
    by (cases "read_trailers crypto (at_trailers s prev) w p") (auto simp: feed_loop.simps [of crypto "at_trailers s prev"])
  then show ?thesis using read_trailers_iff [of "at_trailers s prev" crypto w p s' p'] assms by (simp add: at_trailers_def)
qed

lemma loop_final:
  assumes "ct_ok crypto" and "dec_state s = ReadingHeader" and "dec_buf s = []"
    and "line_ok l" and "parse_chunk_header l = Inr (0, sig)"
    and "expects_done (expected_decoded_remaining s)" and "signed_ok crypto (streaming s) (prev_sig s) [] sig"
  shows "feed_loop crypto s (l @ CRLF @ w) p = feed_loop crypto (at_trailers s (next_sig (streaming s) (prev_sig s) sig)) w p"
proof -
  have "header_ok crypto s 0 sig (at_trailers s (next_sig (streaming s) (prev_sig s) sig))"
    using assms(6,7) by (auto simp: header_ok_def at_trailers_def signed_ok_def split: option.splits)
  then have "feed_step crypto s (l @ CRLF @ w) p = Next (at_trailers s (next_sig (streaming s) (prev_sig s) sig)) w p"
    unfolding header_round [OF assms(1-3)] using assms(4,5) by blast
  then show ?thesis by (simp add: feed_loop.simps [of crypto s])
qed

lemma loop_cases:
  assumes "ct_ok crypto" and "dec_state s = ReadingHeader" and "dec_buf s = []" and "\<not> dec_done s"
    and "feed_loop crypto s w p = (s', Inr p')" and "dec_done s'"
  obtains l sig u where "w = l @ CRLF @ u" "line_ok l" "parse_chunk_header l = Inr (0, sig)"
      "expects_done (expected_decoded_remaining s)" "signed_ok crypto (streaming s) (prev_sig s) [] sig"
      "trailer_wire crypto (at_trailers s (next_sig (streaming s) (prev_sig s) sig)) u p s' p'"
  | l d sig u where "w = l @ CRLF @ d @ CRLF @ u" "line_ok l" "d \<noteq> []" "parse_chunk_header l = Inr (length d, sig)"
      "size_ok (prev_chunk_size s)" "expects_more (expected_decoded_remaining s) (length d)"
      "signed_ok crypto (streaming s) (prev_sig s) d sig"
      "feed_loop crypto (after_chunk s (length d) sig ReadingHeader) u (p @ d) = (s', Inr p')"
proof -
  obtain t u q where step: "feed_step crypto s w p = Next t u q" and rest: "feed_loop crypto t u q = (s', Inr p')"
    using loop_next [OF assms(5,6,4)] assms(2) by auto
  then obtain l n sig where l: "w = l @ CRLF @ u" "line_ok l" "parse_chunk_header l = Inr (n, sig)" "header_ok crypto s n sig t" "q = p"
    unfolding header_round [OF assms(1-3)] by blast
  show ?thesis
  proof (cases "n = 0")
    case True
    then have t: "t = at_trailers s (next_sig (streaming s) (prev_sig s) sig)"
      and ok: "expects_done (expected_decoded_remaining s)" "signed_ok crypto (streaming s) (prev_sig s) [] sig"
      using l(4) by (simp_all add: header_ok_def at_trailers_def)
    have "trailer_wire crypto t u p s' p'"
      using loop_trailers [OF assms(3,4), of crypto "next_sig (streaming s) (prev_sig s) sig" u p s' p'] rest assms(6) l(5) t by simp
    with that(1) l ok t True show ?thesis by blast
  next
    case False
    then have t: "t = s\<lparr>current_chunk_hash := map_option (\<lambda>_. []) (streaming s), dec_state := ReadingData n n sig\<rparr>"
      and ok: "size_ok (prev_chunk_size s)" "expects_more (expected_decoded_remaining s) n"
      using l(4) by (simp_all add: header_ok_def)
    have data: "dec_state t = ReadingData n n sig" "0 < n" "n < 2 ^ 64" "current_chunk_hash t = map_option (\<lambda>_. []) (streaming t)"
      "expects_more (expected_decoded_remaining t) n"
      using t ok False parse_chunk_header_size [OF l(3)] by simp_all
    obtain t2 u2 q2 where step2: "feed_step crypto t u p = Next t2 u2 q2" and rest2: "feed_loop crypto t2 u2 q2 = (s', Inr p')"
      using loop_next [OF rest assms(6)] assms(4) t l(5) by auto
    then obtain d where d: "u = d @ u2" "length d = n" "signed_ok crypto (streaming t) (prev_sig t) d sig" "q2 = p @ d"
      "t2 = after_chunk t n sig (ExpectingDataCrlf False)"
      unfolding data_round [OF assms(1) data] by blast
    have t2: "t2 = after_chunk s n sig (ExpectingDataCrlf False)"
      unfolding d(5) by (cases s) (simp add: t after_chunk_def)
    obtain t3 u3 q3 where step3: "feed_step crypto t2 u2 (p @ d) = Next t3 u3 q3" and rest3: "feed_loop crypto t3 u3 q3 = (s', Inr p')"
      using loop_next [OF rest2 assms(6)] assms(4) t2 d(4) by (auto simp: after_chunk_def)
    then have "u2 = CRLF @ u3" "q3 = p @ d" "t3 = after_chunk s n sig ReadingHeader"
      by (auto simp: t2 crlf_round after_chunk_def)
    with that(2) [of l d u3 sig] l d ok t rest3 False show ?thesis by auto
  qed
qed

text \<open>
  The wire of a body: chunks, the terminal chunk, trailer lines and an empty line. What follows on the same call
  is not looked at.
\<close>

definition body_wire :: "(bytes \<times> bytes) list \<Rightarrow> bytes \<Rightarrow> bytes list \<Rightarrow> bytes \<Rightarrow> bytes" where
  "body_wire cs final ls rest = chunk_wire cs @ final @ CRLF @ wire_lines ls @ CRLF @ rest"

definition body_ok ::
  "Crypto \<Rightarrow> IncrementalChunkedDecoder \<Rightarrow> (bytes \<times> bytes) list \<Rightarrow> bytes \<Rightarrow> bytes list \<Rightarrow> (string \<times> string) list \<Rightarrow> bool" where
  "body_ok crypto s cs final ls kvs \<longleftrightarrow>
     (\<exists>prev. chunks_ok crypto (streaming s) (prev_sig s) (prev_chunk_size s) (expected_decoded_remaining s) cs final prev \<and>
        trailer_lines_ok ls kvs \<and> trailers_fit s ls \<and>
        trailers_signed crypto (trailer_mode s) (streaming s) prev (trailers s @ kvs))"

lemma after_chunk_simps [simp]:
  "dec_state (after_chunk s n sig st) = st" "dec_buf (after_chunk s n sig st) = dec_buf s"
  "dec_done (after_chunk s n sig st) = dec_done s" "streaming (after_chunk s n sig st) = streaming s"
  "prev_sig (after_chunk s n sig st) = next_sig (streaming s) (prev_sig s) sig"
  "prev_chunk_size (after_chunk s n sig st) = Some n"
  "expected_decoded_remaining (after_chunk s n sig st) = map_option (\<lambda>e. e - of_nat n) (expected_decoded_remaining s)"
  "trailer_mode (after_chunk s n sig st) = trailer_mode s" "trailers (after_chunk s n sig st) = trailers s"
  "trailers_fit (after_chunk s n sig st) ls = trailers_fit s ls"
  by (simp_all add: after_chunk_def trailers_fit_def)

lemma at_trailers_wire:
  assumes "ct_ok crypto"
  shows "trailer_wire crypto (at_trailers s prev) w p s' p' \<and> trailers s' = ts \<longleftrightarrow>
    (\<exists>ls kvs rest. w = wire_lines ls @ CRLF @ rest \<and> trailer_lines_ok ls kvs \<and> trailers_fit s ls \<and>
       trailers_signed crypto (trailer_mode s) (streaming s) prev (trailers s @ kvs) \<and> ts = content (trailers s @ kvs) \<and>
       p' = p \<and> s' = (after_trailers (at_trailers s prev) ls kvs)\<lparr>trailers := ts, dec_state := Done, dec_done := True\<rparr>)"
proof -
  have at: "trailers_fit (at_trailers s prev) ls = trailers_fit s ls" "trailer_mode (at_trailers s prev) = trailer_mode s"
    "streaming (at_trailers s prev) = streaming s" "prev_sig (at_trailers s prev) = prev" "trailers (at_trailers s prev) = trailers s" for ls
    by (simp_all add: at_trailers_def trailers_fit_def)
  show ?thesis
    unfolding trailer_wire_def finish_trailers_iff [OF assms] after_trailers_simps at by (auto, blast)
qed

lemma loop_sound:
  assumes "ct_ok crypto"
  shows "dec_state s = ReadingHeader \<Longrightarrow> dec_buf s = [] \<Longrightarrow> \<not> dec_done s \<Longrightarrow>
    feed_loop crypto s w p = (s', Inr p') \<Longrightarrow> dec_done s' \<Longrightarrow>
    \<exists>cs final ls kvs rest. w = body_wire cs final ls rest \<and> body_ok crypto s cs final ls kvs \<and>
      p' = p @ concat (map snd cs) \<and> trailers s' = content (trailers s @ kvs)"
proof (induction "length w" arbitrary: s w p rule: less_induct)
  case less
  note hyps = less.prems
  from assms hyps show ?case
  proof (cases rule: loop_cases)
    case (1 l sig u)
    let ?prev = "next_sig (streaming s) (prev_sig s) sig"
    obtain ls kvs rest where w: "u = wire_lines ls @ CRLF @ rest" "trailer_lines_ok ls kvs" "trailers_fit s ls"
      "trailers_signed crypto (trailer_mode s) (streaming s) ?prev (trailers s @ kvs)"
      "trailers s' = content (trailers s @ kvs)" "p' = p"
      using at_trailers_wire [OF assms, of s ?prev u p s' p' "trailers s'"] 1(6) by auto
    have "chunks_ok crypto (streaming s) (prev_sig s) (prev_chunk_size s) (expected_decoded_remaining s) [] l ?prev"
      using 1 by auto
    with w 1(1) show ?thesis
      by (intro exI [of _ "[]"] exI [of _ l] exI [of _ ls] exI [of _ kvs] exI [of _ rest])
        (auto simp: body_wire_def chunk_wire_def body_ok_def)
  next
    case (2 l d sig u)
    let ?t = "after_chunk s (length d) sig ReadingHeader"
    have "length u < length w" using 2(1) by simp
    then obtain cs final ls kvs rest where r: "u = body_wire cs final ls rest" "body_ok crypto ?t cs final ls kvs"
      "p' = (p @ d) @ concat (map snd cs)" "trailers s' = content (trailers s @ kvs)"
      using less.hyps [of u ?t "p @ d"] hyps 2(8) by auto
    then obtain prev where "chunks_ok crypto (streaming s) (next_sig (streaming s) (prev_sig s) sig) (Some (length d))
        (map_option (\<lambda>e. e - of_nat (length d)) (expected_decoded_remaining s)) cs final prev"
      "trailer_lines_ok ls kvs" "trailers_fit s ls" "trailers_signed crypto (trailer_mode s) (streaming s) prev (trailers s @ kvs)"
      by (auto simp: body_ok_def)
    then have "body_ok crypto s ((l, d) # cs) final ls kvs" using 2 by (auto simp: body_ok_def)
    with r 2(1) show ?thesis
      by (intro exI [of _ "(l, d) # cs"] exI [of _ final] exI [of _ ls] exI [of _ kvs] exI [of _ rest])
        (simp add: body_wire_def chunk_wire_def)
  qed
qed

lemma loop_complete:
  assumes "ct_ok crypto"
  shows "dec_state s = ReadingHeader \<Longrightarrow> dec_buf s = [] \<Longrightarrow> \<not> dec_done s \<Longrightarrow> body_ok crypto s cs final ls kvs \<Longrightarrow>
    \<exists>s'. feed_loop crypto s (body_wire cs final ls rest) p = (s', Inr (p @ concat (map snd cs))) \<and> dec_done s' \<and>
      trailers s' = content (trailers s @ kvs)"
proof (induction cs arbitrary: s p)
  case Nil
  then obtain prev sig where prev: "line_ok final" "expects_done (expected_decoded_remaining s)"
    "parse_chunk_header final = Inr (0, sig)" "signed_ok crypto (streaming s) (prev_sig s) [] sig"
    "prev = next_sig (streaming s) (prev_sig s) sig" "trailer_lines_ok ls kvs" "trailers_fit s ls"
    "trailers_signed crypto (trailer_mode s) (streaming s) prev (trailers s @ kvs)"
    by (auto simp: body_ok_def)
  let ?t = "(after_trailers (at_trailers s prev) ls kvs)\<lparr>trailers := content (trailers s @ kvs), dec_state := Done, dec_done := True\<rparr>"
  have "trailer_wire crypto (at_trailers s prev) (wire_lines ls @ CRLF @ rest) p ?t p \<and> trailers ?t = content (trailers s @ kvs)"
    unfolding at_trailers_wire [OF assms] using prev by blast
  then have "feed_loop crypto (at_trailers s prev) (wire_lines ls @ CRLF @ rest) p = (?t, Inr p)"
    using loop_trailers [OF Nil(2,3), of crypto prev "wire_lines ls @ CRLF @ rest" p ?t p] by simp
  then show ?case
    using loop_final [OF assms Nil(1,2) prev(1,3,2,4), of "wire_lines ls @ CRLF @ rest" p] prev(5)
    by (simp add: body_wire_def chunk_wire_def)
next
  case (Cons c cs)
  obtain l d where c: "c = (l, d)" by (cases c)
  obtain prev sig where prev: "line_ok l" "d \<noteq> []" "size_ok (prev_chunk_size s)"
    "expects_more (expected_decoded_remaining s) (length d)" "parse_chunk_header l = Inr (length d, sig)"
    "signed_ok crypto (streaming s) (prev_sig s) d sig"
    "chunks_ok crypto (streaming s) (next_sig (streaming s) (prev_sig s) sig) (Some (length d))
        (map_option (\<lambda>e. e - of_nat (length d)) (expected_decoded_remaining s)) cs final prev"
    "trailer_lines_ok ls kvs" "trailers_fit s ls" "trailers_signed crypto (trailer_mode s) (streaming s) prev (trailers s @ kvs)"
    using Cons.prems(4) c by (auto simp: body_ok_def)
  let ?t = "after_chunk s (length d) sig ReadingHeader"
  have "body_ok crypto ?t cs final ls kvs" using prev by (auto simp: body_ok_def)
  then obtain s' where "feed_loop crypto ?t (body_wire cs final ls rest) (p @ d) = (s', Inr ((p @ d) @ concat (map snd cs)))"
    "dec_done s'" "trailers s' = content (trailers s @ kvs)"
    using Cons.IH [of ?t "p @ d"] Cons.prems by auto
  moreover have "body_wire (c # cs) final ls rest = l @ CRLF @ d @ CRLF @ body_wire cs final ls rest"
    using c by (simp add: body_wire_def chunk_wire_def)
  ultimately show ?case
    using loop_chunk [OF assms Cons.prems(1,2) prev(1,5,2,3,4,6), of "body_wire cs final ls rest" p] c by simp
qed

end
