(* ===== verification/Chunked_Properties.thy ===== *)
theory Chunked_Properties
  imports Chunked_Bodies Fail_Closed
begin

text \<open>
  The decoder of chunked bodies: the bodies it accepts, feeding in slices, its termination, the absence of
  panics and the bounds on what it keeps.
\<close>

section \<open>Accepted bodies\<close>

lemma new_decoder [simp]:
  "dec_state (new_with_expected_len stream mode n) = ReadingHeader" "dec_buf (new_with_expected_len stream mode n) = []"
  "\<not> dec_done (new_with_expected_len stream mode n)" "trailers (new_with_expected_len stream mode n) = []"
  "expected_decoded_remaining (new_with_expected_len stream mode n) = n"
  by (simp_all add: new_with_expected_len_def)

lemma feed_Inr_iff:
  "feed crypto s w = (s', Inr p) \<longleftrightarrow> dec_state s \<noteq> Failed \<and> \<not> dec_done s \<and> feed_loop crypto s w [] = (s', Inr p)"
  by (auto simp: feed_def feed_inner_def split: prod.splits if_splits)

text \<open>
  C24. With a constant-time comparison that decides equality, one call of \<open>feed\<close> on a new decoder completes the body
  exactly when the wire starts with a well-formed body: header lines that parse to the sizes of the data, no chunk
  below the minimum but the last, the expected total, the chain of chunk signatures from the seed, and trailers
  within their limits with their signature in trailer mode. The payload is the data of the chunks.
\<close>

theorem decoder_accepts_iff:
  assumes "ct_ok crypto"
  shows "(\<exists>d. feed crypto (new_with_expected_len stream mode n) wire = (d, Inr payload) \<and> is_done d \<and> into_trailers d = ts) \<longleftrightarrow>
    (\<exists>cs final ls kvs rest. wire = body_wire cs final ls rest \<and>
       body_ok crypto (new_with_expected_len stream mode n) cs final ls kvs \<and>
       payload = concat (map snd cs) \<and> ts = content kvs)"
  (is "?accepts \<longleftrightarrow> ?body")
proof
  assume ?accepts
  then show ?body
    using loop_sound [OF assms, of "new_with_expected_len stream mode n" wire "[]"]
    unfolding feed_Inr_iff is_done_def into_trailers_def by fastforce
next
  assume ?body
  then obtain cs final ls kvs rest where b: "wire = body_wire cs final ls rest"
    "body_ok crypto (new_with_expected_len stream mode n) cs final ls kvs" "payload = concat (map snd cs)" "ts = content kvs"
    by blast
  show ?accepts
    using loop_complete [OF assms, of "new_with_expected_len stream mode n" cs final ls kvs rest "[]"] b
    unfolding feed_Inr_iff is_done_def into_trailers_def by auto
qed

definition plain_crypto :: Crypto where
  "plain_crypto = \<lparr>sha256 = (\<lambda>bs. bs), hmac_sha256 = (\<lambda>key bs. key @ bs), ct_eq = (\<lambda>a b. a = b)\<rparr>"

lemma plain_crypto_ok: "ct_ok plain_crypto"
  by (simp add: ct_ok_def plain_crypto_def)

lemma sample_header:
  "line_ok [50]" "parse_chunk_header [50] = Inr (2, None)" "line_ok [48]" "parse_chunk_header [48] = Inr (0, None)"
proof -
  have "char_of (50 :: nat) = CHR ''2''" "char_of (48 :: nat) = CHR ''0''" by (simp_all add: char_of_def bit_0)
  then show "parse_chunk_header [50] = Inr (2, None)" "parse_chunk_header [48] = Inr (0, None)"
    by (simp_all add: parse_chunk_header_def from_utf8_def string_of_bytes_def trim_id is_space_def
        from_str_radix_def to_digit_def)
qed (simp_all add: line_ok_def find_crlf.simps MAX_CHUNKED_LINE_BYTES_def)

theorem decoder_accepts_iff_witness:
  "\<exists>d. feed plain_crypto (new_with_expected_len None False (Some 2)) [50, 13, 10, 7, 8, 13, 10, 48, 13, 10, 13, 10] =
     (d, Inr [7, 8]) \<and> is_done d \<and> into_trailers d = []"
proof -
  let ?new = "new_with_expected_len None False (Some 2)"
  have "body_ok plain_crypto ?new [([50], [7, 8])] [48] [] []"
    by (simp add: body_ok_def new_with_expected_len_def sample_header size_ok_def expects_more_def expects_done_def
        signed_ok_def trailer_lines_ok_def trailers_fit_def trailers_signed_def)
  moreover have "[50, 13, 10, 7, 8, 13, 10, 48, 13, 10, 13, 10] = body_wire [([50], [7, 8])] [48] [] []"
    by (simp add: body_wire_def chunk_wire_def wire_lines_def)
  ultimately have "\<exists>cs final ls kvs rest. [50, 13, 10, 7, 8, 13, 10, 48, 13, 10, 13, 10] = body_wire cs final ls rest \<and>
      body_ok plain_crypto ?new cs final ls kvs \<and> [7, 8] = concat (map snd cs) \<and> ([] :: (string \<times> string) list) = content kvs"
    by (intro exI [of _ "[([50], [7, 8])]"] exI [of _ "[48]"] exI [of _ "[]"]) (simp add: content_def)
  then show ?thesis using decoder_accepts_iff [OF plain_crypto_ok] by blast
qed

section \<open>Slices\<close>

text \<open>The calls of a server that passes on the wire slice by slice and stops at the first error.\<close>

fun feeds ::
  "Crypto \<Rightarrow> IncrementalChunkedDecoder \<Rightarrow> bytes list \<Rightarrow> IncrementalChunkedDecoder \<times> (ServerError failure, bytes) result" where
  "feeds crypto d [] = (d, Inr [])"
| "feeds crypto d (w # ws) =
     (case feed crypto d w of
        (d, Inl e) \<Rightarrow> (d, Inl e)
      | (d, Inr p) \<Rightarrow> (case feeds crypto d ws of (d, r) \<Rightarrow> (d, map_sum id ((@) p) r)))"

lemma dec_ok_new [simp]: "dec_ok (new_with_expected_len stream mode n)"
  by (simp add: dec_ok_def)

lemma feed_split:
  assumes "dec_ok d" and "feed crypto d a = (d1, Inr p)" and "feed crypto d1 b = (d2, Inr q)"
  shows "feed crypto d (a @ b) = (d2, Inr (p @ q))"
proof -
  have a: "dec_state d \<noteq> Failed" "\<not> dec_done d" "feed_loop crypto d a [] = (d1, Inr p)"
    and b: "\<not> dec_done d1" "feed_loop crypto d1 b [] = (d2, Inr q)"
    using assms(2,3) by (simp_all add: feed_Inr_iff)
  have "feed_loop crypto d1 b p = (d2, Inr (p @ q))" using feed_loop_payload [of crypto d1 b p "[]"] b(2) by simp
  then have "feed_loop crypto d (a @ b) [] = (d2, Inr (p @ q))" using feed_loop_split [OF assms(1) a(3) b(1), of b] by simp
  with a show ?thesis by (simp add: feed_Inr_iff)
qed

lemma feed_keeps_ok: "dec_ok d \<Longrightarrow> feed crypto d w = (d', Inr p) \<Longrightarrow> \<not> dec_done d' \<Longrightarrow> dec_ok d'"
  using feed_loop_split [of d crypto w "[]" d' p "[]"] by (simp add: feed_Inr_iff)

lemma feeds_Cons_open: "feeds crypto d (w # ws) = (d', Inr p) \<Longrightarrow> dec_state d \<noteq> Failed \<and> \<not> dec_done d"
  using feed_Inr_iff by (auto split: prod.splits sum.splits)

lemma feeds_as_one:
  "dec_ok d \<Longrightarrow> ws \<noteq> [] \<Longrightarrow> feeds crypto d ws = (d', Inr payload) \<Longrightarrow> feed crypto d (concat ws) = (d', Inr payload)"
proof (induction ws arbitrary: d payload)
  case (Cons w ws)
  obtain d1 p where first: "feed crypto d w = (d1, Inr p)"
    using Cons.prems(3) by (auto split: prod.splits sum.splits)
  then obtain q where rest: "feeds crypto d1 ws = (d', Inr q)" "payload = p @ q"
    using Cons.prems(3) by (cases "feeds crypto d1 ws"; cases "snd (feeds crypto d1 ws)") auto
  show ?case
  proof (cases ws)
    case Nil
    with first rest show ?thesis by simp
  next
    case (Cons v vs)
    have "dec_ok d1" using feed_keeps_ok [OF Cons.prems(1) first] feeds_Cons_open rest(1) unfolding Cons by blast
    then have "feed crypto d1 (concat ws) = (d', Inr q)" using Cons.IH [of d1 q] rest(1) Cons by simp
    with feed_split [OF Cons.prems(1) first] rest(2) show ?thesis by simp
  qed
qed simp

lemma sample_slices:
  "feeds plain_crypto (new_with_expected_len None False (Some 0)) [[48, 13], [10, 13, 10]] =
     ((new_with_expected_len None False (Some 0))\<lparr>dec_state := Done, dec_done := True\<rparr>, Inr [])"
proof -
  let ?new = "new_with_expected_len None False (Some 0)"
  have first: "feed_step plain_crypto ?new [48, 13] [] = Stop (?new\<lparr>dec_buf := [48, 13]\<rparr>) []"
    by (simp add: feed_step_def step_header_def read_crlf_line_def find_crlf.simps MAX_CHUNKED_LINE_BYTES_def)
  have second: "feed_step plain_crypto (?new\<lparr>dec_buf := [48, 13]\<rparr>) [10, 13, 10] [] = Next (?new\<lparr>dec_state := ReadingTrailers\<rparr>) [13, 10] []"
    by (simp add: feed_step_def step_header_def read_crlf_line_def MAX_CHUNKED_LINE_BYTES_def header_line_def sample_header
        terminal_chunk_def) (simp add: new_with_expected_len_def)
  have third: "feed_step plain_crypto (?new\<lparr>dec_state := ReadingTrailers\<rparr>) [13, 10] [] = Stop (?new\<lparr>dec_state := Done, dec_done := True\<rparr>) []"
    by (simp add: feed_step_def read_trailers.simps read_crlf_line_def find_crlf.simps finish_trailers_def Let_def new_with_expected_len_def)
  show ?thesis
    by (simp add: feed_def feed_inner_def feed_loop.simps [of _ ?new] feed_loop.simps [of _ "?new\<lparr>dec_buf := [48, 13]\<rparr>"]
        feed_loop.simps [of _ "?new\<lparr>dec_state := ReadingTrailers\<rparr>"] first second third)
qed

text \<open>
  C25. When every slice of the wire is accepted, the payloads together and the decoder at the end are those of one
  call with the whole wire.
\<close>

theorem slices_as_one:
  assumes "feeds crypto (new_with_expected_len stream mode n) (w # ws) = (d, Inr payload)"
  shows "feed crypto (new_with_expected_len stream mode n) (concat (w # ws)) = (d, Inr payload)"
  using feeds_as_one [OF dec_ok_new _ assms] by simp

theorem slices_as_one_witness:
  "feed plain_crypto (new_with_expected_len None False (Some 0)) [48, 13, 10, 13, 10] =
     ((new_with_expected_len None False (Some 0))\<lparr>dec_state := Done, dec_done := True\<rparr>, Inr [])"
  using slices_as_one [OF sample_slices] by simp

lemma chunks_length:
  "chunks_ok crypto stream prev prev_size (Some e) cs final prev' \<Longrightarrow> length (concat (map snd cs)) = unat e"
proof (induction cs arbitrary: prev prev_size e)
  case Nil
  then show ?case by (auto simp: expects_done_def)
next
  case (Cons c cs)
  obtain l d where c: "c = (l, d)" by (cases c)
  with Cons.prems have le: "length d \<le> unat e" by (simp add: expects_more_def)
  then have n: "unat (of_nat (length d) :: u64) = length d" using unsigned_less [of e, where 'a = nat] by (simp add: unat_of_nat)
  have "length (concat (map snd cs)) = unat (e - of_nat (length d))" using Cons c by auto
  moreover have "unat (e - of_nat (length d)) = unat e - length d" using le n by (simp add: unat_sub word_le_nat_alt)
  ultimately show ?case using le c by simp
qed

text \<open>
  A body of a given length, accepted in whatever slices, has exactly that length.
\<close>

theorem decoded_length_exact:
  assumes "ct_ok crypto" and "feeds crypto (new_with_expected_len stream mode (Some n)) (w # ws) = (d, Inr payload)" and "is_done d"
  shows "length payload = unat n"
proof -
  have "feed crypto (new_with_expected_len stream mode (Some n)) (concat (w # ws)) = (d, Inr payload)"
    using feeds_as_one [OF dec_ok_new _ assms(2)] by simp
  then have "\<exists>cs final ls kvs. body_ok crypto (new_with_expected_len stream mode (Some n)) cs final ls kvs \<and> payload = concat (map snd cs)"
    using loop_sound [OF assms(1), of "new_with_expected_len stream mode (Some n)" "concat (w # ws)" "[]"] assms(3)
    unfolding feed_Inr_iff is_done_def by fastforce
  then show ?thesis using chunks_length by (auto simp: body_ok_def)
qed

theorem decoded_length_exact_witness:
  "\<not> isl (snd (feeds plain_crypto (new_with_expected_len None False (Some 0)) [[48, 13], [10, 13, 10]])) \<and>
   length ([] :: bytes) = unat (0 :: u64)"
  using decoded_length_exact [OF plain_crypto_ok sample_slices] unfolding sample_slices is_done_def by simp

section \<open>Termination\<close>

text \<open>The loop of a call with an explicit number of rounds.\<close>

fun feed_rounds ::
  "nat \<Rightarrow> Crypto \<Rightarrow> IncrementalChunkedDecoder \<Rightarrow> bytes \<Rightarrow> bytes \<Rightarrow>
   (IncrementalChunkedDecoder \<times> (ServerError failure, bytes) result) option" where
  "feed_rounds 0 crypto self wire payload = None"
| "feed_rounds (Suc k) crypto self wire payload =
     (case feed_step crypto self wire payload of
        Next self wire payload \<Rightarrow> feed_rounds k crypto self wire payload
      | Stop self payload \<Rightarrow> Some (self, Inr payload)
      | Fail self e \<Rightarrow> Some (self, Inl e))"

lemma feed_rounds_enough:
  "rounds s w < k \<Longrightarrow> feed_rounds k crypto s w p = Some (feed_loop crypto s w p)"
proof (induction k arbitrary: s w p)
  case (Suc k)
  show ?case
  proof (cases "feed_step crypto s w p")
    case (Next t u q)
    with Suc.IH [of t u q] Suc.prems feed_step_rounds [OF Next] show ?thesis by (simp add: feed_loop.simps [of crypto s])
  qed (simp_all add: feed_loop.simps [of crypto s])
qed simp

text \<open>
  C26. The loop of a call ends within two rounds for every byte it holds or is given, and two more, and returns
  what \<open>feed_loop\<close> gives.
\<close>

theorem feed_terminates:
  "feed_rounds (2 * (length (dec_buf s) + length wire) + 2) crypto s wire [] = Some (feed_loop crypto s wire [])"
proof -
  have "rounds s wire < 2 * (length (dec_buf s) + length wire) + 2"
    by (simp add: rounds_def split: ChunkedDecoderState.split)
  then show ?thesis by (rule feed_rounds_enough)
qed

section \<open>Errors\<close>

interpretation decoder: fail_closed "\<lambda>w d. feed crypto d w" "\<lambda>d. dec_state d \<noteq> Failed \<and> \<not> dec_done d" "\<lambda>r. \<not> isl r"
  for crypto
  by unfold_locales (auto simp: feed_def feed_inner_def)

lemma failed_feed_closes: "isl (snd (feed crypto d w)) \<Longrightarrow> \<not> (dec_state (fst (feed crypto d w)) \<noteq> Failed \<and> \<not> dec_done (fst (feed crypto d w)))"
  by (auto simp: feed_def case_prod_unfold Let_def split: if_splits)

text \<open>
  C28. Errors are final: once a call has returned an error, every later call of the sequence returns an error.
\<close>

theorem errors_are_final:
  assumes "i \<le> j" and "j < length ws" and "isl (snd (run_steps (\<lambda>w d. feed crypto d w) ws d) ! i)"
  shows "isl (snd (run_steps (\<lambda>w d. feed crypto d w) ws d) ! j)"
proof (rule ccontr)
  assume ok: "\<not> isl (snd (run_steps (\<lambda>w d. feed crypto d w) ws d) ! j)"
  with assms have "Suc i \<le> j" using le_neq_implies_less by fastforce
  from decoder.accepted_open [OF assms(2) ok this] show False
    using failed_feed_closes [of crypto "fst (run_steps (\<lambda>w d. feed crypto d w) (take i ws) d)" "ws ! i"] assms
    by (simp add: run_steps_nth run_steps_Suc)
qed

lemma sample_error:
  "snd (feed plain_crypto (new_with_expected_len None False (Some 0)) [120, 13, 10]) =
     Inl (Error (MalformedChunkedBody ''invalid chunk size: x''))"
proof -
  let ?new = "new_with_expected_len None False (Some 0)"
  have "char_of (120 :: nat) = CHR ''x''" by (simp add: char_of_def bit_0)
  then have "parse_chunk_header [120] = Inl (MalformedChunkedBody ''invalid chunk size: x'')"
    by (simp add: parse_chunk_header_def from_utf8_def string_of_bytes_def trim_id is_space_def from_str_radix_def to_digit_def)
  then have "feed_step plain_crypto ?new [120, 13, 10] [] = Fail ?new (Error (MalformedChunkedBody ''invalid chunk size: x''))"
    by (simp add: feed_step_def step_header_def read_crlf_line_def find_crlf.simps MAX_CHUNKED_LINE_BYTES_def header_line_def)
  then show ?thesis by (simp add: feed_def feed_inner_def feed_loop.simps [of _ ?new])
qed

theorem errors_are_final_witness:
  "isl (snd (run_steps (\<lambda>w d. feed plain_crypto d w) [[120, 13, 10], [48]] (new_with_expected_len None False (Some 0))) ! 1)"
  using errors_are_final [of 0 1 "[[120, 13, 10], [48]]" plain_crypto "new_with_expected_len None False (Some 0)"] sample_error
  by (simp add: run_steps_nth del: run_steps.simps(2))

section \<open>Panics and bounds\<close>

text \<open>What holds of a decoder that has not failed.\<close>

definition dec_inv :: "IncrementalChunkedDecoder \<Rightarrow> bool" where
  "dec_inv s \<longleftrightarrow> dec_ok s \<and> dec_state s \<noteq> Failed \<and> (dec_done s \<longleftrightarrow> dec_state s = Done) \<and>
     (streaming s = None \<longleftrightarrow> prev_sig s = None) \<and>
     (case dec_state s of
        ReadingData n rem sig \<Rightarrow> expects_more (expected_decoded_remaining s) rem \<and>
          (streaming s \<noteq> None \<longrightarrow> sig \<noteq> None \<and> current_chunk_hash s \<noteq> None)
      | _ \<Rightarrow> True) \<and>
     length (trailers s) \<le> trailer_count s \<and> trailer_count s \<le> MAX_CHUNKED_TRAILER_COUNT \<and>
     trailer_bytes s \<le> MAX_CHUNKED_TRAILER_BYTES"

fun flow_inv :: "FeedFlow \<Rightarrow> bool" where
  "flow_inv (Next s w p) \<longleftrightarrow> dec_inv s"
| "flow_inv (Stop s p) \<longleftrightarrow> dec_inv s"
| "flow_inv (Fail s e) \<longleftrightarrow> e \<noteq> Panic \<and> \<not> dec_done s"

lemma dec_inv_buf: "dec_inv s \<Longrightarrow> no_crlf b \<Longrightarrow> length b \<le> MAX_CHUNKED_LINE_BYTES \<Longrightarrow> dec_inv (s\<lparr>dec_buf := b\<rparr>)"
  by (cases "dec_state s") (auto simp: dec_inv_def dec_ok_def)

lemma header_line_inv:
  assumes "dec_inv s" and "dec_state s = ReadingHeader"
  shows "flow_inv (header_line crypto s l w p)"
proof (cases "parse_chunk_header l")
  case (Inr r)
  obtain n sig where r: "r = (n, sig)" by (cases r)
  have n: "n < 2 ^ 64" using parse_chunk_header_size Inr r by simp
  have inv: "\<not> dec_done s" "streaming s = None \<longleftrightarrow> prev_sig s = None" using assms by (simp_all add: dec_inv_def)
  consider (1) "streaming s \<noteq> None \<and> sig = None" | (2) "n = 0" "streaming s = None \<or> sig \<noteq> None"
    | (3) "n \<noteq> 0" "streaming s = None \<or> sig \<noteq> None"
    by (cases "streaming s = None \<or> sig \<noteq> None"; cases "n = 0") simp_all
  then show ?thesis
  proof cases
    case 2
    then have "header_line crypto s l w p = terminal_chunk crypto s sig w p" using Inr r by (auto simp: header_line_def)
    moreover have "flow_inv (terminal_chunk crypto s sig w p)"
      using assms inv 2(2) unfolding terminal_chunk_def
      by (auto simp: dec_inv_def dec_ok_def split: option.split sum.split)
    ultimately show ?thesis by simp
  next
    case 3
    then have "header_line crypto s l w p = start_chunk s n sig w p" using Inr r by (auto simp: header_line_def)
    moreover have "flow_inv (start_chunk s n sig w p)"
    proof (cases "start_chunk s n sig w p")
      case (Next t u q)
      then have "expects_more (expected_decoded_remaining s) n"
        "t = s\<lparr>current_chunk_hash := map_option (\<lambda>_. []) (streaming s), dec_state := ReadingData n n sig\<rparr>"
        using start_chunk_iff [OF n] by simp_all
      with assms 3(2) n Next show ?thesis by (auto simp: dec_inv_def dec_ok_def)
    next
      case (Fail t e)
      then show ?thesis using inv(1) by (auto simp: start_chunk_def Let_def split: sum.splits)
    qed (use start_chunk_grow(2) in blast)
    ultimately show ?thesis by simp
  qed (use Inr r inv in \<open>simp add: header_line_def\<close>)
qed (use assms in \<open>simp add: header_line_def dec_inv_def\<close>)

lemma step_data_inv:
  assumes "dec_inv s" and "dec_state s = ReadingData n rem sig"
  shows "flow_inv (step_data crypto s n rem sig w p)"
proof (cases "w = []")
  case True
  with assms show ?thesis by (simp add: step_data_def)
next
  case False
  let ?k = "min rem (length w)"
  have inv: "\<not> dec_done s" "rem \<le> n" "n < 2 ^ 64" "expects_more (expected_decoded_remaining s) rem"
    "streaming s = None \<longleftrightarrow> prev_sig s = None" "streaming s \<noteq> None \<longrightarrow> sig \<noteq> None \<and> current_chunk_hash s \<noteq> None"
    using assms by (auto simp: dec_inv_def dec_ok_def)
  have nat: "unat (of_nat ?k :: u64) = ?k" using inv(2,3) by (simp add: unat_of_nat)
  obtain d where d: "remaining_after (expected_decoded_remaining s) ?k = Some d" "expects_more d (rem - ?k)"
  proof (cases "expected_decoded_remaining s")
    case None
    then show ?thesis using that [of None] by (simp add: remaining_after_def expects_more_def)
  next
    case (Some e)
    then have "?k \<le> unat e" "rem \<le> unat e" using inv(4) by (simp_all add: expects_more_def)
    moreover have le: "of_nat ?k \<le> e" using calculation(1) nat by (simp add: word_le_nat_alt)
    moreover have "unat (e - of_nat ?k) = unat e - ?k" using unat_sub [OF le] nat by simp
    ultimately show ?thesis
      using Some that [of "Some (e - of_nat ?k)"] by (simp add: remaining_after_def checked_sub_def expects_more_def)
  qed
  let ?t = "after_data s (take ?k w) d (ReadingData n (rem - ?k) sig)"
  have t: "dec_inv ?t"
    using assms(1) inv d(2) by (simp add: dec_inv_def dec_ok_def split: option.splits)
  show ?thesis
  proof (cases "rem - ?k \<noteq> 0")
    case True
    with t d show ?thesis by (simp add: step_data_eq [OF False] Let_def)
  next
    case full: False
    then have "step_data crypto s n rem sig w p = finish_chunk crypto ?t n sig (drop ?k w) (p @ take ?k w)"
      using d by (simp add: step_data_eq [OF False] Let_def)
    moreover have "flow_inv (finish_chunk crypto ?t n sig (drop ?k w) (p @ take ?k w))"
      using t inv(1,5,6) unfolding finish_chunk_def Let_def
      by (auto simp: dec_inv_def dec_ok_def split: option.split sum.split)
    ultimately show ?thesis by simp
  qed
qed

lemma finish_trailers_inv: "dec_inv s \<Longrightarrow> dec_state s = ReadingTrailers \<Longrightarrow> flow_inv (finish_trailers crypto s p)"
  unfolding finish_trailers_def Let_def
  by (auto simp: dec_inv_def dec_ok_def le_trans [OF length_filter_le] split: option.split sum.split)

lemma push_trailer_inv:
  assumes "dec_inv s" and "dec_state s = ReadingTrailers" and "push_trailer s l = (t, r)"
  shows "\<not> dec_done t \<and> (\<not> isl r \<longrightarrow> dec_inv t \<and> dec_state t = ReadingTrailers)"
proof (cases r)
  case (Inl e)
  with assms show ?thesis by (auto simp: push_trailer_def dec_inv_def Let_def split: option.splits if_splits)
next
  case (Inr u)
  with assms(3) obtain kv where "trailers_fit s [l]" "t = after_trailers s [l] [kv]" by (auto simp: push_trailer_iff)
  with assms(1,2) show ?thesis by (auto simp: dec_inv_def dec_ok_def trailers_fit_def after_trailers_def)
qed

lemma read_trailers_inv:
  "dec_inv s \<Longrightarrow> dec_state s = ReadingTrailers \<Longrightarrow> flow_inv (read_trailers crypto s w p)"
proof (induction crypto s w p rule: read_trailers.induct)
  case (1 crypto s w p)
  have no: "no_crlf (dec_buf s)" "\<not> dec_done s" using "1.prems" by (simp_all add: dec_inv_def dec_ok_def)
  show ?case
  proof (cases "read_crlf_line (dec_buf s) w")
    case (Inl e)
    with no show ?thesis by (simp add: read_trailers.simps [of crypto s])
  next
    case (Inr r)
    obtain l b u where r: "r = (l, b, u)" by (cases r)
    show ?thesis
    proof (cases l)
      case None
      have "dec_inv (s\<lparr>dec_buf := b\<rparr>)"
        using read_line_None(3,4) [OF no(1) Inr [unfolded r None]] dec_inv_buf [OF "1.prems"(1)] by blast
      with Inr r None show ?thesis by (simp add: read_trailers.simps [of crypto s])
    next
      case (Some line)
      have b: "b = []" using read_line_Some(1) [OF no(1) Inr [unfolded r Some]] .
      have inv: "dec_inv (s\<lparr>dec_buf := b\<rparr>)" "dec_state (s\<lparr>dec_buf := b\<rparr>) = ReadingTrailers"
        using dec_inv_buf [OF "1.prems"(1), of "[]"] "1.prems"(2) b by simp_all
      obtain t e where push: "push_trailer (s\<lparr>dec_buf := b\<rparr>) line = (t, e)" by fastforce
      note pushed = push_trailer_inv [OF inv push]
      show ?thesis
      proof (cases "line = []")
        case True
        with finish_trailers_inv [OF inv, of crypto p] Inr r Some show ?thesis
          by (simp add: read_trailers.simps [of crypto s] Let_def)
      next
        case False
        show ?thesis
        proof (cases e)
          case (Inl x)
          with False Inr r Some push pushed show ?thesis by (simp add: read_trailers.simps [of crypto s] Let_def)
        next
          case e: (Inr x)
          have "flow_inv (read_trailers crypto t u p)"
            using "1.IH" [OF Inr r [symmetric] Some refl refl False push [symmetric] e] pushed e by simp
          with False Inr r Some push e show ?thesis by (simp add: read_trailers.simps [of crypto s] Let_def)
        qed
      qed
    qed
  qed
qed

lemma feed_step_inv:
  assumes "dec_inv s"
  shows "flow_inv (feed_step crypto s w p)"
proof (cases "dec_state s")
  case ReadingHeader
  have no: "no_crlf (dec_buf s)" "\<not> dec_done s" using assms ReadingHeader by (simp_all add: dec_inv_def dec_ok_def)
  show ?thesis
  proof (cases "read_crlf_line (dec_buf s) w")
    case (Inr r)
    obtain l b u where r: "r = (l, b, u)" by (cases r)
    have "no_crlf b \<and> length b \<le> MAX_CHUNKED_LINE_BYTES"
      using read_line_None(3,4) [OF no(1), of w b u] read_line_Some(1) [OF no(1), of w _ b u] Inr r by (cases l) auto
    then have "dec_inv (s\<lparr>dec_buf := b\<rparr>)" using dec_inv_buf [OF assms] by blast
    with header_line_inv [of "s\<lparr>dec_buf := b\<rparr>"] Inr r ReadingHeader show ?thesis
      by (simp add: feed_step_def step_header_def split: option.split)
  qed (use ReadingHeader no in \<open>simp add: feed_step_def step_header_def\<close>)
next
  case (ReadingData n rem sig)
  with step_data_inv [OF assms] show ?thesis by (simp add: feed_step_def)
next
  case (ExpectingDataCrlf seen)
  with assms show ?thesis
    by (auto simp: feed_step_def step_crlf_def step_lf_def dec_inv_def dec_ok_def split: list.split)
next
  case ReadingTrailers
  with read_trailers_inv [OF assms] show ?thesis by (simp add: feed_step_def)
next
  case Failed
  with assms show ?thesis by (simp add: dec_inv_def)
next
  case Done
  with assms show ?thesis by (simp add: feed_step_def)
qed

lemma feed_loop_inv:
  "dec_inv s \<Longrightarrow> case feed_loop crypto s w p of (s', Inr q) \<Rightarrow> dec_inv s' | (s', Inl e) \<Rightarrow> e \<noteq> Panic \<and> \<not> dec_done s'"
proof (induction crypto s w p rule: feed_loop.induct)
  case (1 crypto s w p)
  with feed_step_inv [OF "1.prems", of crypto w p] show ?case
    by (cases "feed_step crypto s w p") (simp_all add: feed_loop.simps [of crypto s])
qed

lemma feed_inv:
  assumes "dec_inv s \<or> dec_state s = Failed"
  shows "(dec_inv (fst (feed crypto s w)) \<or> dec_state (fst (feed crypto s w)) = Failed) \<and> snd (feed crypto s w) \<noteq> Inl Panic"
proof (cases "dec_state s = Failed \<or> dec_done s")
  case True
  with assms show ?thesis by (auto simp: feed_def feed_inner_def)
next
  case False
  with assms have "dec_inv s" by blast
  with feed_loop_inv [of s crypto w "[]"] False show ?thesis
    by (cases "feed_loop crypto s w []"; cases "snd (feed_loop crypto s w [])") (auto simp: feed_def feed_inner_def)
qed

lemma dec_inv_new: "dec_inv (new_with_expected_len stream mode n)"
  by (simp add: dec_inv_def new_with_expected_len_def dec_ok_def)

lemma run_feeds_inv:
  assumes "dec_inv d \<or> dec_state d = Failed"
  shows "dec_inv (fst (run_steps (\<lambda>w d. feed crypto d w) ws d)) \<or> dec_state (fst (run_steps (\<lambda>w d. feed crypto d w) ws d)) = Failed"
  using assms
proof (induction ws arbitrary: d)
  case (Cons w ws)
  with feed_inv [OF Cons.prems, of crypto w] show ?case by (simp add: case_prod_unfold Let_def)
qed simp

text \<open>
  C27. No sequence of calls makes the decoder panic: the signature, the running digest and the previous signature
  are there when they are unwrapped, the count of expected bytes does not underflow, and the loop never finds the
  failed state.
\<close>

theorem feed_never_panics:
  "snd (feed crypto (fst (run_steps (\<lambda>w d. feed crypto d w) ws (new_with_expected_len stream mode n))) wire) \<noteq> Inl Panic"
  using feed_inv [OF run_feeds_inv [OF disjI1 [OF dec_inv_new]]] by blast

text \<open>
  C29. Between calls a decoder that has not failed holds at most one line fragment of the maximal length and no
  more trailers than the limit, whatever it was fed.
\<close>

theorem decoder_stays_bounded:
  "let d = fst (run_steps (\<lambda>w d. feed crypto d w) ws (new_with_expected_len stream mode n)) in
     dec_state d = Failed \<or> length (dec_buf d) \<le> MAX_CHUNKED_LINE_BYTES \<and> length (trailers d) \<le> MAX_CHUNKED_TRAILER_COUNT \<and>
     trailer_bytes d \<le> MAX_CHUNKED_TRAILER_BYTES"
  using run_feeds_inv [OF disjI1 [OF dec_inv_new], of crypto ws stream mode n] unfolding Let_def dec_inv_def dec_ok_def
  by auto

section \<open>The line limit\<close>



end
