(* ===== verification/Calendar.thy ===== *)
theory Calendar
  imports Argmin_Prelude "HOL-Library.Signed_Division"
begin

text \<open>
  The civil calendar: the conversions between dates and days since the Unix epoch that the sources hold in
  several places (\<^verbatim>\<open>coordinator/object_metadata.rs\<close>, \<^verbatim>\<open>http/response.rs\<close>, \<^verbatim>\<open>http/xml.rs\<close>, \<^verbatim>\<open>auth/src/canonical.rs\<close>). An \<open>i64\<close>
  is an \<open>int\<close> and a \<open>u32\<close> a \<open>nat\<close>: dates and days stay far inside these types. The division of Rust is \<open>sdiv\<close>.
\<close>

section \<open>Dates of the coordinator\<close>

definition as_u32 :: "int \<Rightarrow> nat" where "as_u32 x = nat (x mod 2 ^ 32)"

definition is_leap_year :: "int \<Rightarrow> bool" where
  "is_leap_year year \<longleftrightarrow> year smod 4 = 0 \<and> year smod 100 \<noteq> 0 \<or> year smod 400 = 0"

definition days_in_month :: "int \<Rightarrow> nat \<Rightarrow> nat option" where
  "days_in_month year month =
     (if month \<in> {1, 3, 5, 7, 8, 10, 12} then Some 31
      else if month \<in> {4, 6, 9, 11} then Some 30
      else if month = 2 then Some (if is_leap_year year then 29 else 28)
      else None)"

definition days_to_date :: "int \<Rightarrow> int \<times> nat \<times> nat" where
  "days_to_date days =
     (let z = days + 719468;
          era = (if 0 \<le> z then z else z - 146096) sdiv 146097;
          doe = z - era * 146097;
          yoe = (doe - doe sdiv 1460 + doe sdiv 36524 - doe sdiv 146096) sdiv 365;
          year = yoe + era * 400;
          doy = doe - (365 * yoe + yoe sdiv 4 - yoe sdiv 100);
          mp = (5 * doy + 2) sdiv 153;
          day = doy - (153 * mp + 2) sdiv 5 + 1;
          month = mp + (if mp < 10 then 3 else - 9);
          year = (if month \<le> 2 then year + 1 else year)
      in (year, as_u32 month, as_u32 day))"

definition date_to_days :: "int \<Rightarrow> nat \<Rightarrow> nat \<Rightarrow> int" where
  "date_to_days year month day =
     (let adjust = (if month \<le> 2 then 1 else 0);
          y = year - adjust;
          era = (if 0 \<le> y then y else y - 399) sdiv 400;
          yoe = y - era * 400;
          month_i = int month;
          day_i = int day;
          doy = (153 * (month_i + (if 2 < month then - 3 else 9)) + 2) sdiv 5 + day_i - 1;
          doe = yoe * 365 + yoe sdiv 4 - yoe sdiv 100 + doy
      in era * 146097 + doe - 719468)"

section \<open>The days before a year that starts in March\<close>

definition march_days :: "int \<Rightarrow> int" where
  "march_days y = 365 * y + y div 4 - y div 100 + y div 400"

definition month_days :: "int \<Rightarrow> int" where
  "month_days mp = (153 * mp + 2) div 5"

lemma sdiv_nonneg: "0 \<le> a \<Longrightarrow> 0 < b \<Longrightarrow> a sdiv b = a div (b :: int)"
  by (cases "a = 0") (simp_all add: signed_divide_int_def)

lemma sdiv_floor:
  assumes "0 < b"
  shows "(if 0 \<le> z then z else z - (b - 1)) sdiv b = z div (b :: int)"
proof (cases "0 \<le> z")
  case False
  have m: "0 \<le> z mod b" "z mod b < b" using assms by simp_all
  have "b * (z div b) + z mod b = z" by simp
  then have "b - 1 - z = b * - (z div b) + (b - 1 - z mod b)" by (simp add: algebra_simps)
  then have "(b - 1 - z) div b = - (z div b)" using m by (intro int_div_pos_eq [of _ _ _ "b - 1 - z mod b"]) linarith+
  moreover have "\<bar>z - (b - 1)\<bar> = b - 1 - z" "sgn (z - (b - 1)) = - 1" using False assms by simp_all
  ultimately show ?thesis using False assms by (simp add: signed_divide_int_def)
qed (use assms in \<open>simp add: sdiv_nonneg\<close>)

lemma sdiv_era: "(if 0 \<le> z then z else z - 399) sdiv 400 = z div (400 :: int)"
  "(if 0 \<le> z then z else z - 146096) sdiv 146097 = z div (146097 :: int)"
  using sdiv_floor [of 400 z] sdiv_floor [of 146097 z] by (cases "0 \<le> z"; simp)+

lemma smod_0_iff: "0 < b \<Longrightarrow> a smod b = 0 \<longleftrightarrow> (b :: int) dvd a"
proof -
  assume "0 < b"
  then have "a smod b = sgn a * (\<bar>a\<bar> mod b)"
    by (simp add: signed_modulo_int_def signed_divide_int_def minus_mult_div_eq_mod [symmetric] abs_if algebra_simps)
  then show ?thesis by (cases "a = 0") (simp_all add: sgn_if dvd_eq_mod_eq_0 [symmetric])
qed

lemma is_leap_year_iff: "is_leap_year y \<longleftrightarrow> 4 dvd y \<and> (\<not> 100 dvd y \<or> 400 dvd y)"
proof -
  have "400 dvd y \<Longrightarrow> 4 dvd y" using dvd_trans [of 4 400 y] by simp
  then show ?thesis by (auto simp: is_leap_year_def smod_0_iff)
qed

text \<open>A year as its place in the cycles of 400, 100 and 4 years.\<close>

lemma year_parts:
  fixes y :: int
  obtains e c k j where "y = 400 * e + 100 * c + 4 * k + j" "0 \<le> c" "c < 4" "0 \<le> k" "k < 25" "0 \<le> j" "j < 4"
proof
  let ?r = "y mod 400"
  have r: "0 \<le> ?r" "?r < 400" by simp_all
  have "y = 400 * (y div 400) + ?r" "?r = 100 * (?r div 100) + ?r mod 100" "?r mod 100 = 4 * (?r mod 100 div 4) + ?r mod 100 mod 4"
    by (simp_all only: mult_div_mod_eq)
  then show "y = 400 * (y div 400) + 100 * (?r div 100) + 4 * (?r mod 100 div 4) + ?r mod 100 mod 4" by linarith
  show "0 \<le> ?r div 100" "?r div 100 < 4" using r by (simp_all add: pos_imp_zdiv_nonneg_iff div_less_iff_less_mult)
  have "0 \<le> ?r mod 100" "?r mod 100 < 100" by simp_all
  then show "0 \<le> ?r mod 100 div 4" "?r mod 100 div 4 < 25" by (simp_all add: pos_imp_zdiv_nonneg_iff div_less_iff_less_mult)
qed simp_all

lemma parts_div:
  assumes "(0 :: int) \<le> c" "c < 4" "0 \<le> k" "k < 25" "0 \<le> j" "j < 4"
  shows "(400 * e + 100 * c + 4 * k + j) div 4 = 100 * e + 25 * c + k"
    and "(400 * e + 100 * c + 4 * k + j) div 100 = 4 * e + c"
    and "(400 * e + 100 * c + 4 * k + j) div 400 = e"
  by (rule int_div_pos_eq [of _ _ _ j] int_div_pos_eq [of _ _ _ "4 * k + j"] int_div_pos_eq [of _ _ _ "100 * c + 4 * k + j"],
      use assms in simp_all)+

lemma march_days_parts:
  assumes "(0 :: int) \<le> c" "c < 4" "0 \<le> k" "k < 25" "0 \<le> j" "j < 4"
  shows "march_days (400 * e + 100 * c + 4 * k + j) = 146097 * e + 36524 * c + 1461 * k + 365 * j"
  using parts_div [OF assms, of e] by (simp add: march_days_def)

lemma leap_parts:
  assumes "(0 :: int) \<le> c" "c < 4" "0 \<le> k" "k < 25" "0 \<le> j" "j < 4"
  shows "is_leap_year (400 * e + 100 * c + 4 * k + j + 1) \<longleftrightarrow> j = 3 \<and> (k = 24 \<longrightarrow> c = 3)"
proof -
  let ?y = "400 * e + 100 * c + 4 * k + j + 1"
  have "?y = 4 * (100 * e + 25 * c + k) + (j + 1)" by simp
  then have "4 dvd ?y \<longleftrightarrow> 4 dvd j + 1" by (simp only: dvd_add_right_iff dvd_triv_left)
  also have "\<dots> \<longleftrightarrow> j = 3" using assms(5,6) by presburger
  finally have four: "4 dvd ?y \<longleftrightarrow> j = 3" .
  have "100 dvd ?y \<longleftrightarrow> k = 24" if "j = 3"
  proof -
    have "?y = 100 * (4 * e + c) + 4 * (k + 1)" using that by simp
    then have "100 dvd ?y \<longleftrightarrow> 4 * 25 dvd 4 * (k + 1)" by (simp only: dvd_add_right_iff dvd_triv_left) simp
    also have "\<dots> \<longleftrightarrow> 25 dvd k + 1" by (simp only: dvd_mult_cancel_left) simp
    also have "\<dots> \<longleftrightarrow> k = 24" using assms(3,4) by presburger
    finally show ?thesis .
  qed
  moreover have "400 dvd ?y \<longleftrightarrow> c = 3" if "j = 3" "k = 24"
  proof -
    have "?y = 400 * e + 100 * (c + 1)" using that by simp
    then have "400 dvd ?y \<longleftrightarrow> 100 * 4 dvd 100 * (c + 1)" by (simp only: dvd_add_right_iff dvd_triv_left) simp
    also have "\<dots> \<longleftrightarrow> 4 dvd c + 1" by (simp only: dvd_mult_cancel_left) simp
    also have "\<dots> \<longleftrightarrow> c = 3" using assms(1,2) by presburger
    finally show ?thesis .
  qed
  ultimately show ?thesis unfolding is_leap_year_iff four by (cases "j = 3"; cases "k = 24") auto
qed

text \<open>The year of a day in its era of 400 years.\<close>

lemma year_of_era:
  assumes "(0 :: int) \<le> c" "c < 4" "0 \<le> k" "k < 25" "0 \<le> j" "j < 4" and "0 \<le> doy" "doy \<le> 365"
    and leap: "doy = 365 \<longrightarrow> j = 3 \<and> (k = 24 \<longrightarrow> c = 3)" and doe: "doe = 36524 * c + 1461 * k + 365 * j + doy"
  shows "(doe - doe div 1460 + doe div 36524 - doe div 146096) div 365 = 100 * c + 4 * k + j"
proof -
  define t where "t = 24 * c + k + 365 * j + doy"
  have t: "0 \<le> t" "t < 2920" using assms by (simp_all add: t_def)
  have div1460: "doe div 1460 = 25 * c + k + (if t < 1460 then 0 else 1)"
    by (rule int_div_pos_eq [of _ _ _ "if t < 1460 then t else t - 1460"]) (use t in \<open>auto simp: doe t_def\<close>)
  have century: "doe div 36524 - doe div 146096 = c"
  proof (cases "c = 3 \<and> k = 24 \<and> j = 3 \<and> doy = 365")
    case True
    then show ?thesis by (simp add: doe)
  next
    case False
    have r: "0 \<le> 1461 * k + 365 * j + doy" using assms by simp
    have r': "1461 * k + 365 * j + doy < 36524"
      using assms(3-8) leap False by (cases "k = 24"; cases "j = 3"; cases "doy = 365") simp_all
    with r have "doe div 36524 = c" by (intro int_div_pos_eq [of _ _ _ "1461 * k + 365 * j + doy"]) (simp_all add: doe)
    moreover have "doe div 146096 = 0" using r r' assms(1,2) by (simp add: doe)
    ultimately show ?thesis by simp
  qed
  have "doe - doe div 1460 + doe div 36524 - doe div 146096 = 365 * (100 * c + 4 * k + j) + (doy - (if t < 1460 then 0 else 1))"
    using div1460 century by (simp add: doe)
  moreover have "0 \<le> doy - (if t < 1460 then 0 else 1)" using assms by (auto simp: t_def)
  moreover have "doy - (if t < 1460 then 0 else 1) < 365" using assms by (auto simp: t_def)
  ultimately show ?thesis by (intro int_div_pos_eq) simp_all
qed

text \<open>Every day lies in one year that starts in March.\<close>

definition march_leap :: "int \<Rightarrow> int" where "march_leap y = (if is_leap_year (y + 1) then 1 else 0)"

lemma march_days_Suc: "march_days (y + 1) = march_days y + 365 + march_leap y"
proof -
  obtain e c k j where y: "y = 400 * e + 100 * c + 4 * k + j" and b: "0 \<le> c" "c < 4" "0 \<le> k" "k < 25" "0 \<le> j" "j < 4"
    by (rule year_parts)
  have leap: "march_leap y = (if j = 3 \<and> (k = 24 \<longrightarrow> c = 3) then 1 else 0)"
    using leap_parts [OF b, of e] by (simp add: march_leap_def y)
  consider "j < 3" | "j = 3" "k < 24" | "j = 3" "k = 24" "c < 3" | "j = 3" "k = 24" "c = 3" using b by linarith
  then show ?thesis
  proof cases
    case 1
    with b leap show ?thesis using march_days_parts [OF b, of e] march_days_parts [of c k "j + 1" e] by (simp add: y add.assoc)
  next
    case 2
    with b leap show ?thesis using march_days_parts [OF b, of e] march_days_parts [of c "k + 1" 0 e] by (simp add: y algebra_simps)
  next
    case 3
    with b leap show ?thesis using march_days_parts [OF b, of e] march_days_parts [of "c + 1" 0 0 e] by (simp add: y algebra_simps)
  next
    case 4
    with b leap show ?thesis using march_days_parts [OF b, of e] march_days_parts [of 0 0 0 "e + 1"] by (simp add: y algebra_simps)
  qed
qed

lemma march_leap_bounds: "0 \<le> march_leap y" "march_leap y \<le> 1" by (simp_all add: march_leap_def)

lemma march_days_mono: "y \<le> y' \<Longrightarrow> march_days y + 365 * (y' - y) \<le> march_days y'"
proof (induction y' rule: int_ge_induct)
  case (step i)
  then show ?case using march_days_Suc [of i] march_leap_bounds [of i] by (simp add: algebra_simps)
qed simp

lemma march_year_exists: "\<exists>y doy. z = march_days y + doy \<and> 0 \<le> doy \<and> doy < 365 + march_leap y"
proof (induction z rule: int_induct [where k = 0])
  case base
  show ?case by (intro exI [of _ 0]) (simp add: march_days_def march_leap_bounds add_pos_nonneg)
next
  case (step1 z)
  then obtain y doy where z: "z = march_days y + doy" "0 \<le> doy" "doy < 365 + march_leap y" by blast
  show ?case
  proof (cases "doy + 1 < 365 + march_leap y")
    case True
    with z show ?thesis by (intro exI [of _ y] exI [of _ "doy + 1"]) simp
  next
    case False
    with z show ?thesis using march_days_Suc [of y] march_leap_bounds [of "y + 1"]
      by (intro exI [of _ "y + 1"] exI [of _ 0]) simp
  qed
next
  case (step2 z)
  then obtain y doy where z: "z = march_days y + doy" "0 \<le> doy" "doy < 365 + march_leap y" by blast
  show ?case
  proof (cases "doy = 0")
    case True
    with z show ?thesis using march_days_Suc [of "y - 1"] march_leap_bounds [of "y - 1"]
      by (intro exI [of _ "y - 1"] exI [of _ "364 + march_leap (y - 1)"]) simp
  next
    case False
    with z show ?thesis by (intro exI [of _ y] exI [of _ "doy - 1"]) simp
  qed
qed

section \<open>Months\<close>

text \<open>The length of a month counted from March.\<close>

definition march_month_length :: "int \<Rightarrow> int \<Rightarrow> int" where
  "march_month_length y mp = (if mp = 11 then 28 + march_leap y else if mp \<in> {1, 3, 6, 8} then 30 else 31)"

lemma month_cases:
  assumes "0 \<le> mp" and "mp \<le> (11 :: int)"
  shows "mp = 0 \<or> mp = 1 \<or> mp = 2 \<or> mp = 3 \<or> mp = 4 \<or> mp = 5 \<or> mp = 6 \<or> mp = 7 \<or> mp = 8 \<or> mp = 9 \<or> mp = 10 \<or> mp = 11"
  using assms by presburger

lemma month_of_day:
  assumes "0 \<le> mp" and "mp \<le> 11" and "1 \<le> d" and "d \<le> march_month_length y mp"
  shows "(5 * (month_days mp + d - 1) + 2) div 153 = mp" and "0 \<le> month_days mp + d - 1"
    and "month_days mp + d - 1 < 365 + march_leap y"
proof -
  have "153 * mp \<le> 5 * (month_days mp + d - 1) + 2 \<and> 5 * (month_days mp + d - 1) + 2 < 153 * mp + 153 \<and>
      0 \<le> month_days mp + d - 1 \<and> month_days mp + d - 1 < 365 + march_leap y"
    using month_cases [OF assms(1,2)] assms(3,4) march_leap_bounds [of y]
    by (elim disjE) (simp_all add: month_days_def march_month_length_def)
  then show "(5 * (month_days mp + d - 1) + 2) div 153 = mp" "0 \<le> month_days mp + d - 1"
    "month_days mp + d - 1 < 365 + march_leap y"
    by (auto intro!: int_div_pos_eq [of _ _ _ "5 * (month_days mp + d - 1) + 2 - 153 * mp"])
qed

lemma month_exists:
  assumes "0 \<le> doy" and "doy < 365 + march_leap y"
  shows "\<exists>mp d. 0 \<le> mp \<and> mp \<le> 11 \<and> 1 \<le> d \<and> d \<le> march_month_length y mp \<and> doy = month_days mp + d - 1"
proof -
  define mp where "mp = (5 * doy + 2) div 153"
  have "5 * doy + 2 = 153 * mp + (5 * doy + 2) mod 153" unfolding mp_def by (simp only: mult_div_mod_eq)
  then have mp: "153 * mp \<le> 5 * doy + 2" "5 * doy + 2 < 153 * mp + 153"
    using pos_mod_sign [of 153 "5 * doy + 2"] pos_mod_bound [of 153 "5 * doy + 2"] by linarith+
  then have range: "0 \<le> mp" "mp \<le> 11" using assms march_leap_bounds [of y] by linarith+
  have "month_days mp \<le> doy \<and> doy < month_days mp + march_month_length y mp"
    using month_cases [OF range] mp assms by (elim disjE) (simp_all add: month_days_def march_month_length_def)
  with range show ?thesis by (intro exI [of _ mp] exI [of _ "doy - month_days mp + 1"]) simp
qed

section \<open>The conversions\<close>

lemma as_u32_small [simp]: "0 \<le> x \<Longrightarrow> x < 2 ^ 32 \<Longrightarrow> as_u32 x = nat x"
  by (simp add: as_u32_def)

lemma date_to_days_march:
  assumes "0 < m"
  shows "date_to_days y m d =
     march_days (if m \<le> 2 then y - 1 else y) + month_days (if m \<le> 2 then int m + 9 else int m - 3) + int d - 1 - 719468"
proof -
  let ?y = "if m \<le> 2 then y - 1 else y"
  obtain e c k j where y: "?y = 400 * e + 100 * c + 4 * k + j" and b: "0 \<le> c" "c < 4" "0 \<le> k" "k < 25" "0 \<le> j" "j < 4"
    by (rule year_parts)
  have era: "(if 0 \<le> ?y then ?y else ?y - 399) sdiv 400 = e" unfolding sdiv_era y by (rule parts_div(3) [OF b])
  have yoe: "?y - e * 400 = 100 * c + 4 * k + j" using y by simp
  have "(100 * c + 4 * k + j) sdiv 4 = 25 * c + k" "(100 * c + 4 * k + j) sdiv 100 = c"
    using parts_div(1,2) [OF b, of 0] b by (simp_all add: sdiv_nonneg)
  moreover have "march_days ?y = 146097 * e + 36524 * c + 1461 * k + 365 * j" unfolding y by (rule march_days_parts [OF b])
  moreover have "(153 * (if m \<le> 2 then int m + 9 else int m - 3) + 2) sdiv 5 = month_days (if m \<le> 2 then int m + 9 else int m - 3)"
    using assms by (simp add: sdiv_nonneg month_days_def)
  moreover have "y - (if m \<le> 2 then 1 else 0) = ?y" "int m + (if 2 < m then - 3 else 9) = (if m \<le> 2 then int m + 9 else int m - 3)" by simp_all
  ultimately show ?thesis unfolding date_to_days_def Let_def by (simp only: era yoe) (simp add: algebra_simps)
qed

text \<open>The era, the year of the era and the day of the year that both conversions compute.\<close>

lemma era_day:
  assumes "0 \<le> doy" and "doy < 365 + march_leap y" and "z = march_days y + doy"
  obtains e doe yoe where "z div 146097 = e" "z - e * 146097 = doe" "0 \<le> doe" "doe < 146097" "0 \<le> yoe" "yoe < 400"
    "(doe - doe div 1460 + doe div 36524 - doe div 146096) div 365 = yoe" "y = yoe + e * 400"
    "doe = 365 * yoe + yoe div 4 - yoe div 100 + doy"
proof -
  obtain e c k j where y: "y = 400 * e + 100 * c + 4 * k + j" and b: "0 \<le> c" "c < 4" "0 \<le> k" "k < 25" "0 \<le> j" "j < 4"
    by (rule year_parts)
  have leap: "march_leap y = (if j = 3 \<and> (k = 24 \<longrightarrow> c = 3) then 1 else 0)"
    using leap_parts [OF b, of e] by (simp add: march_leap_def y)
  define doe where "doe = 36524 * c + 1461 * k + 365 * j + doy"
  have doe: "0 \<le> doe" "doe < 146097" using b assms(1,2) leap by (simp_all add: doe_def split: if_splits)
  have z: "z = 146097 * e + doe" using march_days_parts [OF b, of e] by (simp add: y doe_def assms(3))
  have yoe: "(doe - doe div 1460 + doe div 36524 - doe div 146096) div 365 = 100 * c + 4 * k + j"
    by (rule year_of_era [OF b assms(1) _ _ doe_def]) (use assms(2) leap in \<open>auto split: if_splits\<close>)
  have "doe = 365 * (100 * c + 4 * k + j) + (100 * c + 4 * k + j) div 4 - (100 * c + 4 * k + j) div 100 + doy"
    using parts_div(1,2) [OF b, of 0] by (simp add: doe_def)
  with that [OF int_div_pos_eq [OF z doe] _ doe _ _ yoe] show ?thesis using b y z by simp
qed

lemma days_to_date_march:
  assumes "0 \<le> mp" and "mp \<le> 11" and "1 \<le> d" and "d \<le> march_month_length y mp"
  shows "days_to_date (march_days y + month_days mp + d - 1 - 719468) =
    (if mp < 10 then (y, nat (mp + 3), nat d) else (y + 1, nat (mp - 9), nat d))"
proof -
  define doy z where "doy = month_days mp + d - 1" and "z = march_days y + doy"
  note month = month_of_day [OF assms, folded doy_def]
  obtain e doe yoe where era: "z div 146097 = e" "z - e * 146097 = doe" "0 \<le> doe" "0 \<le> yoe"
    "(doe - doe div 1460 + doe div 36524 - doe div 146096) div 365 = yoe" "y = yoe + e * 400"
    "doe = 365 * yoe + yoe div 4 - yoe div 100 + doy"
    by (rule era_day [OF month(2,3) z_def])
  have "0 \<le> doe - doe div 1460 + doe div 36524 - doe div 146096"
    using zdiv_mono2 [of doe 1 1460] zdiv_mono2 [of doe 36524 146096] era(3) by simp
  then have yoe: "(doe - doe sdiv 1460 + doe sdiv 36524 - doe sdiv 146096) sdiv 365 = yoe"
    using era(3,5) by (simp add: sdiv_nonneg)
  have doy: "doe - (365 * yoe + yoe sdiv 4 - yoe sdiv 100) = doy" using era(4,7) by (simp add: sdiv_nonneg)
  have mp: "(5 * doy + 2) sdiv 153 = mp" "(153 * mp + 2) sdiv 5 = month_days mp"
    using month(1,2) assms(1) by (simp_all add: sdiv_nonneg month_days_def)
  have "doy - month_days mp + 1 = d" by (simp add: doy_def)
  moreover have "d < 2 ^ 32" using assms(4) march_leap_bounds(2) [of y] by (simp add: march_month_length_def split: if_splits)
  moreover have "march_days y + month_days mp + d - 1 - 719468 + 719468 = z" by (simp add: z_def doy_def)
  ultimately show ?thesis unfolding days_to_date_def Let_def
    by (simp only: sdiv_era era(1,2) yoe doy mp) (use assms era(6) in simp)
qed

section \<open>Valid dates\<close>

definition valid_date :: "int \<Rightarrow> nat \<Rightarrow> nat \<Rightarrow> bool" where
  "valid_date y m d \<longleftrightarrow> (case days_in_month y m of None \<Rightarrow> False | Some n \<Rightarrow> 1 \<le> d \<and> d \<le> n)"

lemma days_in_month_range: "days_in_month y m = Some n \<Longrightarrow> 1 \<le> m \<and> m \<le> 12 \<and> 28 \<le> n \<and> n \<le> 31"
  by (auto simp: days_in_month_def split: if_splits)

lemma days_in_month_march:
  assumes "0 \<le> mp" and "mp \<le> 11"
  shows "days_in_month (if mp < 10 then y else y + 1) (nat (if mp < 10 then mp + 3 else mp - 9)) = Some (nat (march_month_length y mp))"
  using month_cases [OF assms] by (elim disjE) (simp_all add: days_in_month_def march_month_length_def march_leap_def)

lemma valid_date_march:
  assumes "valid_date y m d"
  obtains y' mp where "0 \<le> mp" "mp \<le> 11" "int d \<le> march_month_length y' mp" "1 \<le> int d"
    "y = (if mp < 10 then y' else y' + 1)" "m = nat (if mp < 10 then mp + 3 else mp - 9)"
    "date_to_days y m d = march_days y' + month_days mp + int d - 1 - 719468"
proof -
  obtain n where n: "days_in_month y m = Some n" "1 \<le> d" "d \<le> n" using assms by (auto simp: valid_date_def split: option.splits)
  then have m: "1 \<le> m" "m \<le> 12" using days_in_month_range by blast+
  let ?y = "if m \<le> 2 then y - 1 else y" and ?mp = "if m \<le> 2 then int m + 9 else int m - 3"
  have mp: "0 \<le> ?mp" "?mp \<le> 11" using m by auto
  have year_month: "y = (if ?mp < 10 then ?y else ?y + 1)" "m = nat (if ?mp < 10 then ?mp + 3 else ?mp - 9)" using m by auto
  then have "n = nat (march_month_length ?y ?mp)" using days_in_month_march [OF mp, of ?y] n(1) by auto
  then have "int d \<le> march_month_length ?y ?mp" "1 \<le> int d" using n(2,3) by linarith+
  with that [OF mp _ _ year_month] date_to_days_march [of m y d] m show ?thesis by simp
qed

lemma days_to_date_inverse: "valid_date y m d \<Longrightarrow> days_to_date (date_to_days y m d) = (y, m, d)"
proof (erule valid_date_march)
  fix y' mp
  assume b: "0 \<le> mp" "mp \<le> 11" "int d \<le> march_month_length y' mp" "1 \<le> int d"
    and eq: "y = (if mp < 10 then y' else y' + 1)" "m = nat (if mp < 10 then mp + 3 else mp - 9)"
      "date_to_days y m d = march_days y' + month_days mp + int d - 1 - 719468"
  show ?thesis unfolding eq(3) days_to_date_march [OF b(1,2,4,3)] by (simp add: eq(1,2))
qed

lemma date_exists: "\<exists>y m d. valid_date y m d \<and> date_to_days y m d = n"
proof -
  obtain y doy where year: "n + 719468 = march_days y + doy" "0 \<le> doy" "doy < 365 + march_leap y" using march_year_exists by blast
  obtain mp d where month: "0 \<le> mp" "mp \<le> 11" "1 \<le> d" "d \<le> march_month_length y mp" "doy = month_days mp + d - 1"
    using month_exists [OF year(2,3)] by blast
  let ?y = "if mp < 10 then y else y + 1" and ?m = "nat (if mp < 10 then mp + 3 else mp - 9)"
  have "valid_date ?y ?m (nat d)" unfolding valid_date_def days_in_month_march [OF month(1,2)] using month(3,4) by (simp add: Suc_le_eq nat_mono)
  moreover have "date_to_days ?y ?m (nat d) = n" using year(1) month by (subst date_to_days_march) (auto simp: nat_le_iff)
  ultimately show ?thesis by blast
qed

lemma date_to_days_inverse:
  assumes "days_to_date n = (y, m, d)"
  shows "valid_date y m d" and "date_to_days y m d = n"
proof -
  obtain y' m' d' where v: "valid_date y' m' d'" "date_to_days y' m' d' = n" using date_exists by blast
  then have "days_to_date n = (y', m', d')" using days_to_date_inverse by blast
  with v assms show "valid_date y m d" "date_to_days y m d = n" by simp_all
qed

section \<open>Dates of the HTTP layer\<close>

text \<open>The part of a date inside its era of 400 years is computed in \<open>u32\<close>.\<close>

definition civil_of_era :: "nat \<Rightarrow> nat \<times> nat \<times> nat" where
  "civil_of_era doe =
     (let yoe = (doe - doe div 1460 + doe div 36524 - doe div 146096) div 365;
          doy = doe - (365 * yoe + yoe div 4 - yoe div 100);
          mp = (5 * doy + 2) div 153;
          d = doy - (153 * mp + 2) div 5 + 1;
          m = (if mp < 10 then mp + 3 else mp - 9)
      in (yoe, m, d))"

definition http_days_to_date :: "int \<Rightarrow> int \<times> nat \<times> nat" where
  "http_days_to_date days =
     (let z = days + 719468;
          era = (if 0 \<le> z then z else z - 146096) sdiv 146097;
          doe = as_u32 (z - era * 146097);
          (yoe, m, d) = civil_of_era doe;
          y = int yoe + era * 400;
          y = (if m \<le> 2 then y + 1 else y)
      in (y, m, d))"

definition http_date_to_days :: "int \<Rightarrow> nat \<Rightarrow> nat \<Rightarrow> int" where
  "http_date_to_days year month day =
     (let y = (if month \<le> 2 then year - 1 else year);
          era = (if 0 \<le> y then y else y - 399) sdiv 400;
          yoe = as_u32 (y - era * 400);
          m = (if 2 < month then month - 3 else month + 9);
          doy = (153 * m + 2) div 5 + day - 1;
          doe = yoe * 365 + yoe div 4 - yoe div 100 + doy
      in era * 146097 + int doe - 719468)"

lemma http_date_to_days_eq:
  assumes "0 < month" and "0 < day"
  shows "http_date_to_days year month day = date_to_days year month day"
proof -
  let ?y = "if month \<le> 2 then year - 1 else year"
  let ?yoe = "?y - ?y div 400 * 400"
  have "?yoe = ?y mod 400" by (simp add: minus_div_mult_eq_mod)
  then have yoe: "0 \<le> ?yoe" "?yoe < 400" by simp_all
  then obtain r where r: "?yoe = int r" "r < 400" using zero_le_imp_eq_int by (metis of_nat_less_numeral_iff)
  have adjust: "year - (if month \<le> 2 then 1 else 0) = ?y"
    "int month + (if 2 < month then - 3 else 9) = int (if 2 < month then month - 3 else month + 9)" by auto
  have "r div 100 \<le> r * 365 + r div 4" using div_le_dividend [of r 100] by linarith
  then show ?thesis
    unfolding http_date_to_days_def date_to_days_def Let_def sdiv_era adjust r(1)
    using assms r(2) by (simp add: sdiv_nonneg of_nat_diff zdiv_int)
qed

lemma civil_no_underflow:
  fixes doe :: nat
  shows "int (doe - doe div 1460 + doe div 36524 - doe div 146096) = int doe - int doe div 1460 + int doe div 36524 - int doe div 146096"
    and "int (365 * doe + doe div 4 - doe div 100) = 365 * int doe + int doe div 4 - int doe div 100"
proof -
  have "doe div 1460 \<le> doe" "doe div 146096 \<le> doe div 36524" "doe div 100 \<le> doe div 4" by (simp_all add: div_le_mono2)
  then show "int (doe - doe div 1460 + doe div 36524 - doe div 146096) = int doe - int doe div 1460 + int doe div 36524 - int doe div 146096"
    "int (365 * doe + doe div 4 - doe div 100) = 365 * int doe + int doe div 4 - int doe div 100"
    by (simp_all add: of_nat_diff zdiv_int)
qed

lemma http_days_to_date_eq: "http_days_to_date n = days_to_date n"
proof -
  obtain y m d' where v: "valid_date y m d'" and n: "date_to_days y m d' = n" using date_exists by blast
  obtain y' mp where b: "0 \<le> mp" "mp \<le> 11" "int d' \<le> march_month_length y' mp" "1 \<le> int d'"
    and "date_to_days y m d' = march_days y' + month_days mp + int d' - 1 - 719468"
    by (rule valid_date_march [OF v])
  then have n': "n = march_days y' + month_days mp + int d' - 1 - 719468" using n by simp
  define doy z where "doy = month_days mp + int d' - 1" and "z = march_days y' + doy"
  note month = month_of_day [OF b(1,2,4,3), folded doy_def]
  obtain e doe yoe where era: "z div 146097 = e" "z - e * 146097 = doe" "0 \<le> doe" "doe < 146097" "0 \<le> yoe"
    "(doe - doe div 1460 + doe div 36524 - doe div 146096) div 365 = yoe" "y' = yoe + e * 400"
    "doe = 365 * yoe + yoe div 4 - yoe div 100 + doy"
    by (rule era_day [OF month(2,3) z_def])
  obtain D where D: "doe = int D" using era(3) zero_le_imp_eq_int by blast
  obtain Y where Y: "yoe = int Y" using era(5) zero_le_imp_eq_int by blast
  obtain M where M: "mp = int M" using b(1) zero_le_imp_eq_int by blast
  obtain N where N: "doy = int N" using month(2) zero_le_imp_eq_int by blast
  have "int ((D - D div 1460 + D div 36524 - D div 146096) div 365) = int Y"
    using era(6) by (simp only: zdiv_int civil_no_underflow D Y of_nat_numeral)
  then have yoe: "(D - D div 1460 + D div 36524 - D div 146096) div 365 = Y" by (simp only: of_nat_eq_iff)
  have "int D = int (365 * Y + Y div 4 - Y div 100 + N)"
    using era(8) by (simp only: of_nat_add civil_no_underflow D Y N)
  then have doy: "D - (365 * Y + Y div 4 - Y div 100) = N" by (simp only: of_nat_eq_iff) simp
  have "int ((5 * N + 2) div 153) = int M"
    using month(1) by (simp only: zdiv_int of_nat_add of_nat_mult of_nat_numeral N M)
  then have mp: "(5 * N + 2) div 153 = M" by (simp only: of_nat_eq_iff)
  have "month_days mp = int ((153 * M + 2) div 5)"
    by (simp only: month_days_def zdiv_int of_nat_add of_nat_mult of_nat_numeral M)
  then have "N - (153 * M + 2) div 5 + 1 = d'" using doy_def b(4) unfolding N by linarith
  then have "civil_of_era D = (Y, if M < 10 then M + 3 else M - 9, d')"
    unfolding civil_of_era_def Let_def yoe doy mp by simp
  moreover have "n + 719468 = z" by (simp add: n' z_def doy_def)
  moreover have "as_u32 doe = D" using era(4) by (simp add: D)
  ultimately have "http_days_to_date n = (if M < 10 then (y', M + 3, d') else (y' + 1, M - 9, d'))"
    unfolding http_days_to_date_def Let_def sdiv_era using era(1,2,7) b by (auto simp: Y M)
  moreover have "days_to_date n = (if M < 10 then (y', M + 3, d') else (y' + 1, M - 9, d'))"
    unfolding n' days_to_date_march [OF b(1,2,4,3)] using b by (simp add: M nat_add_distrib nat_diff_distrib)
  ultimately show ?thesis by simp
qed

section \<open>Dates of request timestamps\<close>

definition is_leap :: "nat \<Rightarrow> bool" where
  "is_leap y \<longleftrightarrow> y mod 4 = 0 \<and> (y mod 100 \<noteq> 0 \<or> y mod 400 = 0)"

definition MONTH_DAYS :: "nat list" where
  "MONTH_DAYS = [0, 31, 59, 90, 120, 151, 181, 212, 243, 273, 304, 334]"

definition DAYS_PER_MONTH :: "nat list" where
  "DAYS_PER_MONTH = [31, 28, 31, 30, 31, 30, 31, 31, 30, 31, 30, 31]"

text \<open>The loop over the full years before \<open>year\<close>.\<close>

definition full_years :: "nat \<Rightarrow> nat" where
  "full_years year = fold (\<lambda>y days. days + (if is_leap y then 366 else 365)) [1970..<year] 0"

definition days_since_epoch :: "nat \<Rightarrow> nat \<Rightarrow> nat \<Rightarrow> nat option" where
  "days_since_epoch year month day =
     (if year < 1970 then None
      else if \<not> (1 \<le> month \<and> month \<le> 12) then None
      else
        let max_day = DAYS_PER_MONTH ! (month - 1);
            max_day = (if month = 2 \<and> is_leap year then max_day + 1 else max_day)
        in if day = 0 \<or> max_day < day then None
           else
             let days = full_years year;
                 days = days + MONTH_DAYS ! (month - 1);
                 days = (if 2 < month \<and> is_leap year then days + 1 else days)
             in Some (days + (day - 1)))"

lemma is_leap_iff: "is_leap y \<longleftrightarrow> is_leap_year (int y)"
  unfolding is_leap_def is_leap_year_iff dvd_eq_mod_eq_0 [symmetric]
  using int_dvd_int_iff [of 4 y] int_dvd_int_iff [of 100 y] int_dvd_int_iff [of 400 y] by simp

lemma full_years_eq: "int (full_years (1970 + k)) = march_days (int k + 1969) - march_days 1969"
proof (induction k)
  case (Suc k)
  have "[1970..<1970 + Suc k] = [1970..<1970 + k] @ [1970 + k]" by (simp only: add_Suc_right upt_Suc le_add1 if_True)
  then have "full_years (1970 + Suc k) = full_years (1970 + k) + (if is_leap (1970 + k) then 366 else 365)"
    by (simp only: full_years_def fold_append fold.simps comp_apply id_apply)
  moreover have "march_days (int k + 1969 + 1) = march_days (int k + 1969) + 365 + march_leap (int k + 1969)" by (rule march_days_Suc)
  moreover have "is_leap (1970 + k) \<longleftrightarrow> is_leap_year (int k + 1969 + 1)" by (simp add: is_leap_iff ac_simps)
  ultimately show ?case using Suc by (simp add: march_leap_def ac_simps split: if_splits)
qed (simp add: full_years_def)

lemma month_numbers:
  assumes "1 \<le> m" and "m \<le> (12 :: nat)"
  shows "m = 1 \<or> m = 2 \<or> m = 3 \<or> m = 4 \<or> m = 5 \<or> m = 6 \<or> m = 7 \<or> m = 8 \<or> m = 9 \<or> m = 10 \<or> m = 11 \<or> m = 12"
  using assms by presburger

lemma days_since_epoch_eq:
  "days_since_epoch y m d = (if 1970 \<le> y \<and> valid_date (int y) m d then Some (nat (date_to_days (int y) m d)) else None)"
proof (cases "1970 \<le> y \<and> 1 \<le> m \<and> m \<le> 12")
  case True
  then obtain k where k: "y = 1970 + k" using le_Suc_ex by blast
  have m: "m = 1 \<or> m = 2 \<or> m = 3 \<or> m = 4 \<or> m = 5 \<or> m = 6 \<or> m = 7 \<or> m = 8 \<or> m = 9 \<or> m = 10 \<or> m = 11 \<or> m = 12"
    using True by (intro month_numbers) simp_all
  have valid: "valid_date (int y) m d \<longleftrightarrow> \<not> (d = 0 \<or> (if m = 2 \<and> is_leap y then DAYS_PER_MONTH ! (m - 1) + 1 else DAYS_PER_MONTH ! (m - 1)) < d)"
    using m by (elim disjE) (auto simp: valid_date_def days_in_month_def DAYS_PER_MONTH_def is_leap_iff)
  have start: "march_days 1969 = 719162" by (simp add: march_days_def)
  have leap: "march_days (int y) = march_days (int k + 1969) + 365 + (if is_leap y then 1 else 0)"
    using march_days_Suc [of "int k + 1969"] by (simp add: march_leap_def is_leap_iff k ac_simps)
  have days: "date_to_days (int y) m d = int (full_years y + MONTH_DAYS ! (m - 1) + (if 2 < m \<and> is_leap y then 1 else 0)) + int d - 1"
    using m leap start full_years_eq [of k]
    by (elim disjE) (simp_all add: date_to_days_march month_days_def MONTH_DAYS_def k add.commute)
  show ?thesis
  proof (cases "valid_date (int y) m d")
    case False
    with valid True show ?thesis unfolding days_since_epoch_def Let_def by auto
  next
    case v: True
    then have "d \<noteq> 0" using valid by simp
    then have "nat (date_to_days (int y) m d) = full_years y + MONTH_DAYS ! (m - 1) + (if 2 < m \<and> is_leap y then 1 else 0) + (d - 1)"
      unfolding days by linarith
    with v valid True show ?thesis unfolding days_since_epoch_def Let_def by auto
  qed
next
  case False
  then show ?thesis by (auto simp: days_since_epoch_def valid_date_def dest: days_in_month_range split: option.splits)
qed

end
