(* ===== verification/Timestamps.thy ===== *)
theory Timestamps
  imports Calendar Server_Error "HOL-Library.Monad_Syntax"
begin

text \<open>
  The textual timestamps of the HTTP layer (\<^verbatim>\<open>server-http/src/http/response.rs\<close> and \<^verbatim>\<open>xml.rs\<close>) and of signed requests
  (\<^verbatim>\<open>auth/src/canonical.rs\<close>). A count of seconds or milliseconds is a \<open>u64\<close>; the days since the epoch it holds are far
  below the bound of \<open>i64\<close>, so the cast keeps them.
\<close>

section \<open>Formatting\<close>

text \<open>\<open>{:0w}\<close> of an unsigned and of a signed integer.\<close>

definition fmt_pad :: "nat \<Rightarrow> nat \<Rightarrow> string" where
  "fmt_pad w n = (let s = dec_of_nat n in replicate (w - length s) (CHR ''0'') @ s)"

definition fmt_pad_i64 :: "nat \<Rightarrow> int \<Rightarrow> string" where
  "fmt_pad_i64 w n = (if n < 0 then CHR ''-'' # fmt_pad (w - 1) (nat (- n)) else fmt_pad w (nat n))"

text \<open>The copy of the conversion in \<^verbatim>\<open>xml.rs\<close>.\<close>

definition xml_days_to_date :: "int \<Rightarrow> int \<times> nat \<times> nat" where
  "xml_days_to_date days =
     (let z = days + 719468;
          era = (if 0 \<le> z then z else z - 146096) sdiv 146097;
          doe = as_u32 (z - era * 146097);
          (yoe, m, d) = civil_of_era doe;
          y = int yoe + era * 400;
          y = (if m \<le> 2 then y + 1 else y)
      in (y, m, d))"

lemma xml_days_to_date_eq [simp]: "xml_days_to_date n = days_to_date n"
  using http_days_to_date_eq [of n] by (simp add: xml_days_to_date_def http_days_to_date_def)

definition WEEKDAYS :: "string list" where
  "WEEKDAYS = [''Sun'', ''Mon'', ''Tue'', ''Wed'', ''Thu'', ''Fri'', ''Sat'']"

definition MONTHS :: "string list" where
  "MONTHS = [''Jan'', ''Feb'', ''Mar'', ''Apr'', ''May'', ''Jun'', ''Jul'', ''Aug'', ''Sep'', ''Oct'', ''Nov'', ''Dec'']"

definition format_http_date :: "u64 \<Rightarrow> string" where
  "format_http_date millis =
     (let secs = unat millis div 1000;
          days_since_epoch = secs div 86400;
          time_of_day = secs mod 86400;
          hours = time_of_day div 3600;
          minutes = time_of_day mod 3600 div 60;
          seconds = time_of_day mod 60;
          weekday = (days_since_epoch + 4) mod 7;
          (year, month, day) = http_days_to_date (int days_since_epoch)
      in WEEKDAYS ! weekday @ '', '' @ fmt_pad 2 day @ '' '' @ MONTHS ! (month - 1) @ '' '' @ fmt_pad_i64 4 year @ '' '' @
         fmt_pad 2 hours @ '':'' @ fmt_pad 2 minutes @ '':'' @ fmt_pad 2 seconds @ '' GMT'')"

definition format_timestamp_secs :: "u64 \<Rightarrow> string" where
  "format_timestamp_secs secs =
     (let days_since_epoch = unat secs div 86400;
          time_of_day = unat secs mod 86400;
          hours = time_of_day div 3600;
          minutes = time_of_day mod 3600 div 60;
          seconds = time_of_day mod 60;
          (year, month, day) = xml_days_to_date (int days_since_epoch)
      in fmt_pad_i64 4 year @ ''-'' @ fmt_pad 2 month @ ''-'' @ fmt_pad 2 day @ ''T'' @
         fmt_pad 2 hours @ '':'' @ fmt_pad 2 minutes @ '':'' @ fmt_pad 2 seconds @ ''Z'')"

definition format_object_lock_timestamp :: "u64 \<Rightarrow> string" where
  "format_object_lock_timestamp unix_seconds =
     (let days_since_epoch = unat unix_seconds div 86400;
          time_of_day = unat unix_seconds mod 86400;
          hours = time_of_day div 3600;
          minutes = time_of_day mod 3600 div 60;
          seconds = time_of_day mod 60;
          (year, month, day) = xml_days_to_date (int days_since_epoch)
      in fmt_pad_i64 4 year @ ''-'' @ fmt_pad 2 month @ ''-'' @ fmt_pad 2 day @ ''T'' @
         fmt_pad 2 hours @ '':'' @ fmt_pad 2 minutes @ '':'' @ fmt_pad 2 seconds @ ''.000Z'')"

definition format_timestamp :: "u64 \<Rightarrow> string" where
  "format_timestamp millis =
     (let secs = unat millis div 1000;
          days_since_epoch = secs div 86400;
          time_of_day = secs mod 86400;
          hours = time_of_day div 3600;
          minutes = time_of_day mod 3600 div 60;
          seconds = time_of_day mod 60;
          (year, month, day) = xml_days_to_date (int days_since_epoch)
      in fmt_pad_i64 4 year @ ''-'' @ fmt_pad 2 month @ ''-'' @ fmt_pad 2 day @ ''T'' @
         fmt_pad 2 hours @ '':'' @ fmt_pad 2 minutes @ '':'' @ fmt_pad 2 seconds @ ''.000Z'')"

text \<open>The header form has the conversion of the date in its own body.\<close>

definition format_object_lock_header_timestamp :: "u64 \<Rightarrow> string" where
  "format_object_lock_header_timestamp unix_seconds =
     (let days_since_epoch = unat unix_seconds div 86400;
          time_of_day = unat unix_seconds mod 86400;
          hours = time_of_day div 3600;
          minutes = time_of_day mod 3600 div 60;
          seconds = time_of_day mod 60;
          z = int days_since_epoch + 719468;
          era = (if 0 \<le> z then z else z - 146096) sdiv 146097;
          doe = as_u32 (z - era * 146097);
          (yoe, month, day) = civil_of_era doe;
          y = int yoe + era * 400;
          year = (if month \<le> 2 then y + 1 else y)
      in fmt_pad_i64 4 year @ ''-'' @ fmt_pad 2 month @ ''-'' @ fmt_pad 2 day @ ''T'' @
         fmt_pad 2 hours @ '':'' @ fmt_pad 2 minutes @ '':'' @ fmt_pad 2 seconds @ ''Z'')"

section \<open>Parsing\<close>

definition parse_u32 :: "string \<Rightarrow> nat option" where
  "parse_u32 s = from_str_radix 32 10 s"

definition parse_i64 :: "string \<Rightarrow> int option" where
  "parse_i64 s =
     (case s of
        CHR ''-'' # ds \<Rightarrow>
          if ds = [] then None
          else (case digits_value 10 0 ds of None \<Rightarrow> None | Some n \<Rightarrow> if n \<le> 2 ^ 63 then Some (- int n) else None)
      | _ \<Rightarrow> map_option int (from_str_radix 63 10 s))"

text \<open>\<open>from_utf8(bytes.get(a..b)?)\<close>.\<close>

definition str_field :: "nat \<Rightarrow> nat \<Rightarrow> string \<Rightarrow> string option" where
  "str_field a b s = (if b \<le> length s then from_utf8 (bytes_of_string (take (b - a) (drop a s))) else None)"

fun position :: "'a \<Rightarrow> 'a list \<Rightarrow> nat option" where
  "position x [] = None"
| "position x (y # ys) = (if y = x then Some 0 else map_option Suc (position x ys))"

definition parse_http_date :: "string \<Rightarrow> u64 option" where
  "parse_http_date s =
     (let s = trim s in
      if length s < 29 \<or> drop (length s - 3) s \<noteq> ''GMT'' then None
      else do {
        day \<leftarrow> Option.bind (str_field 5 7 s) parse_u32;
        month_str \<leftarrow> str_field 8 11 s;
        year \<leftarrow> Option.bind (str_field 12 16 s) parse_i64;
        hours \<leftarrow> Option.bind (str_field 17 19 s) (from_str_radix 64 10);
        minutes \<leftarrow> Option.bind (str_field 20 22 s) (from_str_radix 64 10);
        seconds \<leftarrow> Option.bind (str_field 23 25 s) (from_str_radix 64 10);
        index \<leftarrow> position month_str MONTHS;
        let month = index + 1;
        if 24 \<le> hours \<or> 60 \<le> minutes \<or> 60 \<le> seconds \<or> day = 0 \<or> 31 < day \<or> 12 < month then None
        else
          let days = http_date_to_days year month day in
          if days < 0 then None
          else
            let secs = of_nat (nat days * 86400 + hours * 3600 + minutes * 60 + seconds) :: u64
            in Some (secs * 1000)
      })"

section \<open>Padded numbers\<close>

lemma digits_value_zeros [simp]: "digits_value 10 0 (replicate k (CHR ''0'') @ s) = digits_value 10 0 s"
  by (induction k) (simp_all add: to_digit_def)

lemma from_str_radix_fmt_pad [simp]: "n < 2 ^ w \<Longrightarrow> from_str_radix w 10 (fmt_pad k n) = Some n"
  unfolding fmt_pad_def Let_def by (intro from_str_radix_digits) (simp_all add: digits_value_dec)

lemma length_dec_of_nat: "n < 10 ^ k \<Longrightarrow> 0 < k \<Longrightarrow> length (dec_of_nat n) \<le> k"
proof (induction n arbitrary: k rule: dec_of_nat.induct)
  case (1 n)
  show ?case
  proof (cases "n < 10")
    case True
    with "1.prems" show ?thesis by (simp add: dec_of_nat.simps [of n])
  next
    case False
    then obtain l where k: "k = Suc l" "0 < l" using "1.prems" by (cases k; cases "k - 1") auto
    then have "n div 10 < 10 ^ l" using "1.prems"(1) by (simp add: less_mult_imp_div_less mult.commute)
    with "1.IH" [OF False _ k(2)] show ?thesis using False k(1) by (simp add: dec_of_nat.simps [of n])
  qed
qed

lemma length_fmt_pad [simp]: "n < 10 ^ k \<Longrightarrow> 0 < k \<Longrightarrow> length (fmt_pad k n) = k"
  using length_dec_of_nat [of n k] by (simp add: fmt_pad_def Let_def)

lemma fmt_pad_digits: "c \<in> set (fmt_pad k n) \<Longrightarrow> is_ascii_digit c"
  using dec_of_nat_digits by (auto simp: fmt_pad_def Let_def is_ascii_digit_def split: if_splits)

lemma from_utf8_ascii: "\<forall>c \<in> set s. of_char c < (128 :: nat) \<Longrightarrow> from_utf8 (bytes_of_string s) = Some s"
proof -
  assume "\<forall>c \<in> set s. of_char c < (128 :: nat)"
  then have "\<forall>b \<in> set (bytes_of_string s). b < 0x80"
    by (auto simp: bytes_of_string_def word_less_nat_alt unat_of_nat)
  then show ?thesis by (simp add: from_utf8_def utf8_valid_ascii)
qed

lemma from_utf8_fmt_pad [simp]: "from_utf8 (bytes_of_string (fmt_pad k n)) = Some (fmt_pad k n)"
  by (rule from_utf8_ascii) (auto dest!: fmt_pad_digits simp: is_ascii_digit_def Let_def)

lemma fmt_pad_not_minus: "CHR ''-'' \<notin> set (fmt_pad k n)" "CHR '':'' \<notin> set (fmt_pad k n)" "CHR ''T'' \<notin> set (fmt_pad k n)"
  "CHR ''.'' \<notin> set (fmt_pad k n)"
  by (auto dest!: fmt_pad_digits simp: is_ascii_digit_def)

lemma parse_i64_fmt_pad [simp]: "n < 2 ^ 63 \<Longrightarrow> parse_i64 (fmt_pad k n) = Some (int n)"
  using fmt_pad_not_minus(1) [of k n] from_str_radix_fmt_pad [of n 63 k]
  by (cases "fmt_pad k n") (auto simp: parse_i64_def split: char.split bool.split)

section \<open>HTTP dates\<close>

lemma position_nth: "distinct xs \<Longrightarrow> i < length xs \<Longrightarrow> position (xs ! i) xs = Some i"
proof (induction xs arbitrary: i)
  case (Cons x xs)
  then show ?case by (cases i) auto
qed simp

lemma names: "distinct MONTHS" "length MONTHS = 12" "length WEEKDAYS = 7"
  by (simp_all add: MONTHS_def WEEKDAYS_def)

lemma month_name: "i < 12 \<Longrightarrow> length (MONTHS ! i) = 3 \<and> from_utf8 (bytes_of_string (MONTHS ! i)) = Some (MONTHS ! i)"
proof -
  assume "i < 12"
  then have "MONTHS ! i \<in> set MONTHS" by (simp add: names)
  moreover have "\<forall>m \<in> set MONTHS. length m = 3 \<and> (\<forall>c \<in> set m. of_char c < (128 :: nat))" by (simp add: MONTHS_def)
  ultimately show ?thesis using from_utf8_ascii by blast
qed

lemma weekday_name: "i < 7 \<Longrightarrow> length (WEEKDAYS ! i) = 3 \<and> \<not> is_space (hd (WEEKDAYS ! i))"
proof -
  assume "i < 7"
  then have "WEEKDAYS ! i \<in> set WEEKDAYS" by (simp add: names)
  moreover have "\<forall>m \<in> set WEEKDAYS. length m = 3 \<and> \<not> is_space (hd m)" by (simp add: WEEKDAYS_def is_space_def)
  ultimately show ?thesis by blast
qed

text \<open>The parser reads the fields of a date of the fixed form.\<close>

lemma parse_http_date_fields:
  assumes "trim s = s" and "length s = 29" and "drop 26 s = ''GMT''" and "str_field 5 7 s = Some (fmt_pad 2 day)"
    and "str_field 8 11 s = Some (MONTHS ! m)" and "str_field 12 16 s = Some (fmt_pad 4 year)"
    and "str_field 17 19 s = Some (fmt_pad 2 hours)" and "str_field 20 22 s = Some (fmt_pad 2 minutes)"
    and "str_field 23 25 s = Some (fmt_pad 2 seconds)"
    and "m < 12" and "year < 10000" and "hours < 24" and "minutes < 60" and "seconds < 60" and "1 \<le> day" and "day \<le> 31"
  shows "parse_http_date s =
     (if http_date_to_days (int year) (m + 1) day < 0 then None
      else Some (of_nat (nat (http_date_to_days (int year) (m + 1) day) * 86400 + hours * 3600 + minutes * 60 + seconds) * 1000))"
proof -
  have "position (MONTHS ! m) MONTHS = Some m" using assms(10) by (simp add: position_nth names)
  with assms show ?thesis by (simp add: parse_http_date_def parse_u32_def)
qed

lemma http_date_fields:
  assumes "w < 7" and "day < 100" and "m < 12" and "year < 10000" and "hours < 24" and "minutes < 60" and "seconds < 60"
  defines "s \<equiv> WEEKDAYS ! w @ '', '' @ fmt_pad 2 day @ '' '' @ MONTHS ! m @ '' '' @ fmt_pad 4 year @ '' '' @
       fmt_pad 2 hours @ '':'' @ fmt_pad 2 minutes @ '':'' @ fmt_pad 2 seconds @ '' GMT''"
  shows "trim s = s" "length s = 29" "drop 26 s = ''GMT''" "str_field 5 7 s = Some (fmt_pad 2 day)"
    "str_field 8 11 s = Some (MONTHS ! m)" "str_field 12 16 s = Some (fmt_pad 4 year)"
    "str_field 17 19 s = Some (fmt_pad 2 hours)" "str_field 20 22 s = Some (fmt_pad 2 minutes)"
    "str_field 23 25 s = Some (fmt_pad 2 seconds)"
proof -
  note w = weekday_name [OF assms(1)] and m = month_name [OF assms(3)]
  have len: "length (fmt_pad 2 day) = 2" "length (fmt_pad 4 year) = 4" "length (fmt_pad 2 hours) = 2"
    "length (fmt_pad 2 minutes) = 2" "length (fmt_pad 2 seconds) = 2" "length (MONTHS ! m) = 3" "length (WEEKDAYS ! w) = 3"
    using assms w m by simp_all
  have "WEEKDAYS ! w \<noteq> []" using len(7) by auto
  then show "trim s = s" unfolding s_def using w by (intro trim_id) (simp add: is_space_def hd_append)
  show "length s = 29" "drop 26 s = ''GMT''" by (simp_all add: s_def len)
  show "str_field 5 7 s = Some (fmt_pad 2 day)"
    "str_field 8 11 s = Some (MONTHS ! m)" "str_field 12 16 s = Some (fmt_pad 4 year)"
    "str_field 17 19 s = Some (fmt_pad 2 hours)" "str_field 20 22 s = Some (fmt_pad 2 minutes)"
    "str_field 23 25 s = Some (fmt_pad 2 seconds)"
    using m by (simp_all add: str_field_def len s_def)
qed

lemma month_days_mono: "a \<le> b \<Longrightarrow> month_days a \<le> month_days b"
  unfolding month_days_def by (intro zdiv_mono1) simp_all

lemma days_to_date_nonneg:
  assumes "days_to_date (int n) = (y, m, d)"
  shows "1 \<le> m" "m \<le> 12" "1 \<le> d" "d \<le> 31" "1970 \<le> y"
proof -
  note v = date_to_days_inverse [OF assms]
  then obtain k where k: "days_in_month y m = Some k" "1 \<le> d" "d \<le> k" by (auto simp: valid_date_def split: option.splits)
  then show m: "1 \<le> m" "m \<le> 12" "1 \<le> d" "d \<le> 31" using days_in_month_range [OF k(1)] by simp_all
  have days: "month_days 11 = 337" "month_days 9 = 275" "march_days 1968 = 718797" "march_days 1969 = 719162"
    by (simp_all add: month_days_def march_days_def)
  show "1970 \<le> y"
  proof (rule ccontr)
    assume y: "\<not> 1970 \<le> y"
    show False
    proof (cases "m \<le> 2")
      case True
      then have "march_days (y - 1) \<le> 718797" "month_days (int m + 9) \<le> 337"
        using march_days_mono [of "y - 1" 1968] month_days_mono [of "int m + 9" 11] y days by auto
      then show False using date_to_days_march [of m y d] v(2) m True by simp
    next
      case False
      then have "march_days y \<le> 719162" "month_days (int m - 3) \<le> 275"
        using march_days_mono [of y 1969] month_days_mono [of "int m - 3" 9] y m(2) days by auto
      then show False using date_to_days_march [of m y d] v(2) m False by simp
    qed
  qed
qed

lemma days_to_date_year:
  assumes "days_to_date n = (y, m, d)" and "n < 2932897"
  shows "y \<le> 9999"
proof (rule ccontr)
  assume y: "\<not> y \<le> 9999"
  note v = date_to_days_inverse [OF assms(1)]
  then obtain k where k: "days_in_month y m = Some k" "1 \<le> d" "d \<le> k" by (auto simp: valid_date_def split: option.splits)
  then have m: "1 \<le> m" "m \<le> 12" using days_in_month_range [OF k(1)] by simp_all
  have days: "month_days 10 = 306" "march_days 9999 = 3652059" "march_days 10000 = 3652425" "month_days 0 = 0"
    by (simp_all add: month_days_def march_days_def)
  show False
  proof (cases "m \<le> 2")
    case True
    then have "3652059 \<le> march_days (y - 1)" "306 \<le> month_days (int m + 9)"
      using march_days_mono [of 9999 "y - 1"] month_days_mono [of 10 "int m + 9"] y m(1) days by auto
    then show False using date_to_days_march [of m y d] v(2) m True k(2) assms(2) by simp
  next
    case False
    then have "3652425 \<le> march_days y" "0 \<le> month_days (int m - 3)"
      using march_days_mono [of 10000 y] month_days_mono [of 0 "int m - 3"] y days by auto
    then show False using date_to_days_march [of m y d] v(2) m False k(2) assms(2) by simp
  qed
qed

lemma time_of_day_parts:
  fixes n :: nat
  shows "n mod 86400 div 3600 < 24" "n mod 86400 mod 3600 div 60 < 60" "n mod 86400 mod 60 < 60"
    "n div 86400 * 86400 + n mod 86400 div 3600 * 3600 + n mod 86400 mod 3600 div 60 * 60 + n mod 86400 mod 60 = n"
proof -
  let ?t = "n mod 86400"
  have "?t < 86400" by simp
  then show "?t div 3600 < 24" "?t mod 3600 div 60 < 60" "?t mod 60 < 60" by (simp_all add: less_mult_imp_div_less)
  have "?t mod 3600 mod 60 = ?t mod 60" by (simp add: mod_mod_cancel)
  then have "?t div 3600 * 3600 + ?t mod 3600 div 60 * 60 + ?t mod 60 = ?t"
    using div_mult_mod_eq [of ?t 3600] div_mult_mod_eq [of "?t mod 3600" 60] by linarith
  then show "n div 86400 * 86400 + ?t div 3600 * 3600 + ?t mod 3600 div 60 * 60 + ?t mod 60 = n"
    using div_mult_mod_eq [of n 86400] by linarith
qed

lemma http_date_parse_format:
  assumes "millis < 253402300800000"
  shows "parse_http_date (format_http_date millis) = Some (millis div 1000 * 1000)"
proof -
  define secs where "secs = unat millis div 1000"
  have "unat millis < 253402300800000" using assms by (simp add: word_less_nat_alt)
  then have secs: "secs < 253402300800" by (simp add: secs_def less_mult_imp_div_less)
  obtain y m d where date: "days_to_date (int (secs div 86400)) = (y, m, d)" by (metis prod_cases3)
  have "secs div 86400 < 2932897" using secs by (simp add: less_mult_imp_div_less)
  then have "int (secs div 86400) < 2932897" by linarith
  note y = days_to_date_year [OF date this] and r = days_to_date_nonneg [OF date] and inv = date_to_days_inverse(2) [OF date]
  obtain Y where Y: "y = int Y" using r(5) zero_le_imp_eq_int [of y] by auto
  note t = time_of_day_parts [of secs]
  have f: "(secs div 86400 + 4) mod 7 < 7" "d < 100" "m - 1 < 12" "Y < 10000" using r y Y by auto
  note fields = http_date_fields [OF f t(1-3)]
  have format: "format_http_date millis = WEEKDAYS ! ((secs div 86400 + 4) mod 7) @ '', '' @ fmt_pad 2 d @ '' '' @ MONTHS ! (m - 1) @ '' '' @
      fmt_pad 4 Y @ '' '' @ fmt_pad 2 (secs mod 86400 div 3600) @ '':'' @ fmt_pad 2 (secs mod 86400 mod 3600 div 60) @ '':'' @
      fmt_pad 2 (secs mod 86400 mod 60) @ '' GMT''"
    unfolding format_http_date_def Let_def secs_def [symmetric] http_days_to_date_eq date by (simp add: fmt_pad_i64_def Y)
  have days: "http_date_to_days (int Y) (m - 1 + 1) d = int (secs div 86400)"
    using http_date_to_days_eq [of m d y] inv r by (simp add: Y)
  have "parse_http_date (format_http_date millis) = Some (of_nat secs * 1000)"
    unfolding format parse_http_date_fields [OF fields f(3,4) t(1-3) r(3,4)] days using t(4) by simp
  moreover have "unat (millis div 1000) = secs" by (simp add: secs_def unat_div)
  moreover have "of_nat (unat (millis div 1000)) = millis div 1000" by simp
  ultimately show ?thesis by (simp only:)
qed

section \<open>ISO 8601 and request timestamps\<close>

definition is_leap_i64 :: "int \<Rightarrow> bool" where
  "is_leap_i64 year \<longleftrightarrow> year smod 4 = 0 \<and> year smod 100 \<noteq> 0 \<or> year smod 400 = 0"

definition days_in_month_i64 :: "int \<Rightarrow> nat \<Rightarrow> nat option" where
  "days_in_month_i64 year month =
     (if month \<in> {1, 3, 5, 7, 8, 10, 12} then Some 31
      else if month \<in> {4, 6, 9, 11} then Some 30
      else if month = 2 then Some (if is_leap_i64 year then 29 else 28)
      else None)"

definition checked_i64 :: "int \<Rightarrow> int option" where
  "checked_i64 x = (if - (2 ^ 63) \<le> x \<and> x < 2 ^ 63 then Some x else None)"

text \<open>The year is never near the lower bound of \<open>i64\<close>: a year in the text has no minus sign.\<close>

definition date_to_days_i64 :: "int \<Rightarrow> nat \<Rightarrow> nat \<Rightarrow> int option" where
  "date_to_days_i64 year month day = do {
     year \<leftarrow> checked_i64 (year - (if month \<le> 2 then 1 else 0));
     let era = (if 0 \<le> year then year else year - 399) sdiv 400;
     era400 \<leftarrow> checked_i64 (era * 400);
     yoe \<leftarrow> checked_i64 (year - era400);
     let month = int month;
     let day = int day;
     month_offset \<leftarrow> checked_i64 (month + (if 2 < month then - 3 else 9));
     doy \<leftarrow> checked_i64 (month_offset * 153);
     doy \<leftarrow> checked_i64 (doy + 2);
     doy \<leftarrow> checked_i64 (doy sdiv 5);
     doy \<leftarrow> checked_i64 (doy + day);
     doy \<leftarrow> checked_i64 (doy - 1);
     doe \<leftarrow> checked_i64 (yoe * 365);
     doe \<leftarrow> checked_i64 (doe + yoe sdiv 4);
     doe \<leftarrow> checked_i64 (doe - yoe sdiv 100);
     doe \<leftarrow> checked_i64 (doe + doy);
     days \<leftarrow> checked_i64 (era * 146097);
     days \<leftarrow> checked_i64 (days + doe);
     checked_i64 (days - 719468)
   }"

definition date_time_to_epoch_seconds :: "int \<Rightarrow> nat \<Rightarrow> nat \<Rightarrow> nat \<Rightarrow> nat \<Rightarrow> nat \<Rightarrow> u64 option" where
  "date_time_to_epoch_seconds year month day hour minute second = do {
     max_day \<leftarrow> days_in_month_i64 year month;
     if day = 0 \<or> max_day < day \<or> 23 < hour \<or> 59 < minute \<or> 59 < second then None
     else do {
       days \<leftarrow> date_to_days_i64 year month day;
       if days < 0 then None
       else do {
         seconds \<leftarrow> checked_i64 (days * 86400);
         seconds \<leftarrow> checked_i64 (seconds + int hour * 3600);
         seconds \<leftarrow> checked_i64 (seconds + int minute * 60);
         seconds \<leftarrow> checked_i64 (seconds + int second);
         if 0 \<le> seconds then Some (of_int seconds) else None
       }
     }
   }"

record Iso8601UtcOptions =
  trim_whitespace :: bool
  require_fixed_width_fields :: bool

definition parse_iso8601_date :: "string \<Rightarrow> bool \<Rightarrow> (int \<times> nat \<times> nat) option" where
  "parse_iso8601_date date fixed_width =
     (case split_at (CHR ''-'') date of
        [year_part, month_part, day_part] \<Rightarrow>
          if fixed_width \<and> (length year_part \<noteq> 4 \<or> length month_part \<noteq> 2 \<or> length day_part \<noteq> 2) then None
          else do {
            year \<leftarrow> parse_i64 year_part;
            month \<leftarrow> parse_u32 month_part;
            day \<leftarrow> parse_u32 day_part;
            Some (year, month, day)
          }
      | _ \<Rightarrow> None)"

definition parse_iso8601_time :: "string \<Rightarrow> bool \<Rightarrow> (nat \<times> nat \<times> nat) option" where
  "parse_iso8601_time time fixed_width =
     (case split_at (CHR '':'') time of
        [hour_part, minute_part, second_part] \<Rightarrow>
          if fixed_width \<and> (length hour_part \<noteq> 2 \<or> length minute_part \<noteq> 2 \<or> length second_part \<noteq> 2) then None
          else do {
            hour \<leftarrow> parse_u32 hour_part;
            minute \<leftarrow> parse_u32 minute_part;
            second \<leftarrow> parse_u32 second_part;
            Some (hour, minute, second)
          }
      | _ \<Rightarrow> None)"

definition parse_iso8601_utc_seconds_with_options :: "string \<Rightarrow> Iso8601UtcOptions \<Rightarrow> u64 option" where
  "parse_iso8601_utc_seconds_with_options v options =
     (let v = (if trim_whitespace options then trim v else v) in do {
        datetime \<leftarrow> strip_suffix ''Z'' v;
        let (datetime, fractional) =
          (case split_once (CHR ''.'') datetime of Some (prefix, suffix) \<Rightarrow> (prefix, Some suffix) | None \<Rightarrow> (datetime, None));
        if (case fractional of Some part \<Rightarrow> \<not> list_all is_ascii_digit part | None \<Rightarrow> False) then None
        else do {
          (date, time) \<leftarrow> split_once (CHR ''T'') datetime;
          (year, month, day) \<leftarrow> parse_iso8601_date date (require_fixed_width_fields options);
          (hour, minute, second) \<leftarrow> parse_iso8601_time time (require_fixed_width_fields options);
          date_time_to_epoch_seconds year month day hour minute second
        }
      })"

text \<open>A loop that stops at the first byte that is no digit and at an overflow of \<open>u32\<close>.\<close>

fun fixed_width_loop :: "nat \<Rightarrow> string \<Rightarrow> nat option" where
  "fixed_width_loop n [] = Some n"
| "fixed_width_loop n (b # bs) =
     (if \<not> is_ascii_digit b then None
      else if 2 ^ 32 \<le> n * 10 \<or> 2 ^ 32 \<le> n * 10 + (of_char b - 48) then None
      else fixed_width_loop (n * 10 + (of_char b - 48)) bs)"

definition parse_fixed_width_u32_ascii :: "string \<Rightarrow> nat option" where
  "parse_fixed_width_u32_ascii bytes = fixed_width_loop 0 bytes"

definition parse_yyyymmdd_ascii :: "string \<Rightarrow> nat option" where
  "parse_yyyymmdd_ascii bytes =
     (if length bytes \<noteq> 8 then None
      else do {
        year \<leftarrow> parse_fixed_width_u32_ascii (take 4 bytes);
        month \<leftarrow> parse_fixed_width_u32_ascii (take 2 (drop 4 bytes));
        day \<leftarrow> parse_fixed_width_u32_ascii (take 2 (drop 6 bytes));
        days_since_epoch year month day
      })"

definition parse_amz_date :: "string \<Rightarrow> u64 option" where
  "parse_amz_date ts =
     (if length ts \<noteq> 16 \<or> ts ! 8 \<noteq> CHR ''T'' \<or> ts ! 15 \<noteq> CHR ''Z'' then None
      else do {
        days \<leftarrow> parse_yyyymmdd_ascii (take 8 ts);
        hour \<leftarrow> parse_fixed_width_u32_ascii (take 2 (drop 9 ts));
        min \<leftarrow> parse_fixed_width_u32_ascii (take 2 (drop 11 ts));
        sec \<leftarrow> parse_fixed_width_u32_ascii (take 2 (drop 13 ts));
        if 23 < hour \<or> 59 < min \<or> 59 < sec then None
        else Some (of_nat (days * 86400 + hour * 3600 + min * 60 + sec))
      })"

definition parse_amz_date_stamp :: "string \<Rightarrow> nat option" where
  "parse_amz_date_stamp date_stamp = parse_yyyymmdd_ascii date_stamp"

definition amz_date_matches_date_stamp :: "string \<Rightarrow> string \<Rightarrow> bool" where
  "amz_date_matches_date_stamp timestamp date_stamp \<longleftrightarrow>
     parse_amz_date timestamp \<noteq> None \<and> parse_amz_date_stamp date_stamp \<noteq> None \<and>
     8 \<le> length timestamp \<and> take 8 timestamp = date_stamp"

section \<open>Round trips of ISO 8601 timestamps\<close>

lemma days_in_month_i64_eq [simp]: "days_in_month_i64 = days_in_month"
  by (intro ext) (simp add: days_in_month_i64_def days_in_month_def is_leap_i64_def is_leap_year_def)

lemma checked_i64_small: "- 9000000000000000000 \<le> x \<Longrightarrow> x \<le> 9000000000000000000 \<Longrightarrow> checked_i64 x = Some x"
  by (simp add: checked_i64_def)

lemma date_to_days_i64_eq:
  assumes "0 \<le> year" and "year \<le> 1000000000000" and "month \<le> 12" and "day \<le> 31"
  shows "date_to_days_i64 year month day = Some (date_to_days year month day)"
proof -
  define y where "y = year - (if month \<le> 2 then 1 else 0)"
  have y: "- 1 \<le> y" "y \<le> 1000000000000" using assms by (auto simp: y_def)
  define era where "era = y div 400"
  define yoe where "yoe = y - era * 400"
  have "yoe = y mod 400" by (simp add: yoe_def era_def minus_div_mult_eq_mod)
  then have yoe: "0 \<le> yoe" "yoe < 400" by simp_all
  have era: "- 1 \<le> era" "era \<le> 2500000000" using y yoe unfolding yoe_def by linarith+
  define mo where "mo = int month + (if 2 < month then - 3 else 9)"
  have mo: "0 \<le> mo" "mo \<le> 21" using assms(3) by (auto simp: mo_def)
  have md: "0 \<le> (mo * 153 + 2) sdiv 5" "(mo * 153 + 2) sdiv 5 \<le> 644" using mo by (simp_all add: sdiv_nonneg pos_imp_zdiv_nonneg_iff)
  have yd: "0 \<le> yoe sdiv 4" "yoe sdiv 4 \<le> 400" "0 \<le> yoe sdiv 100" "yoe sdiv 100 \<le> 400"
    using yoe by (simp_all add: sdiv_nonneg pos_imp_zdiv_nonneg_iff)
  show ?thesis
    unfolding date_to_days_i64_def date_to_days_def Let_def y_def [symmetric] sdiv_era era_def [symmetric]
    using y yoe era mo md yd assms(4)
    by (simp add: checked_i64_small y_def [symmetric] sdiv_era era_def [symmetric] yoe_def [symmetric] mo_def [symmetric] ac_simps)
qed

lemma epoch_seconds:
  assumes "days_to_date (int n) = (y, m, d)" and "n < 2932897" and "h < 24" and "mi < 60" and "se < 60"
  shows "date_time_to_epoch_seconds y m d h mi se = Some (of_nat (n * 86400 + h * 3600 + mi * 60 + se))"
proof -
  note inv = date_to_days_inverse [OF assms(1)] and r = days_to_date_nonneg [OF assms(1)]
  obtain k where k: "days_in_month y m = Some k" "1 \<le> d" "d \<le> k" using inv(1) by (auto simp: valid_date_def split: option.splits)
  have y: "0 \<le> y" "y \<le> 1000000000000" using r(5) days_to_date_year [OF assms(1)] assms(2) by linarith+
  have "date_to_days_i64 y m d = Some (int n)" using date_to_days_i64_eq [OF y] r inv(2) by simp
  then show ?thesis
    unfolding date_time_to_epoch_seconds_def days_in_month_i64_eq k(1) using k(2,3) assms(2-5)
    by (simp add: checked_i64_small)
qed

lemma iso8601_fields:
  assumes "year < 10000" and "month < 100" and "day < 100" and "hours < 100" and "minutes < 100" and "seconds < 100"
    and "frac = [] \<or> frac = ''.000''"
  shows "parse_iso8601_utc_seconds_with_options
       (fmt_pad 4 year @ ''-'' @ fmt_pad 2 month @ ''-'' @ fmt_pad 2 day @ ''T'' @
        fmt_pad 2 hours @ '':'' @ fmt_pad 2 minutes @ '':'' @ fmt_pad 2 seconds @ frac @ ''Z'') options =
     date_time_to_epoch_seconds (int year) month day hours minutes seconds"
proof -
  define date time where "date = fmt_pad 4 year @ ''-'' @ fmt_pad 2 month @ ''-'' @ fmt_pad 2 day"
    and "time = fmt_pad 2 hours @ '':'' @ fmt_pad 2 minutes @ '':'' @ fmt_pad 2 seconds"
  let ?s = "date @ ''T'' @ time @ frac @ ''Z''"
  have "fmt_pad 4 year \<noteq> []" using length_fmt_pad [of year 4] assms(1) by fastforce
  then have "hd ?s \<in> set (fmt_pad 4 year)" by (simp add: date_def hd_append)
  then have "\<not> is_space (hd ?s)" by (auto dest!: fmt_pad_digits simp: is_space_def is_ascii_digit_def Let_def)
  then have trim: "trim ?s = ?s" by (intro trim_id) (simp add: is_space_def)
  have suffix: "strip_suffix ''Z'' ?s = Some (date @ ''T'' @ time @ frac)" by (simp add: strip_suffix_Some_iff)
  have dot: "CHR ''.'' \<notin> set (date @ ''T'' @ time)" using fmt_pad_not_minus(4) by (simp add: date_def time_def)
  have T: "split_once (CHR ''T'') (date @ ''T'' @ time) = Some (date, time)"
    using fmt_pad_not_minus(3) by (simp add: split_once_Some_iff date_def)
  have frac: "split_once (CHR ''.'') (date @ ''T'' @ time @ frac) = (if frac = [] then None else Some (date @ ''T'' @ time, ''000''))"
    using assms(7) dot by (auto simp: split_once_Some_iff split_once_None_iff)
  have "split_at (CHR ''-'') date = [fmt_pad 4 year, fmt_pad 2 month, fmt_pad 2 day]"
    using fmt_pad_not_minus(1) by (simp add: date_def split_at_append split_at_single)
  then have date: "parse_iso8601_date date b = Some (int year, month, day)" for b
    using assms(1-3) by (simp add: parse_iso8601_date_def parse_u32_def)
  have "split_at (CHR '':'') time = [fmt_pad 2 hours, fmt_pad 2 minutes, fmt_pad 2 seconds]"
    using fmt_pad_not_minus(2) by (simp add: time_def split_at_append split_at_single)
  then have time: "parse_iso8601_time time b = Some (hours, minutes, seconds)" for b
    using assms(4-6) by (simp add: parse_iso8601_time_def parse_u32_def)
  have digits: "list_all is_ascii_digit ''000''" by (simp add: is_ascii_digit_def)
  have "parse_iso8601_utc_seconds_with_options ?s options = date_time_to_epoch_seconds (int year) month day hours minutes seconds"
    unfolding parse_iso8601_utc_seconds_with_options_def trim if_cancel Let_def suffix Option.bind.bind_lunit frac
    using assms(7) digits by (elim disjE) (simp_all add: T [unfolded append_Cons append_Nil] date time)
  then show ?thesis by (simp only: date_def time_def append_assoc)
qed

end
