(* ===== verification/Timestamps_Properties.thy ===== *)
theory Timestamps_Properties
  imports Timestamps
begin

text \<open>
  The conversions of dates are inverse to each other and all copies agree; the timestamps the server writes are
  read back.
\<close>




text \<open>
  C38. Up to the end of the year 9999, the HTTP date of a time in milliseconds is read back as that time without its
  fraction of a second.
\<close>

theorem http_date_round_trip:
  assumes "millis < 253402300800000"
  shows "parse_http_date (format_http_date millis) = Some (millis div 1000 * 1000)"
  using assms by (rule http_date_parse_format)

theorem http_date_round_trip_witness:
  "parse_http_date (format_http_date 1705321845678) = Some 1705321845000"
proof -
  have "unat (1705321845678 div 1000 :: u64) = 1705321845" by (simp add: unat_div)
  then have "(1705321845678 div 1000 :: u64) = 1705321845" by (simp add: word_unat_eq_iff)
  then show ?thesis using http_date_round_trip [of 1705321845678] by simp
qed

text \<open>
  C39. Up to the end of the year 9999, the timestamps of the documents and headers of object lock are read back as
  the seconds they were written for, whatever the options of the parser.
\<close>

theorem iso8601_round_trip:
  assumes "secs < 253402300800"
  shows "parse_iso8601_utc_seconds_with_options (format_timestamp_secs secs) options = Some secs \<and>
    parse_iso8601_utc_seconds_with_options (format_object_lock_timestamp secs) options = Some secs \<and>
    parse_iso8601_utc_seconds_with_options (format_object_lock_header_timestamp secs) options = Some secs"
proof -
  define n where "n = unat secs"
  have "n < 253402300800" using assms by (simp add: n_def word_less_nat_alt)
  then have days: "n div 86400 < 2932897" by (simp add: less_mult_imp_div_less)
  obtain y m d where date: "days_to_date (int (n div 86400)) = (y, m, d)" by (metis prod_cases3)
  note r = days_to_date_nonneg [OF date] and t = time_of_day_parts [of n]
  have year: "y \<le> 9999" using days_to_date_year [OF date] days by linarith
  obtain Y where Y: "y = int Y" using r(5) zero_le_imp_eq_int [of y] by auto
  have f: "Y < 10000" "m < 100" "d < 100" "n mod 86400 div 3600 < 100" "n mod 86400 mod 3600 div 60 < 100" "n mod 86400 mod 60 < 100"
    using r year Y t(1-3) by linarith+
  have parse: "parse_iso8601_utc_seconds_with_options
      (fmt_pad 4 Y @ ''-'' @ fmt_pad 2 m @ ''-'' @ fmt_pad 2 d @ ''T'' @ fmt_pad 2 (n mod 86400 div 3600) @ '':'' @
       fmt_pad 2 (n mod 86400 mod 3600 div 60) @ '':'' @ fmt_pad 2 (n mod 86400 mod 60) @ frac @ ''Z'') options = Some secs"
    if "frac = [] \<or> frac = ''.000''" for frac
    unfolding iso8601_fields [OF f that] using epoch_seconds [OF date days t(1-3)] unfolding t(4) by (simp add: Y n_def)
  have pad: "fmt_pad_i64 4 y = fmt_pad 4 Y" by (simp add: fmt_pad_i64_def Y)
  have "format_timestamp_secs secs = fmt_pad 4 Y @ ''-'' @ fmt_pad 2 m @ ''-'' @ fmt_pad 2 d @ ''T'' @ fmt_pad 2 (n mod 86400 div 3600) @ '':'' @
       fmt_pad 2 (n mod 86400 mod 3600 div 60) @ '':'' @ fmt_pad 2 (n mod 86400 mod 60) @ [] @ ''Z''"
    unfolding format_timestamp_secs_def n_def [symmetric] Let_def xml_days_to_date_eq date by (simp add: pad)
  moreover have "format_object_lock_timestamp secs = fmt_pad 4 Y @ ''-'' @ fmt_pad 2 m @ ''-'' @ fmt_pad 2 d @ ''T'' @ fmt_pad 2 (n mod 86400 div 3600) @ '':'' @
       fmt_pad 2 (n mod 86400 mod 3600 div 60) @ '':'' @ fmt_pad 2 (n mod 86400 mod 60) @ ''.000'' @ ''Z''"
    unfolding format_object_lock_timestamp_def n_def [symmetric] Let_def xml_days_to_date_eq date by (simp add: pad)
  moreover have "format_object_lock_header_timestamp secs = format_timestamp_secs secs"
    unfolding format_object_lock_header_timestamp_def format_timestamp_secs_def xml_days_to_date_def Let_def by (simp split: prod.split)
  ultimately show ?thesis using parse [of "[]"] parse [of "''.000''"] by simp
qed

theorem iso8601_round_trip_witness:
  "parse_iso8601_utc_seconds_with_options (format_timestamp_secs 1705321845)
     \<lparr>trim_whitespace = True, require_fixed_width_fields = False\<rparr> = Some 1705321845"
  using iso8601_round_trip [of 1705321845] by simp


end
