(* ===== verification/Spec2Isabelle.thy ===== *)
theory Spec2Isabelle
  imports EC_Properties Placement_Properties Lease_Properties Checksum_Properties
    Authority_Clock_Properties Checkpoint_Properties
    Durable_Journal_Properties Policy_Properties Chunked_Properties Timestamps_Properties
begin

text \<open>
  Verification of argmin, an S3-compatible object store written in Rust (\<^verbatim>\<open>src/crates\<close>).

  \<^bold>\<open>The program.\<close> A request arrives at the HTTP layer (\<^verbatim>\<open>server-http\<close>), which decodes its body, parses dates and headers
  and authenticates it (\<^verbatim>\<open>auth\<close>). The coordinator (\<^verbatim>\<open>server-core\<close>) authorizes it against the policies of the caller,
  splits an object into stripes of data and parity shards (\<^verbatim>\<open>ec\<close>), chooses the nodes that hold them (\<^verbatim>\<open>placement\<close>) and
  protects contents by checksums (\<^verbatim>\<open>checksum\<close>). The storage nodes (\<^verbatim>\<open>storage\<close>) are led by a control plane whose leader
  holds a lease, hands out timestamps from an authority clock and records its commands in a durable journal.

  \<^bold>\<open>Conventions.\<close> A struct is a record, an enum a datatype, a machine integer a word of its width where wrap-around
  can matter and a natural number or integer with its bound written out elsewhere. A fallible function returns a
  sum, its error on the left, or an option; a method that takes \<open>&mut self\<close> returns the new state with its result; a
  possible panic is a value (\<open>failure\<close>). A string is the list of the bytes of its UTF-8 encoding
  (\<open>Rust_Strings\<close>). Code of other packages is an argument: digests and message authentication codes,
  the hash and the logarithm of placement scores, clock readings, random bytes, the outcome of each system call.
  \<open>Argmin_Prelude\<close> holds the shared integer operations, byte orders and loop lemmas.

  \<^bold>\<open>Erasure coding\<close> (\<^verbatim>\<open>ec/src/gf.rs\<close>, \<^verbatim>\<open>codec.rs\<close>, \<^verbatim>\<open>reconstruct.rs\<close>). \<open>EC_Field\<close>: the multiplication tables, shown to form a
  field. \<open>EC_Matrix\<close>: generator matrix, row products and inversion; \<open>EC_Inversion\<close>: the inversion is exact. \<open>EC_Simd\<close>:
  the vector backends over the semantics of their intrinsics, equal to the scalar one. \<open>EC_Codec\<close>: \<open>encode\<close>, \<open>verify\<close>,
  \<open>reconstruct\<close>. \<open>EC_Recovery\<close> has the locales \<open>mds_matrix\<close>, \<open>valid_config\<close> and \<open>erasure_codec\<close>, linked by sublocales and
  interpreted on the Cauchy matrix and the default codec. \<open>EC_Properties\<close>: any \<open>k\<close> shards recover the others, the
  recovery matrix is never singular, encoding equals its reference, verification names the first difference.

  \<^bold>\<open>Placement\<close> (\<^verbatim>\<open>placement/src\<close>). \<open>F64\<close>: binary64 comparison. \<open>Placement\<close>: topology, cluster map, constraints and the
  streaming placer. \<open>Placement_Selection\<close>: the contracts \<open>group_counter\<close> and \<open>partition_constraint\<close>, interpreted on the
  counters and constraints of the code. \<open>Placement_Properties\<close>: placements respect the cap, are optimal at every score,
  fail only when nothing fits, and do not move when an unrelated node leaves.

  \<^bold>\<open>Control plane\<close> (\<^verbatim>\<open>storage/src/control_plane_lease.rs\<close>, \<^verbatim>\<open>control_plane/authority_clock.rs\<close>, \<^verbatim>\<open>durable_journal.rs\<close>).
  \<open>Lease\<close> with \<open>Lease_Properties\<close>: a state machine of a leaseholder and its successor in which no two serve at once.
  \<open>Authority_Clock\<close> with its properties: issued timestamps never decrease over any sequence of operations, and a restart
  needs proof of continuity; \<open>Checkpoint_Properties\<close>: the restart checkpoint decodes exactly from its own encoding.
  \<open>Durable_Journal\<close> with its properties: replay after a crash at any byte, appends on every outcome of the system calls,
  compaction and replacement as refinements of a list of frames. \<open>Fail_Closed\<close> is the contract of monitors that stay
  closed, interpreted on the lease clock, the authority clock and the chunked decoder. \<open>Control_Plane_Error\<close>: the errors.

  \<^bold>\<open>Checksums\<close> (\<^verbatim>\<open>checksum/src\<close>). \<open>Crc\<close> with \<open>Crc_Properties\<close>: the slicing-by-16 routines equal the bitwise CRC, and the
  combination of checksums is the checksum of the concatenation. \<open>Checksum\<close> with its properties: algorithms, names and
  the incremental hasher.

  \<^bold>\<open>Authentication\<close> (\<^verbatim>\<open>auth/src\<close>). \<open>Identity\<close>: the validated identities. \<open>Policy_Action\<close>, \<open>Policy\<close>, \<open>Iam_Policy\<close>: actions,
  patterns, statements, policies and the record store. \<open>Policy_Properties\<close>: the wildcard matcher decides the language of
  the pattern; with the contract \<open>deny_overrides\<close>, the exact conditions of session permissions and of assuming a role;
  the store keeps its two indexes in agreement.

  \<^bold>\<open>Chunked bodies\<close> (\<^verbatim>\<open>server-http/src/http/chunked.rs\<close>). \<open>Server_Error\<close>: the errors. \<open>Chunked\<close>: the incremental decoder.
  \<open>Chunked_Lines\<close>, \<open>Chunked_Slices\<close> and \<open>Chunked_Bodies\<close>: lines, slices of the wire, and the grammar of signed bodies.
  \<open>Chunked_Properties\<close>: the decoder accepts exactly the bodies of the grammar, slices do not matter, it terminates, never
  panics, keeps bounded state and does not resume after an error.

  \<^bold>\<open>Calendar and timestamps\<close> (\<^verbatim>\<open>coordinator/object_metadata.rs\<close>, \<^verbatim>\<open>http/response.rs\<close>, \<^verbatim>\<open>http/xml.rs\<close>, \<^verbatim>\<open>auth/src/canonical.rs\<close>).
  \<open>Calendar\<close>: the conversions between dates and days of the coordinator and of the HTTP layer, and the count by years of
  request timestamps; further copies in lifecycle rules and policy conditions are not modelled. \<open>Timestamps\<close>: HTTP, ISO
  8601 and request timestamps, with the checked conversion and the copy of the XML documents. \<open>Timestamps_Properties\<close>: the conversions are inverse to each other for all years, the copies agree with a
  count year by year, and timestamps up to the year 9999 are read back.

  \<^bold>\<open>Bounds and fuel.\<close> All functions of the model are total, so no property depends on fuel. The loop of the decoder is
  shown equal to its version with a number of rounds: two for every byte held or given, and two more. Lengths of
  buffers are natural numbers and \<open>usize\<close> has 64 bits.

  \<^bold>\<open>Not modelled.\<close> The RISC-V assembly of the erasure code and the carry-less multiplication of the checksums; the
  rounding of the logarithm behind placement scores; the control plane beyond leases, clock and journal, in particular
  the Raft host and the metadata store, which drive packages outside the sources; request canonicalization,
  credentials, session tokens and bucket policy documents; HTTP routing, XML documents and the coordination of
  requests, which are asynchronous input and output; lifecycle rules and tags; observability and the test suites.
\<close>

end
